(* ===== verification/Exio_Prelude.thy ===== *)
theory Exio_Prelude
  imports Main "HOL-Library.Char_ord" "HOL-Library.List_Lexorder"
begin

text \<open>
  Shared vocabulary of the exio development: the exceptions the C++ code throws as a
  datatype with its result type, the part of \<^verbatim>\<open>std::map\<close> the code uses (an ordered
  association list, with the interface the clients rely on as a locale), the decimal
  printing done by \<^verbatim>\<open>std::ostringstream\<close> / \<^verbatim>\<open>snprintf\<close> and the parsing done by
  \<^verbatim>\<open>atoi\<close>, and generic facts on lists that several components use.
\<close>

named_theorems exio_defs "definitions unfolded by the component proofs"
named_theorems stdmap_simps "lookup laws of the ordered map model"
named_theorems wf_intros "well-formedness of the values the operations build"

section \<open>Exceptions and results\<close>

text \<open>
  What a C++ call can end with other than a value: the exception classes of the code,
  the allocator's failure, and the accesses the C++ standard leaves undefined.  An
  undefined access is kept apart from every exception, so that a theorem that an operation
  returns also says that it stays within its objects.
\<close>

datatype exn =
    RuntimeError string
  | OutOfRange string
  | BadAlloc
  | AdminError int string
  | UndefinedAccess string

text \<open>An undefined access is no exception and is not caught.\<close>

fun undefined_access :: "exn \<Rightarrow> bool" where
  "undefined_access (UndefinedAccess s) \<longleftrightarrow> True"
| "undefined_access _ \<longleftrightarrow> False"

type_synonym 'a res = "exn + 'a"

definition bindR :: "'a res \<Rightarrow> ('a \<Rightarrow> 'b res) \<Rightarrow> 'b res" where
  "bindR r f = (case r of Inl e \<Rightarrow> Inl e | Inr x \<Rightarrow> f x)"

lemma bindR_simps [simp]:
  "bindR (Inl e) f = Inl e"
  "bindR (Inr x) f = f x"
  by (simp_all add: bindR_def)

lemma bindR_cong [fundef_cong]:
  "r = r' \<Longrightarrow> (\<And>x. r' = Inr x \<Longrightarrow> f x = g x) \<Longrightarrow> bindR r f = bindR r' g"
  by (cases r') simp_all

lemma bindR_Inr_iff [simp]:
  "bindR r f = Inr y \<longleftrightarrow> (\<exists>x. r = Inr x \<and> f x = Inr y)"
  by (cases r) simp_all

lemma bindR_assoc: "bindR (bindR r f) g = bindR r (\<lambda>x. bindR (f x) g)"
  by (cases r) simp_all

fun foldR :: "('a \<Rightarrow> 'b \<Rightarrow> 'b res) \<Rightarrow> 'a list \<Rightarrow> 'b \<Rightarrow> 'b res" where
  "foldR f [] b = Inr b"
| "foldR f (x # xs) b = bindR (f x b) (foldR f xs)"

lemma foldR_append: "foldR f (xs @ ys) b = bindR (foldR f xs b) (foldR f ys)"
  by (induction xs arbitrary: b) (auto simp: bindR_def split: sum.splits)

section \<open>Checked list access\<close>

definition nth_opt :: "'a list \<Rightarrow> nat \<Rightarrow> 'a option" where
  "nth_opt xs i = (if i < length xs then Some (xs ! i) else None)"

lemma nth_opt_simps [simp]:
  "nth_opt [] i = None"
  "nth_opt (x # xs) 0 = Some x"
  "nth_opt (x # xs) (Suc i) = nth_opt xs i"
  by (simp_all add: nth_opt_def)

lemma nth_opt_append:
  "nth_opt (xs @ ys) i = (if i < length xs then nth_opt xs i else nth_opt ys (i - length xs))"
  by (auto simp: nth_opt_def nth_append)

lemma nth_opt_update:
  "nth_opt (xs[i := x]) j = (if i = j \<and> j < length xs then Some x else nth_opt xs j)"
  by (simp add: nth_opt_def)

lemma nth_opt_Some: "nth_opt xs i = Some x \<longleftrightarrow> i < length xs \<and> xs ! i = x"
  by (auto simp: nth_opt_def)

definition upd_at :: "nat \<Rightarrow> ('a \<Rightarrow> 'a) \<Rightarrow> 'a list \<Rightarrow> 'a list" where
  "upd_at i f xs = (if i < length xs then xs[i := f (xs ! i)] else xs)"

lemma length_upd_at [simp]: "length (upd_at i f xs) = length xs"
  by (simp add: upd_at_def)

lemma upd_at_Nil [simp]: "upd_at i f [] = []"
  by (simp add: upd_at_def)

lemma upd_at_snoc [simp]: "upd_at (length xs) f (xs @ [x]) = xs @ [f x]"
  by (simp add: upd_at_def)

lemma nth_opt_upd_at:
  "nth_opt (upd_at i f xs) j = (if i = j then map_option f (nth_opt xs j) else nth_opt xs j)"
  by (auto simp: upd_at_def nth_opt_def)

lemma nth_opt_less: "nth_opt xs i = Some x \<Longrightarrow> i < length xs"
  by (simp add: nth_opt_Some)

lemma map_upd_at_same: "(\<And>x. g (f x) = g x) \<Longrightarrow> map g (upd_at i f xs) = map g xs"
  by (simp add: upd_at_def map_update list_update_same_conv)

lemma set_upd_at: "x \<in> set (upd_at i f xs) \<Longrightarrow> x \<in> set xs \<or> (\<exists>y \<in> set xs. x = f y)"
  by (auto simp: upd_at_def split: if_splits dest!: set_update_subset_insert [THEN subsetD])

lemma upd_at_id: "(\<And>x. nth_opt xs i = Some x \<Longrightarrow> f x = x) \<Longrightarrow> upd_at i f xs = xs"
  by (auto simp: upd_at_def nth_opt_def)

lemma drop_Cons_nth: "drop p xs = y # ys \<Longrightarrow> p < length xs \<and> xs ! p = y \<and> drop (Suc p) xs = ys"
proof -
  assume *: "drop p xs = y # ys"
  then have p: "p < length xs"
    by (metis drop_all leI list.distinct(1))
  with * have "xs ! p # drop (Suc p) xs = y # ys"
    by (simp add: Cons_nth_drop_Suc)
  with p show ?thesis by simp
qed

lemma drop_append_eq: "drop p xs = ys @ zs \<Longrightarrow> drop (p + length ys) xs = zs"
  by (metis add.commute append_eq_conv_conj drop_drop)

section \<open>The ordered map\<close>

text \<open>
  \<^verbatim>\<open>std::map\<close> keeps its entries in the order of the keys, one entry for each key.
  \<^verbatim>\<open>insert\<close> leaves an existing entry alone, \<^verbatim>\<open>m[k] = v\<close> overwrites it, and an
  iteration visits the entries in key order.
\<close>

type_synonym ('k, 'v) stdmap = "('k \<times> 'v) list"

definition map_find :: "('k, 'v) stdmap \<Rightarrow> 'k \<Rightarrow> 'v option" where
  "map_find m k = map_of m k"

fun map_insert :: "'k::linorder \<Rightarrow> 'v \<Rightarrow> ('k, 'v) stdmap \<Rightarrow> ('k, 'v) stdmap" where
  "map_insert k v [] = [(k, v)]"
| "map_insert k v ((a, b) # m) =
     (if k < a then (k, v) # (a, b) # m
      else if k = a then (a, b) # m
      else (a, b) # map_insert k v m)"

fun map_assign :: "'k::linorder \<Rightarrow> 'v \<Rightarrow> ('k, 'v) stdmap \<Rightarrow> ('k, 'v) stdmap" where
  "map_assign k v [] = [(k, v)]"
| "map_assign k v ((a, b) # m) =
     (if k < a then (k, v) # (a, b) # m
      else if k = a then (k, v) # m
      else (a, b) # map_assign k v m)"

fun map_erase :: "'k \<Rightarrow> ('k, 'v) stdmap \<Rightarrow> ('k, 'v) stdmap" where
  "map_erase k [] = []"
| "map_erase k ((a, b) # m) = (if k = a then m else (a, b) # map_erase k m)"

definition map_ok :: "('k::linorder, 'v) stdmap \<Rightarrow> bool" where
  "map_ok m \<longleftrightarrow> sorted_wrt (<) (map fst m)"

lemma map_find_simps [simp, stdmap_simps]:
  "map_find [] k = None"
  "map_find ((a, b) # m) k = (if k = a then Some b else map_find m k)"
  by (simp_all add: map_find_def)

lemma map_ok_simps [simp]:
  "map_ok []"
  "map_ok ((a, b) # m) \<longleftrightarrow> (\<forall>x \<in> set m. a < fst x) \<and> map_ok m"
  by (auto simp: map_ok_def)

lemma map_find_none: "k \<notin> fst ` set m \<Longrightarrow> map_find m k = None"
  by (simp add: map_find_def map_of_eq_None_iff)

lemma map_find_dom: "k \<in> fst ` set m \<longleftrightarrow> map_find m k \<noteq> None"
  by (simp add: map_find_def map_of_eq_None_iff)

lemma map_find_below:
  fixes m :: "('k::linorder, 'v) stdmap"
  shows "\<forall>x \<in> set m. a < fst x \<Longrightarrow> k \<le> a \<Longrightarrow> map_find m k = None"
  by (rule map_find_none) force

lemma set_map_insert: "fst ` set (map_insert k v m) = insert k (fst ` set m)"
  by (induction k v m rule: map_insert.induct) auto

lemma set_map_assign: "fst ` set (map_assign k v m) = insert k (fst ` set m)"
  by (induction k v m rule: map_assign.induct) auto

lemma set_map_erase: "set (map_erase k m) \<subseteq> set m"
  by (induction k m rule: map_erase.induct) auto

lemma map_find_insert [stdmap_simps]:
  "map_ok m \<Longrightarrow> map_find (map_insert k v m) j =
     (if j = k then (case map_find m k of None \<Rightarrow> Some v | Some w \<Rightarrow> Some w) else map_find m j)"
  by (induction k v m rule: map_insert.induct)
    (auto simp: map_find_below split: option.splits)

lemma map_find_assign [stdmap_simps]:
  "map_find (map_assign k v m) j = (if j = k then Some v else map_find m j)"
  by (induction k v m rule: map_assign.induct) auto

lemma map_find_erase [stdmap_simps]:
  "map_ok m \<Longrightarrow> map_find (map_erase k m) j = (if j = k then None else map_find m j)"
  by (induction k m rule: map_erase.induct) (auto simp: map_find_below)

lemma map_insert_above: "\<forall>x \<in> set m. a < fst x \<Longrightarrow> a < k \<Longrightarrow> \<forall>x \<in> set (map_insert k v m). a < fst x"
  by (induction k v m rule: map_insert.induct) auto

lemma map_assign_above: "\<forall>x \<in> set m. a < fst x \<Longrightarrow> a < k \<Longrightarrow> \<forall>x \<in> set (map_assign k v m). a < fst x"
  by (induction k v m rule: map_assign.induct) auto

lemma map_ok_insert [wf_intros]: "map_ok m \<Longrightarrow> map_ok (map_insert k v m)"
proof (induction k v m rule: map_insert.induct)
  case (2 k v a b m)
  then show ?case
    using map_insert_above [of m a k v] by (auto intro: less_trans)
qed simp

lemma map_ok_assign [wf_intros]: "map_ok m \<Longrightarrow> map_ok (map_assign k v m)"
proof (induction k v m rule: map_assign.induct)
  case (2 k v a b m)
  then show ?case
    using map_assign_above [of m a k v] by (auto intro: less_trans)
qed simp

lemma map_ok_erase [wf_intros]: "map_ok m \<Longrightarrow> map_ok (map_erase k m)"
  using set_map_erase by (induction k m rule: map_erase.induct) fastforce+

text \<open>Two ordered maps with the same lookups are the same list of entries.\<close>

lemma map_ok_keys: "map_ok m \<Longrightarrow> distinct (map fst m)" "map_ok m \<Longrightarrow> sorted (map fst m)"
  by (simp_all add: map_ok_def strict_sorted_iff)

lemma map_ok_ext:
  assumes ok: "map_ok m" "map_ok m'" and eq: "map_find m = map_find m'"
  shows "m = m'"
proof -
  have "map_of m = map_of m'"
    using eq by (auto simp: map_find_def fun_eq_iff)
  then have s: "set m = set m'"
    using ok by (metis map_ok_keys(1) map_of_inject_set)
  then have "inj_on fst (set m \<union> set m')"
    using map_ok_keys(1) [OF ok(1)] by (simp add: distinct_map)
  then show ?thesis
    using ok s by (blast intro: map_sorted_distinct_set_unique map_ok_keys)
qed

text \<open>
  The interface the components rely on, with the facts they use proved once from its laws.
\<close>

locale ordered_map =
  fixes find :: "'m \<Rightarrow> 'k \<Rightarrow> 'v option"
    and ins :: "'k \<Rightarrow> 'v \<Rightarrow> 'm \<Rightarrow> 'm"
    and assign :: "'k \<Rightarrow> 'v \<Rightarrow> 'm \<Rightarrow> 'm"
    and erase :: "'k \<Rightarrow> 'm \<Rightarrow> 'm"
    and ok :: "'m \<Rightarrow> bool"
  assumes find_ins: "ok m \<Longrightarrow> find (ins k v m) j =
        (if j = k then (case find m k of None \<Rightarrow> Some v | Some w \<Rightarrow> Some w) else find m j)"
    and find_assign: "find (assign k v m) j = (if j = k then Some v else find m j)"
    and find_erase: "ok m \<Longrightarrow> find (erase k m) j = (if j = k then None else find m j)"
    and ok_ins: "ok m \<Longrightarrow> ok (ins k v m)"
    and ok_assign: "ok m \<Longrightarrow> ok (assign k v m)"
    and ok_erase: "ok m \<Longrightarrow> ok (erase k m)"
    and ext: "ok m \<Longrightarrow> ok m' \<Longrightarrow> find m = find m' \<Longrightarrow> m = m'"
begin

lemmas laws = find_ins find_assign find_erase ok_ins ok_assign ok_erase

lemma ins_fresh: "ok m \<Longrightarrow> find m k = None \<Longrightarrow> ins k v m = assign k v m"
  by (rule ext) (auto simp: laws fun_eq_iff)

lemma ins_bound: "ok m \<Longrightarrow> find m k = Some w \<Longrightarrow> ins k v m = m"
  by (rule ext) (auto simp: laws fun_eq_iff)

lemma assign_same: "ok m \<Longrightarrow> find m k = Some v \<Longrightarrow> assign k v m = m"
  by (rule ext) (auto simp: laws fun_eq_iff)

lemma assign_twice: "ok m \<Longrightarrow> assign k v (assign k w m) = assign k v m"
  by (rule ext) (auto simp: laws fun_eq_iff)

lemma assign_commute: "ok m \<Longrightarrow> j \<noteq> k \<Longrightarrow> assign k v (assign j w m) = assign j w (assign k v m)"
  by (rule ext) (auto simp: laws fun_eq_iff)

lemma erase_assign: "ok m \<Longrightarrow> find m k = None \<Longrightarrow> erase k (assign k v m) = m"
  by (rule ext) (auto simp: laws fun_eq_iff)

end

interpretation stdmap: ordered_map map_find map_insert map_assign map_erase map_ok
  by unfold_locales
    (auto simp: map_find_insert map_find_assign map_find_erase
      intro: map_ok_insert map_ok_assign map_ok_erase map_ok_ext)

section \<open>Decimal text\<close>

text \<open>
  Printing an unsigned number in decimal (\<^verbatim>\<open>os << n\<close>, \<^verbatim>\<open>snprintf\<close> with
  \<^verbatim>\<open>%u\<close>, \<^verbatim>\<open>%lu\<close> or \<^verbatim>\<open>%zu\<close>) and a signed one (\<^verbatim>\<open>os << i\<close>).
\<close>

definition digit_char :: "nat \<Rightarrow> char" where
  "digit_char d = char_of (48 + d)"

fun dec :: "nat \<Rightarrow> string" where
  "dec n = (if n < 10 then [digit_char n] else dec (n div 10) @ [digit_char (n mod 10)])"

declare dec.simps [simp del]

definition dec_int :: "int \<Rightarrow> string" where
  "dec_int i = (if i < 0 then CHR ''-'' # dec (nat (- i)) else dec (nat i))"

text \<open>The characters \<^verbatim>\<open>isdigit\<close> accepts, and the digit the code reads from one.\<close>

definition is_digit :: "char \<Rightarrow> bool" where
  "is_digit c \<longleftrightarrow> 48 \<le> (of_char c :: nat) \<and> (of_char c :: nat) \<le> 57"

lemma of_char_digit_char: "d < 10 \<Longrightarrow> (of_char (digit_char d) :: nat) = 48 + d"
  by (simp add: digit_char_def)

lemma is_digit_digit_char [simp]: "d < 10 \<Longrightarrow> is_digit (digit_char d)"
  by (simp add: is_digit_def of_char_digit_char)

lemma dec_nonempty [simp]: "dec n \<noteq> []"
  by (subst dec.simps) simp

lemma dec_digits: "list_all is_digit (dec n)"
proof (induction n rule: dec.induct)
  case (1 n)
  then show ?case by (subst dec.simps) simp
qed

text \<open>The value of a digit string, most significant digit first.\<close>

fun dec_value :: "nat \<Rightarrow> string \<Rightarrow> nat" where
  "dec_value acc [] = acc"
| "dec_value acc (c # cs) = dec_value (acc * 10 + ((of_char c :: nat) mod 16)) cs"

lemma dec_value_append: "dec_value acc (xs @ ys) = dec_value (dec_value acc xs) ys"
  by (induction xs arbitrary: acc) simp_all

lemma digit_low_nibble: "d < 10 \<Longrightarrow> (48 + d) mod 16 = (d::nat)"
  using mod_add_self1 [of 16 d] by (simp add: mod_add_left_eq [symmetric, of 48])

lemma dec_value_dec: "dec_value 0 (dec n) = n"
proof (induction n rule: dec.induct)
  case (1 n)
  then show ?case
    by (subst dec.simps) (auto simp: dec_value_append of_char_digit_char digit_low_nibble)
qed

lemma dec_inject [simp]: "dec m = dec n \<longleftrightarrow> m = n"
  by (metis dec_value_dec)

lemma length_dec_le: "length (dec n) \<le> Suc k \<longleftrightarrow> n < 10 ^ Suc k"
proof (induction k arbitrary: n)
  case 0
  show ?case by (subst dec.simps) (simp add: Suc_le_eq)
next
  case (Suc k)
  have small: "n < 10 \<Longrightarrow> n < 10 ^ Suc (Suc k)"
    by (rule less_le_trans [of _ "10 ^ 1"]) (simp, rule power_increasing, simp_all)
  have "n div 10 < 10 ^ Suc k \<longleftrightarrow> n < 10 ^ Suc (Suc k)"
    by (simp add: div_less_iff_less_mult mult.commute)
  with Suc [of "n div 10"] small show ?case
    by (subst dec.simps) simp
qed

lemma length_dec_mono: "m \<le> n \<Longrightarrow> length (dec m) \<le> length (dec n)"
proof -
  assume "m \<le> n"
  obtain k where k: "length (dec n) = Suc k"
    by (cases "length (dec n)") auto
  then have "n < 10 ^ Suc k"
    using length_dec_le [of n k] by simp
  with \<open>m \<le> n\<close> have "length (dec m) \<le> Suc k"
    using length_dec_le [of m k] by simp
  with k show ?thesis by simp
qed

text \<open>Adding its number of digits (or one more) to a number gains at most one digit.\<close>

lemma length_dec_add: "length (dec (n + length (dec n) + 1)) \<le> Suc (length (dec n))"
proof -
  obtain k where k: "length (dec n) = Suc k"
    by (cases "length (dec n)") auto
  have "Suc k < 10 ^ Suc k"
    by (rule less_le_trans [OF less_exp]) (rule power_mono, simp_all)
  moreover have "n < 10 ^ Suc k"
    using k length_dec_le [of n k] by simp
  ultimately have "n + Suc k + 1 < 10 ^ Suc (Suc k)"
    by simp
  with k show ?thesis
    using length_dec_le [of "n + Suc k + 1" "Suc k"] by simp
qed

end
