(* ===== verification/Msg_IDs.thy ===== *)
theory Msg_IDs
  imports Exio_Prelude
begin

text \<open>
  The field names, qualified names, message types and error codes of
  \<^verbatim>\<open>libexio/exio/MsgIDs.h\<close>.  A qualified name (\<^verbatim>\<open>sam::qname\<close>) is the list of its
  parts.  The identifiers are abbreviations, so that the simplifier compares the strings
  themselves.
\<close>

abbreviation id_admin_prefix :: "string" where
  "id_admin_prefix \<equiv> ''admin_''"

abbreviation id_admincount :: "string" where
  "id_admincount \<equiv> ''admincount''"

abbreviation id_adminset :: "string" where
  "id_adminset \<equiv> ''adminset''"

abbreviation id_alert_type :: "string" where
  "id_alert_type \<equiv> ''alert_type''"

abbreviation id_alert_id :: "string" where
  "id_alert_id \<equiv> ''alert_id''"

abbreviation id_args_COUNT :: "string" where
  "id_args_COUNT \<equiv> ''args_COUNT''"

abbreviation id_args_prefix :: "string" where
  "id_args_prefix \<equiv> ''args_''"

abbreviation id_autoclose :: "string" where
  "id_autoclose \<equiv> ''autoclose''"

abbreviation id_body :: "string" where
  "id_body \<equiv> ''body''"

abbreviation id_colname :: "string" where
  "id_colname \<equiv> ''colname''"

abbreviation id_columns :: "string" where
  "id_columns \<equiv> ''columns''"

abbreviation id_command :: "string" where
  "id_command \<equiv> ''command''"

abbreviation id_dest :: "string" where
  "id_dest \<equiv> ''dest''"

abbreviation id_error :: "string" where
  "id_error \<equiv> ''error''"

abbreviation id_head :: "string" where
  "id_head \<equiv> ''head''"

abbreviation id_longhelp :: "string" where
  "id_longhelp \<equiv> ''long''"

abbreviation id_more :: "string" where
  "id_more \<equiv> ''more''"

abbreviation id_msg_prefix :: "string" where
  "id_msg_prefix \<equiv> ''msg_''"

abbreviation id_msgcount :: "string" where
  "id_msgcount \<equiv> ''msgcount''"

abbreviation id_msgtype :: "string" where
  "id_msgtype \<equiv> ''msgtype''"

abbreviation id_name :: "string" where
  "id_name \<equiv> ''name''"

abbreviation id_noautosub :: "string" where
  "id_noautosub \<equiv> ''noautosub''"

abbreviation id_pending :: "string" where
  "id_pending \<equiv> ''pending''"

abbreviation id_reqseqno :: "string" where
  "id_reqseqno \<equiv> ''reqseqno''"

abbreviation id_rescode :: "string" where
  "id_rescode \<equiv> ''rescode''"

abbreviation id_respdata :: "string" where
  "id_respdata \<equiv> ''respdata''"

abbreviation id_resptype :: "string" where
  "id_resptype \<equiv> ''resptype''"

abbreviation id_restext :: "string" where
  "id_restext \<equiv> ''restext''"

abbreviation id_row_key :: "string" where
  "id_row_key \<equiv> ''RowKey''"

abbreviation id_row_last :: "string" where
  "id_row_last \<equiv> ''RowLastUpdated''"

abbreviation id_row_prefix :: "string" where
  "id_row_prefix \<equiv> ''row_''"

abbreviation id_rows :: "string" where
  "id_rows \<equiv> ''rows''"

abbreviation id_scalarlist :: "string" where
  "id_scalarlist \<equiv> ''scalarlist''"

abbreviation id_serviceid :: "string" where
  "id_serviceid \<equiv> ''serviceid''"

abbreviation id_severity :: "string" where
  "id_severity \<equiv> ''severity''"

abbreviation id_shorthelp :: "string" where
  "id_shorthelp \<equiv> ''short''"

abbreviation id_snapi :: "string" where
  "id_snapi \<equiv> ''snapi''"

abbreviation id_snapn :: "string" where
  "id_snapn \<equiv> ''snapn''"

abbreviation id_source :: "string" where
  "id_source \<equiv> ''source''"

abbreviation id_source_type :: "string" where
  "id_source_type \<equiv> ''source_type''"

abbreviation id_synthetic :: "string" where
  "id_synthetic \<equiv> ''synthetic''"

abbreviation id_table :: "string" where
  "id_table \<equiv> ''table''"

abbreviation id_tablename :: "string" where
  "id_tablename \<equiv> ''tablename''"

abbreviation id_testrequest :: "string" where
  "id_testrequest \<equiv> ''testrequest''"

abbreviation id_text :: "string" where
  "id_text \<equiv> ''text''"

abbreviation id_user :: "string" where
  "id_user \<equiv> ''user''"

abbreviation id_value :: "string" where
  "id_value \<equiv> ''value''"

abbreviation id_True :: "string" where
  "id_True \<equiv> ''1''"

abbreviation id_False :: "string" where
  "id_False \<equiv> ''0''"

abbreviation QN_body_respdata :: "string list" where
  "QN_body_respdata \<equiv> [id_body, id_respdata]"

abbreviation QN_body_resptype :: "string list" where
  "QN_body_resptype \<equiv> [id_body, id_resptype]"

abbreviation QN_body_rows :: "string list" where
  "QN_body_rows \<equiv> [id_body, id_rows]"

abbreviation QN_columns :: "string list" where
  "QN_columns \<equiv> [id_body, id_columns]"

abbreviation QN_command :: "string list" where
  "QN_command \<equiv> [id_head, id_command]"

abbreviation QN_head_reqseqno :: "string list" where
  "QN_head_reqseqno \<equiv> [id_head, id_reqseqno]"

abbreviation QN_head_snapi :: "string list" where
  "QN_head_snapi \<equiv> [id_head, id_snapi]"

abbreviation QN_head_snapn :: "string list" where
  "QN_head_snapn \<equiv> [id_head, id_snapn]"

abbreviation QN_head_user :: "string list" where
  "QN_head_user \<equiv> [id_head, id_user]"

abbreviation QN_more :: "string list" where
  "QN_more \<equiv> [id_head, id_more]"

abbreviation QN_msgtype :: "string list" where
  "QN_msgtype \<equiv> [id_head, id_msgtype]"

abbreviation QN_noautosub :: "string list" where
  "QN_noautosub \<equiv> [id_head, id_noautosub]"

abbreviation QN_rescode :: "string list" where
  "QN_rescode \<equiv> [id_head, id_rescode]"

abbreviation QN_restext :: "string list" where
  "QN_restext \<equiv> [id_head, id_restext]"

abbreviation QN_serviceid :: "string list" where
  "QN_serviceid \<equiv> [id_head, id_serviceid]"

abbreviation QN_tablename :: "string list" where
  "QN_tablename \<equiv> [id_head, id_tablename]"

abbreviation QN_testrequest :: "string list" where
  "QN_testrequest \<equiv> [id_head, id_testrequest]"

abbreviation id_admindescr :: "string" where
  "id_admindescr \<equiv> ''admindescr''"

abbreviation id_msg_alert :: "string" where
  "id_msg_alert \<equiv> ''alert''"

abbreviation id_msg_bye :: "string" where
  "id_msg_bye \<equiv> ''bye''"

abbreviation id_msg_logon :: "string" where
  "id_msg_logon \<equiv> ''logon''"

abbreviation id_msg_request :: "string" where
  "id_msg_request \<equiv> ''request''"

abbreviation id_msg_response :: "string" where
  "id_msg_response \<equiv> ''response''"

abbreviation id_tableclear :: "string" where
  "id_tableclear \<equiv> ''tableclear''"

abbreviation id_tabledescr :: "string" where
  "id_tabledescr \<equiv> ''tabledescr''"

abbreviation id_tableupdate :: "string" where
  "id_tableupdate \<equiv> ''tableupdate''"

abbreviation id_tablerowdel :: "string" where
  "id_tablerowdel \<equiv> ''tablerowdel''"

abbreviation id_heartbeat :: "string" where
  "id_heartbeat \<equiv> ''heartbeat''"

abbreviation err_unknown :: "int" where
  "err_unknown \<equiv> 1"

abbreviation err_admin_not_found :: "int" where
  "err_admin_not_found \<equiv> 2"

abbreviation err_no_table :: "int" where
  "err_no_table \<equiv> 3"

abbreviation err_bad_command :: "int" where
  "err_bad_command \<equiv> 4"

abbreviation err_no_session :: "int" where
  "err_no_session \<equiv> 5"

end
