(* ===== verification/Sam_Container.thy ===== *)
theory Sam_Container
  imports Msg_IDs
begin

text \<open>
  The in-memory form of a SAM message (\<^verbatim>\<open>libexio/exio/sam.h\<close>, \<^verbatim>\<open>libexio/sam.cc\<close>):
  fields, containers and qualified names.  A container owns its items in the order they were
  added and indexes them twice, by field name and by child name.  In the code the three
  structures hold the same heap pointers; here a pointer to an item of a container is the
  item's position in \<open>m_items\<close>, which never changes while the item lives, because items are
  only appended and only deleted together.  A returned reference (\<^verbatim>\<open>txContainer&\<close>) is such a
  position, and what a caller does through it is applied there by \<open>at_child\<close>.
\<close>

section \<open>Data\<close>

datatype txField = TxField (field_name: string) (field_value: string)

datatype txItem = ItemField txField | ItemCont txContainer
and txContainer =
  TxContainer (cont_name: string) (m_items: "txItem list")
    (m_field_map: "(string, nat) stdmap") (m_child_map: "(string, nat) stdmap")

fun item_name :: "txItem \<Rightarrow> string" where
  "item_name (ItemField f) = field_name f"
| "item_name (ItemCont c) = cont_name c"

fun isContainer :: "txItem \<Rightarrow> bool" where
  "isContainer (ItemField f) = False"
| "isContainer (ItemCont c) = True"

definition new_container :: "string \<Rightarrow> txContainer" where
  "new_container n = TxContainer n [] [] []"

fun set_cont_name :: "string \<Rightarrow> txContainer \<Rightarrow> txContainer" where
  "set_cont_name n (TxContainer nm its fm cm) = TxContainer n its fm cm"

definition count_any :: "txContainer \<Rightarrow> nat" where
  "count_any c = length (m_items c)"

definition count_field :: "txContainer \<Rightarrow> nat" where
  "count_field c = length (m_field_map c)"

definition count_child :: "txContainer \<Rightarrow> nat" where
  "count_child c = length (m_child_map c)"

section \<open>Operations on one container\<close>

fun add_internally :: "txItem \<Rightarrow> txContainer \<Rightarrow> txContainer" where
  "add_internally it (TxContainer nm its fm cm) =
     (if isContainer it
      then TxContainer nm (its @ [it]) fm (map_insert (item_name it) (length its) cm)
      else TxContainer nm (its @ [it]) (map_insert (item_name it) (length its) fm) cm)"

text \<open>The pointers the two maps hold, and the objects they point to.\<close>

definition field_ptr :: "txContainer \<Rightarrow> string \<Rightarrow> nat option" where
  "field_ptr c n = map_find (m_field_map c) n"

definition child_ptr :: "txContainer \<Rightarrow> string \<Rightarrow> nat option" where
  "child_ptr c n = map_find (m_child_map c) n"

definition field_at :: "txContainer \<Rightarrow> nat \<Rightarrow> txField option" where
  "field_at c i = (case nth_opt (m_items c) i of Some (ItemField f) \<Rightarrow> Some f | _ \<Rightarrow> None)"

definition child_at :: "txContainer \<Rightarrow> nat \<Rightarrow> txContainer option" where
  "child_at c i = (case nth_opt (m_items c) i of Some (ItemCont d) \<Rightarrow> Some d | _ \<Rightarrow> None)"

definition find_field :: "txContainer \<Rightarrow> string \<Rightarrow> txField option" where
  "find_field c n = (case field_ptr c n of None \<Rightarrow> None | Some i \<Rightarrow> field_at c i)"

definition find_child :: "txContainer \<Rightarrow> string \<Rightarrow> txContainer option" where
  "find_child c n = (case child_ptr c n of None \<Rightarrow> None | Some i \<Rightarrow> child_at c i)"

fun set_item_value :: "string \<Rightarrow> txItem \<Rightarrow> txItem" where
  "set_item_value v (ItemField f) = ItemField (TxField (field_name f) v)"
| "set_item_value v (ItemCont c) = ItemCont c"

fun on_child_item :: "(txContainer \<Rightarrow> txContainer) \<Rightarrow> txItem \<Rightarrow> txItem" where
  "on_child_item g (ItemField f) = ItemField f"
| "on_child_item g (ItemCont c) = ItemCont (g c)"

fun at_field :: "nat \<Rightarrow> string \<Rightarrow> txContainer \<Rightarrow> txContainer" where
  "at_field i v (TxContainer nm its fm cm) =
     TxContainer nm (upd_at i (set_item_value v) its) fm cm"

fun at_child :: "nat \<Rightarrow> (txContainer \<Rightarrow> txContainer) \<Rightarrow> txContainer \<Rightarrow> txContainer" where
  "at_child i g (TxContainer nm its fm cm) = TxContainer nm (upd_at i (on_child_item g) its) fm cm"

definition put_field :: "string \<Rightarrow> string \<Rightarrow> txContainer \<Rightarrow> txContainer" where
  "put_field n v c =
     (case field_ptr c n of
        Some i \<Rightarrow> at_field i v c
      | None \<Rightarrow> add_internally (ItemField (TxField n v)) c)"

definition put_child :: "string \<Rightarrow> txContainer \<Rightarrow> txContainer \<times> nat" where
  "put_child n c =
     (case child_ptr c n of
        Some i \<Rightarrow> (c, i)
      | None \<Rightarrow> (add_internally (ItemCont (new_container n)) c, length (m_items c)))"

text \<open>\<^verbatim>\<open>txContainer& r = c.put_child(n); ...\<close>, the body working through the reference.\<close>

definition put_child_then ::
  "string \<Rightarrow> (txContainer \<Rightarrow> txContainer) \<Rightarrow> txContainer \<Rightarrow> txContainer" where
  "put_child_then n g c = (let (c', i) = put_child n c in at_child i g c')"

primrec clone_item :: "txItem \<Rightarrow> txItem" and clone :: "txContainer \<Rightarrow> txContainer" where
  "clone_item (ItemField f) = ItemField (TxField (field_name f) (field_value f))"
| "clone_item (ItemCont c) = ItemCont (clone c)"
| "clone (TxContainer nm its fm cm) = fold add_internally (map clone_item its) (new_container nm)"

definition copy_container :: "txContainer \<Rightarrow> txContainer" where
  "copy_container rhs =
     fold add_internally (map clone_item (m_items rhs)) (new_container (cont_name rhs))"

definition clear_container :: "txContainer \<Rightarrow> txContainer" where
  "clear_container c = TxContainer (cont_name c) [] [] []"

definition assign_container :: "txContainer \<Rightarrow> txContainer \<Rightarrow> txContainer" where
  "assign_container rhs c =
     fold add_internally (map clone_item (m_items rhs))
       (set_cont_name (cont_name rhs) (clear_container c))"

definition put_child_copy :: "txContainer \<Rightarrow> txContainer \<Rightarrow> txContainer \<times> nat" where
  "put_child_copy src c =
     (case child_ptr c (cont_name src) of
        Some i \<Rightarrow> (at_child i (assign_container src) c, i)
      | None \<Rightarrow> (add_internally (ItemCont (copy_container src)) c, length (m_items c)))"

text \<open>
  \<^verbatim>\<open>remove\<close> erases the map entry and then reads the erased entry through its iterator to
  find the item in the list, an access to a dead object.
\<close>

definition remove_item :: "string \<Rightarrow> txContainer \<Rightarrow> txContainer res" where
  "remove_item n c =
     (if field_ptr c n \<noteq> None then Inl (UndefinedAccess ''erased field iterator'')
      else if child_ptr c n \<noteq> None then Inl (UndefinedAccess ''erased child iterator'')
      else Inr c)"

fun merge :: "txContainer \<Rightarrow> txContainer \<Rightarrow> txContainer"
and merge_items :: "txItem list \<Rightarrow> txContainer \<Rightarrow> txContainer" where
  "merge (TxContainer nm its fm cm) c = merge_items its c"
| "merge_items [] c = c"
| "merge_items (ItemCont s # its) c =
     merge_items its
       (case child_ptr c (cont_name s) of
          Some i \<Rightarrow> at_child i (\<lambda>d. merge s d) c
        | None \<Rightarrow> fst (put_child_copy s c))"
| "merge_items (ItemField f # its) c =
     merge_items its (put_field (field_name f) (field_value f) c)"

definition check_field :: "txContainer \<Rightarrow> string \<Rightarrow> string \<Rightarrow> bool" where
  "check_field c n v = (case find_field c n of None \<Rightarrow> False | Some f \<Rightarrow> field_value f = v)"

section \<open>Qualified names\<close>

text \<open>
  \<open>buid_tree qn k c\<close> creates the containers of the path and runs the caller's action
  \<open>k\<close> on the last name and the container found there.
\<close>

fun buid_tree ::
  "string list \<Rightarrow> (string \<Rightarrow> txContainer \<Rightarrow> txContainer) \<Rightarrow> txContainer \<Rightarrow> txContainer" where
  "buid_tree [] k c = k '''' c"
| "buid_tree [n] k c = k n c"
| "buid_tree (n # m # ns) k c = put_child_then n (buid_tree (m # ns) k) c"

fun find_tree_const :: "txContainer \<Rightarrow> string list \<Rightarrow> (txContainer \<times> string) option" where
  "find_tree_const c [] = Some (c, '''')"
| "find_tree_const c [n] = Some (c, n)"
| "find_tree_const c (n # m # ns) =
     (case find_child c n of None \<Rightarrow> None | Some d \<Rightarrow> find_tree_const d (m # ns))"

definition put_field_q :: "string list \<Rightarrow> string \<Rightarrow> txContainer \<Rightarrow> txContainer" where
  "put_field_q qn v = buid_tree qn (\<lambda>n. put_field n v)"

definition put_child_q :: "string list \<Rightarrow> (txContainer \<Rightarrow> txContainer) \<Rightarrow> txContainer \<Rightarrow> txContainer"
  where "put_child_q qn g = buid_tree qn (\<lambda>n. put_child_then n g)"

definition find_field_q :: "txContainer \<Rightarrow> string list \<Rightarrow> txField option" where
  "find_field_q c qn =
     (case find_tree_const c qn of None \<Rightarrow> None | Some (d, n) \<Rightarrow> find_field d n)"

definition find_child_q :: "txContainer \<Rightarrow> string list \<Rightarrow> txContainer option" where
  "find_child_q c qn =
     (case find_tree_const c qn of None \<Rightarrow> None | Some (d, n) \<Rightarrow> find_child d n)"

definition check_field_q :: "txContainer \<Rightarrow> string list \<Rightarrow> string \<Rightarrow> bool" where
  "check_field_q c qn v =
     (case find_field_q c qn of None \<Rightarrow> False | Some f \<Rightarrow> field_value f = v)"

fun qname_to_string :: "string list \<Rightarrow> string" where
  "qname_to_string [] = ''''"
| "qname_to_string [n] = n"
| "qname_to_string (n # m # ns) = n @ CHR ''.'' # qname_to_string (m # ns)"

end
