(* ===== verification/Sam_Buffer.thy ===== *)
theory Sam_Buffer
  imports Exio_Prelude "HOL-Library.Word"
begin

text \<open>
  The encoding buffer (\<^verbatim>\<open>libexio/exio/SamBuffer.h\<close>, \<^verbatim>\<open>libexio/SamBuffer.cc\<close>).  The
  abstract class \<^verbatim>\<open>SamBuffer\<close> is the locale \<open>sam_buffer\<close>: what the encoder may rely on is
  that a successful append extends the message by the bytes appended, and that an append
  succeeds while the buffer has room.  \<^verbatim>\<open>DynamicSamBuffer\<close> is the record below and the
  locale's interpretation.  \<^verbatim>\<open>size_t\<close> arithmetic that can wrap is written modulo
  \<open>2 ^ 64\<close>; the memory allocator is the parameter \<open>lim\<close>, the largest block it grants.
\<close>

section \<open>The interface\<close>

locale sam_buffer =
  fixes append_str :: "string \<Rightarrow> 'b \<Rightarrow> 'b res"
    and append_char :: "char \<Rightarrow> 'b \<Rightarrow> 'b res"
    and data :: "'b \<Rightarrow> string"
    and inv :: "'b \<Rightarrow> bool"
    and cap :: nat
  assumes str_ok: "inv b \<Longrightarrow> append_str s b = Inr b' \<Longrightarrow> inv b' \<and> data b' = data b @ s"
    and char_ok: "inv b \<Longrightarrow> append_char c b = Inr b' \<Longrightarrow> inv b' \<and> data b' = data b @ [c]"
    and str_room: "inv b \<Longrightarrow> length (data b) + length s \<le> cap \<Longrightarrow> \<exists>b'. append_str s b = Inr b'"
    and char_room: "inv b \<Longrightarrow> length (data b) + 1 \<le> cap \<Longrightarrow> \<exists>b'. append_char c b = Inr b'"
begin

text \<open>An operation that appends the bytes \<open>w\<close>, and succeeds while there is room for them.\<close>

definition writes :: "('b \<Rightarrow> 'b res) \<Rightarrow> string \<Rightarrow> bool" where
  "writes f w \<longleftrightarrow> (\<forall>b. inv b \<longrightarrow>
     (\<forall>b'. f b = Inr b' \<longrightarrow> inv b' \<and> data b' = data b @ w) \<and>
     (length (data b) + length w \<le> cap \<longrightarrow> (\<exists>b'. f b = Inr b')))"

lemma writes_str: "writes (append_str s) s"
  using str_ok str_room by (auto simp: writes_def)

lemma writes_char: "writes (append_char c) [c]"
  using char_ok char_room by (auto simp: writes_def)

lemma writes_nothing: "writes Inr []"
  by (auto simp: writes_def)

lemma writes_step:
  "writes f w \<Longrightarrow> inv b \<Longrightarrow> f b = Inr b' \<Longrightarrow> inv b' \<and> data b' = data b @ w"
  by (simp add: writes_def)

lemma writes_result:
  "writes f w \<Longrightarrow> inv b \<Longrightarrow> length (data b) + length w \<le> cap \<Longrightarrow>
   \<exists>b'. f b = Inr b' \<and> inv b' \<and> data b' = data b @ w"
  unfolding writes_def by blast

lemma writes_seq:
  assumes f: "writes f u" and g: "writes g v"
  shows "writes (\<lambda>b. bindR (f b) g) (u @ v)"
  unfolding writes_def
proof (intro allI impI conjI)
  fix b b'
  assume b: "inv b" and r: "bindR (f b) g = Inr b'"
  obtain b1 where b1: "f b = Inr b1" "g b1 = Inr b'"
    using r by auto
  show "inv b'" "data b' = data b @ u @ v"
    using writes_step [OF f b b1(1)] writes_step [OF g _ b1(2)] by auto
next
  fix b
  assume b: "inv b" and room: "length (data b) + length (u @ v) \<le> cap"
  obtain b1 where b1: "f b = Inr b1" "inv b1" "data b1 = data b @ u"
    using writes_result [OF f b] room by auto
  then show "\<exists>b'. bindR (f b) g = Inr b'"
    using writes_result [OF g b1(2)] room by auto
qed

lemma writes_cong: "writes f u \<Longrightarrow> f = g \<Longrightarrow> u = v \<Longrightarrow> writes g v"
  by simp

end

section \<open>DynamicSamBuffer\<close>

record DynamicSamBuffer =
  m_buf :: string
  m_msg_start :: nat
  m_wptr :: nat

abbreviation RESERVE_FOR_SAM_HEADER :: nat where
  "RESERVE_FOR_SAM_HEADER \<equiv> 100"

definition new_DynamicSamBuffer :: "nat \<Rightarrow> DynamicSamBuffer" where
  "new_DynamicSamBuffer reserve =
     (let reserve = (if reserve < RESERVE_FOR_SAM_HEADER then reserve + RESERVE_FOR_SAM_HEADER
                     else reserve)
      in \<lparr>m_buf = replicate reserve (CHR 0x00), m_msg_start = RESERVE_FOR_SAM_HEADER,
          m_wptr = RESERVE_FOR_SAM_HEADER\<rparr>)"

definition grown_size :: "nat \<Rightarrow> nat \<Rightarrow> nat \<Rightarrow> nat" where
  "grown_size sz n remain = max ((sz + n - remain) mod 2 ^ 64) ((2 * sz) mod 2 ^ 64)"

definition check_space :: "nat \<Rightarrow> nat \<Rightarrow> DynamicSamBuffer \<Rightarrow> DynamicSamBuffer res" where
  "check_space lim n b =
     (let sz = length (m_buf b); remain = sz - m_wptr b in
      if n > remain then
        let newsize = grown_size sz n remain in
        if newsize < sz then Inl (RuntimeError ''failed to resize encoding buffer'')
        else if newsize > lim then Inl BadAlloc
        else Inr (b\<lparr>m_buf := m_buf b @ replicate (newsize - sz) (CHR 0x00)\<rparr>)
      else Inr b)"

text \<open>\<^verbatim>\<open>memcpy\<close> into the vector, undefined when it would leave the vector.\<close>

definition blit :: "nat \<Rightarrow> string \<Rightarrow> string \<Rightarrow> string res" where
  "blit i s buf =
     (if i + length s \<le> length buf then Inr (take i buf @ s @ drop (i + length s) buf)
      else Inl (UndefinedAccess ''write outside the encoding buffer''))"

definition append_str :: "nat \<Rightarrow> string \<Rightarrow> DynamicSamBuffer \<Rightarrow> DynamicSamBuffer res" where
  "append_str lim src b =
     bindR (check_space lim (length src) b) (\<lambda>b.
     bindR (blit (m_wptr b) src (m_buf b)) (\<lambda>buf.
     Inr (b\<lparr>m_buf := buf, m_wptr := m_wptr b + length src\<rparr>)))"

definition append_char :: "nat \<Rightarrow> char \<Rightarrow> DynamicSamBuffer \<Rightarrow> DynamicSamBuffer res" where
  "append_char lim src b =
     bindR (check_space lim 1 b) (\<lambda>b.
     bindR (blit (m_wptr b) [src] (m_buf b)) (\<lambda>buf.
     Inr (b\<lparr>m_buf := buf, m_wptr := m_wptr b + 1\<rparr>)))"

definition msg_size :: "DynamicSamBuffer \<Rightarrow> nat" where
  "msg_size b = m_wptr b - m_msg_start b"

definition msg_start :: "DynamicSamBuffer \<Rightarrow> string" where
  "msg_start b = drop (m_msg_start b) (m_buf b)"

text \<open>The message a caller reads: \<^verbatim>\<open>msg_size()\<close> bytes from \<^verbatim>\<open>msg_start()\<close>.\<close>

definition msg_bytes :: "DynamicSamBuffer \<Rightarrow> string" where
  "msg_bytes b = take (msg_size b) (msg_start b)"

function count_digits :: "32 word \<Rightarrow> nat" where
  "count_digits i = (if i div 10 = 0 then 1 else 1 + count_digits (i div 10))"
  by pat_completeness auto
termination
proof (relation "measure unat")
  fix i :: "32 word"
  assume "i div 10 \<noteq> 0"
  then have "unat (i div 10) \<noteq> 0"
    by (simp add: unat_eq_zero)
  then show "(i div 10, i) \<in> measure unat"
    by (simp add: unat_div)
qed simp

declare count_digits.simps [simp del]

abbreviation MAX_MSG_LEN :: nat where
  "MAX_MSG_LEN \<equiv> 99999"

abbreviation SAM0100 :: string where
  "SAM0100 \<equiv> ''SAM0100''"

abbreviation SAM0101 :: string where
  "SAM0101 \<equiv> ''SAM0101''"

text \<open>
  The header is written into the reserve in front of the message.  The number of digits of
  the total length is found first, from the length without them; \<open>count_digits\<close> takes an
  \<^verbatim>\<open>unsigned int\<close>, so its argument is cut to 32 bits.
\<close>

definition header_len :: "nat \<Rightarrow> nat \<times> nat" where
  "header_len sz =
     (let partlen = sz + 9;
          msglen_strlen = count_digits (of_nat partlen);
          msglen_full = partlen + msglen_strlen
      in if count_digits (of_nat msglen_full) > msglen_strlen
         then (msglen_strlen + 1, msglen_full + 1)
         else (msglen_strlen, msglen_full))"

definition encode_header :: "DynamicSamBuffer \<Rightarrow> DynamicSamBuffer res" where
  "encode_header b =
     (let (msglen_strlen, msglen_full) = header_len (msg_size b);
          headlen = 9 + msglen_strlen;
          p_orig = m_msg_start b - headlen;
          lenbuf = dec msglen_full
      in if m_msg_start b < headlen
         then Inl (UndefinedAccess ''header outside the reserve'')
         else
           bindR (blit p_orig
                    (CHR ''{'' # SAM0101 @ CHR '':'' #
                     take msglen_strlen (lenbuf @ replicate 99 (CHR 0x00))) (m_buf b)) (\<lambda>buf.
           if length lenbuf \<noteq> msglen_strlen
           then Inl (RuntimeError ''SAM0101 encoding failed; msglen_string not of expected length'')
           else if 9 + length lenbuf \<noteq> headlen
           then Inl (RuntimeError
                  ''SAM0101 encoding failed; generated headlen is not of expected size'')
           else
             bindR (if msglen_full \<le> MAX_MSG_LEN \<and> length lenbuf \<le> 5
                    then blit (p_orig + 1) SAM0100 buf else Inr buf) (\<lambda>buf.
             Inr (b\<lparr>m_buf := buf, m_msg_start := p_orig\<rparr>))))"

section \<open>Appending\<close>

text \<open>The pointers stay in order and inside the vector, and the vector at most doubles.\<close>

definition dyn_inv :: "DynamicSamBuffer \<Rightarrow> bool" where
  "dyn_inv b \<longleftrightarrow> m_msg_start b \<le> m_wptr b \<and> m_wptr b \<le> length (m_buf b) \<and>
     m_msg_start b \<le> RESERVE_FOR_SAM_HEADER"

text \<open>Before \<open>encode_header\<close> runs the whole reserve is still free.\<close>

definition dyn_open :: "DynamicSamBuffer \<Rightarrow> bool" where
  "dyn_open b \<longleftrightarrow> dyn_inv b \<and> m_msg_start b = RESERVE_FOR_SAM_HEADER"

lemma dyn_open_new: "dyn_open (new_DynamicSamBuffer r)"
  by (simp add: dyn_open_def dyn_inv_def new_DynamicSamBuffer_def Let_def)

lemma msg_bytes_new [simp]: "msg_bytes (new_DynamicSamBuffer r) = []"
  by (simp add: msg_bytes_def msg_size_def new_DynamicSamBuffer_def Let_def)

lemma msg_size_new [simp]: "msg_size (new_DynamicSamBuffer r) = 0"
  by (simp add: msg_size_def new_DynamicSamBuffer_def Let_def)

lemma length_msg_bytes: "dyn_inv b \<Longrightarrow> length (msg_bytes b) = msg_size b"
  by (auto simp: msg_bytes_def msg_start_def msg_size_def dyn_inv_def)

lemma check_space_grows:
  "check_space lim n b = Inr b' \<Longrightarrow> \<exists>k. b' = b\<lparr>m_buf := m_buf b @ replicate k (CHR 0x00)\<rparr>"
  by (auto simp only: check_space_def Let_def sum.inject sum.distinct split: if_splits)
    (metis DynamicSamBuffer.surjective DynamicSamBuffer.update_convs(1) append_Nil2 replicate_0)

lemma check_space_ok:
  assumes "dyn_inv b" "check_space lim n b = Inr b'"
  shows "dyn_inv b'" "msg_bytes b' = msg_bytes b" "m_wptr b' = m_wptr b" "m_msg_start b' = m_msg_start b"
  using assms(1) check_space_grows [OF assms(2)]
  by (auto simp: dyn_inv_def msg_bytes_def msg_start_def msg_size_def)

lemma take_blit:
  assumes "i \<le> w" "w \<le> length buf"
  shows "take (w + length s - i) (drop i (take w buf @ s @ xs)) = take (w - i) (drop i buf) @ s"
proof -
  have "drop i (take w buf @ s @ xs) = take (w - i) (drop i buf) @ s @ xs"
    using assms by (simp add: drop_take)
  moreover have "length (take (w - i) (drop i buf)) = w - i"
    using assms by simp
  moreover have "w + length s - i = (w - i) + length s"
    using assms(1) by simp
  ultimately show ?thesis
    by simp
qed

lemma append_str_ok:
  assumes "dyn_inv b" "append_str lim s b = Inr b'"
  shows "dyn_inv b' \<and> msg_bytes b' = msg_bytes b @ s \<and> m_msg_start b' = m_msg_start b"
proof -
  obtain b1 where b1: "check_space lim (length s) b = Inr b1"
    using assms(2) by (auto simp: append_str_def)
  note c = check_space_ok [OF assms(1) b1]
  have fit: "m_wptr b1 + length s \<le> length (m_buf b1)"
    and b': "b' = b1\<lparr>m_buf := take (m_wptr b1) (m_buf b1) @ s @ drop (m_wptr b1 + length s) (m_buf b1),
      m_wptr := m_wptr b1 + length s\<rparr>"
    using assms(2) b1 by (auto simp: append_str_def blit_def split: if_splits)
  have "msg_bytes b' = msg_bytes b1 @ s"
    using c(1) take_blit [of "m_msg_start b1" "m_wptr b1" "m_buf b1" s]
    by (simp add: b' msg_bytes_def msg_start_def msg_size_def dyn_inv_def del: take_append drop_append)
  moreover have "dyn_inv b'"
    using c(1) fit by (simp add: b' dyn_inv_def)
  moreover have "m_msg_start b' = m_msg_start b"
    using c(4) by (simp add: b')
  ultimately show ?thesis
    using c(2) by simp
qed

lemma append_char_str: "append_char lim c b = append_str lim [c] b"
  by (simp add: append_char_def append_str_def)

lemma check_space_room:
  assumes "dyn_inv b" "2 * (RESERVE_FOR_SAM_HEADER + msg_size b + n) \<le> min lim (2 ^ 63)"
  shows "\<exists>b'. check_space lim n b = Inr b' \<and> m_wptr b' + n \<le> length (m_buf b')"
proof (cases "n > length (m_buf b) - m_wptr b")
  case False
  then show ?thesis
    using assms(1) by (auto simp: check_space_def dyn_inv_def)
next
  case True
  let ?size = "length (m_buf b)"
  have w: "m_wptr b \<le> ?size" "m_wptr b + n \<le> RESERVE_FOR_SAM_HEADER + msg_size b + n"
    using assms(1) by (auto simp: dyn_inv_def msg_size_def)
  then have big: "?size + n - (?size - m_wptr b) = m_wptr b + n" "?size < m_wptr b + n"
    using True by auto
  then have "(m_wptr b + n) mod 2 ^ 64 = m_wptr b + n" "(2 * ?size) mod 2 ^ 64 = 2 * ?size"
    using assms(2) w by (auto intro!: mod_less)
  then show ?thesis
    using True assms(2) big w by (simp add: check_space_def grown_size_def Let_def max_def)
qed

lemma append_str_room:
  assumes "dyn_inv b" "2 * (RESERVE_FOR_SAM_HEADER + msg_size b + length s) \<le> min lim (2 ^ 63)"
  shows "\<exists>b'. append_str lim s b = Inr b'"
  using check_space_room [OF assms] by (auto simp: append_str_def blit_def)

lemma check_space_size:
  assumes "check_space lim n b = Inr b'" "m_wptr b \<le> length (m_buf b)"
  shows "length (m_buf b') = length (m_buf b) \<or> length (m_buf b') \<le> 2 * (m_wptr b + n)"
proof (cases "n > length (m_buf b) - m_wptr b")
  case True
  let ?new = "grown_size (length (m_buf b)) n (length (m_buf b) - m_wptr b)"
  have "?new \<le> max (length (m_buf b) + n - (length (m_buf b) - m_wptr b)) (2 * length (m_buf b))"
    unfolding grown_size_def by (intro max.mono) simp_all
  also have "\<dots> \<le> 2 * (m_wptr b + n)"
    using True assms(2) by (intro max.boundedI) simp_all
  finally have "?new \<le> 2 * (m_wptr b + n)" .
  moreover have "length (m_buf b') = ?new"
    using assms(1) True by (auto simp: check_space_def Let_def split: if_splits)
  ultimately show ?thesis by simp
qed (use assms in \<open>auto simp: check_space_def\<close>)

lemma append_str_size:
  assumes "append_str lim s b = Inr b'" "dyn_inv b"
  shows "length (m_buf b') = length (m_buf b) \<or> length (m_buf b') \<le> 2 * m_wptr b'"
proof -
  obtain b1 where b1: "check_space lim (length s) b = Inr b1"
    using assms(1) by (auto simp: append_str_def)
  have "length (m_buf b') = length (m_buf b1)" "m_wptr b' = m_wptr b + length s"
    using assms(1) b1 check_space_ok(3) [OF assms(2) b1]
    by (auto simp: append_str_def blit_def split: if_splits)
  then show ?thesis
    using check_space_size [OF b1] assms(2) by (simp add: dyn_inv_def)
qed

text \<open>The largest message the allocator is sure to accommodate.\<close>

definition dyn_cap :: "nat \<Rightarrow> nat" where
  "dyn_cap lim = min lim (2 ^ 63) div 2 - RESERVE_FOR_SAM_HEADER"

lemma dyn_cap_room:
  "0 < n \<Longrightarrow> n \<le> dyn_cap lim \<Longrightarrow> 2 * (RESERVE_FOR_SAM_HEADER + n) \<le> min lim (2 ^ 63)"
proof -
  assume n: "0 < n" "n \<le> dyn_cap lim"
  define m where "m = min lim (2 ^ 63 :: nat)"
  have "n \<le> m div 2 - RESERVE_FOR_SAM_HEADER"
    using n by (simp add: m_def dyn_cap_def)
  then have "2 * (RESERVE_FOR_SAM_HEADER + n) \<le> m"
    using n(1) by arith
  then show ?thesis by (simp only: m_def)
qed

interpretation dyn: sam_buffer "append_str lim" "append_char lim" msg_bytes dyn_open "dyn_cap lim" for lim
proof unfold_locales
  show "\<exists>b'. append_str lim s b = Inr b'"
    if "dyn_open b" "length (msg_bytes b) + length s \<le> dyn_cap lim" for s b
  proof (cases "length (msg_bytes b) + length s")
    case 0
    with that show ?thesis
      by (auto simp: append_str_def check_space_def blit_def dyn_inv_def dyn_open_def)
  next
    case (Suc n)
    with that have "2 * (RESERVE_FOR_SAM_HEADER + (msg_size b + length s)) \<le> min lim (2 ^ 63)"
      by (intro dyn_cap_room) (auto simp: length_msg_bytes dyn_open_def)
    then show ?thesis
      using that by (intro append_str_room) (auto simp: add.assoc dyn_open_def)
  qed
  then show "\<exists>b'. append_char lim c b = Inr b'"
    if "dyn_open b" "length (msg_bytes b) + 1 \<le> dyn_cap lim" for c b
    using that by (simp add: append_char_str)
qed (use append_str_ok in \<open>auto simp: append_char_str dyn_open_def\<close>)

section \<open>The header\<close>

lemma count_digits_dec: "count_digits i = length (dec (unat i))"
proof (induction i rule: count_digits.induct)
  case (1 i)
  have u: "unat (i div 10) = unat i div 10"
    by (simp add: unat_div)
  then have z: "i div 10 = 0 \<longleftrightarrow> unat i < 10"
    by (simp add: unat_eq_zero [symmetric] div_eq_0_iff)
  show ?case
  proof (cases "i div 10 = 0")
    case True
    with z show ?thesis by (simp add: count_digits.simps dec.simps)
  next
    case False
    with 1 z u show ?thesis by (simp add: count_digits.simps [of i] dec.simps [of "unat i"])
  qed
qed

lemma count_digits_pos: "0 < count_digits i"
  by (simp add: count_digits_dec)

lemma count_digits_small: "n < 2 ^ 32 \<Longrightarrow> count_digits (of_nat n) = length (dec n)"
  by (simp add: count_digits_dec unsigned_of_nat take_bit_nat_eq_self)

text \<open>
  The length announced in the header is the length of the whole message, and its digits take
  the room that was set aside for them.
\<close>

lemma header_len_ok:
  assumes "header_len sz = (k, L)" "sz + 30 < 2 ^ 32"
  shows "L = sz + 9 + k" "length (dec L) = k" "k \<le> 10"
proof -
  let ?p = "sz + 9" and ?k = "length (dec (sz + 9))"
  have k10: "?k \<le> 10"
    using length_dec_le [of ?p 9] assms(2) by simp
  have h: "header_len sz =
      (if length (dec (?p + ?k)) > ?k then (?k + 1, ?p + ?k + 1) else (?k, ?p + ?k))"
    using k10 count_digits_small [of ?p] count_digits_small [of "?p + ?k"] assms(2)
    by (simp add: header_len_def Let_def del: of_nat_add)
  have up: "length (dec (?p + ?k + 1)) \<le> ?k + 1"
    using length_dec_add [of ?p] by simp
  have lo: "?k \<le> length (dec (?p + ?k))" "length (dec (?p + ?k)) \<le> length (dec (?p + ?k + 1))"
    by (simp_all add: length_dec_mono)
  show L: "L = sz + 9 + k"
    using assms(1) h by (auto split: if_splits)
  show "length (dec L) = k"
    using assms(1) h up lo by (auto split: if_splits)
  then show "k \<le> 10"
    using length_dec_le [of L 9] assms h k10 by (auto split: if_splits)
qed

lemma header_len_five: "header_len sz = (k, L) \<Longrightarrow> sz + 14 \<le> MAX_MSG_LEN \<Longrightarrow> k \<le> 5"
proof -
  assume h: "header_len sz = (k, L)" and sz: "sz + 14 \<le> MAX_MSG_LEN"
  have "length (dec (sz + 9)) \<le> 5"
    using length_dec_le [of "sz + 9" 4] sz by simp
  moreover from this have "length (dec (sz + 9 + length (dec (sz + 9)))) \<le> 5"
    using length_dec_le [of "sz + 9 + length (dec (sz + 9))" 4] sz by simp
  ultimately show ?thesis
    using h sz count_digits_small [of "sz + 9"] count_digits_small [of "sz + 9 + length (dec (sz + 9))"]
    by (auto simp: header_len_def Let_def simp del: of_nat_add split: if_splits)
qed

definition sam_header :: "nat \<Rightarrow> string" where
  "sam_header L = CHR ''{'' # (if L \<le> MAX_MSG_LEN then SAM0100 else SAM0101) @ CHR '':'' # dec L"

lemma length_sam_header: "length (sam_header L) = 9 + length (dec L)"
  by (simp add: sam_header_def)

lemma encode_header_ok:
  assumes "dyn_open b" and small: "msg_size b + 30 < 2 ^ 32"
    and L: "header_len (msg_size b) = (k, L)"
  obtains b' where "encode_header b = Inr b'" "dyn_inv b'"
    "msg_bytes b' = sam_header L @ msg_bytes b"
proof -
  have b: "dyn_inv b" "19 \<le> m_msg_start b"
    using assms(1) by (auto simp: dyn_open_def)
  note h = header_len_ok [OF L small]
  let ?p = "m_msg_start b - (9 + k)"
  let ?pre = "take ?p (m_buf b)" and ?post = "drop (m_msg_start b) (m_buf b)"
  have len: "length (CHR ''{'' # SAM0101 @ CHR '':'' # dec L) = 9 + k" "length ?pre = ?p"
    "?p + (9 + k) = m_msg_start b" "m_msg_start b \<le> length (m_buf b)"
    using b h by (auto simp: dyn_inv_def)
  have five: "length (dec L) \<le> 5" if "L \<le> MAX_MSG_LEN"
    using length_dec_le [of L 4] that by simp
  have 1: "blit ?p (CHR ''{'' # SAM0101 @ CHR '':'' # dec L) (m_buf b) =
      Inr (?pre @ (CHR ''{'' # SAM0101 @ CHR '':'' # dec L) @ ?post)"
    using len by (simp only: blit_def) simp
  have 2: "blit (?p + 1) SAM0100 (?pre @ (CHR ''{'' # SAM0101 @ CHR '':'' # dec L) @ ?post) =
      Inr (?pre @ (CHR ''{'' # SAM0100 @ CHR '':'' # dec L) @ ?post)"
    using len(2) by (simp add: blit_def)
  have e: "encode_header b = Inr (b\<lparr>m_buf := ?pre @ sam_header L @ ?post, m_msg_start := ?p\<rparr>)"
    using L b h len 1 2 five by (auto simp: encode_header_def sam_header_def Let_def)
  have l: "length (sam_header L) = 9 + k"
    using h by (simp add: length_sam_header)
  have "dyn_inv (b\<lparr>m_buf := ?pre @ sam_header L @ ?post, m_msg_start := ?p\<rparr>)"
    using b len l by (auto simp: dyn_inv_def)
  moreover have "msg_bytes (b\<lparr>m_buf := ?pre @ sam_header L @ ?post, m_msg_start := ?p\<rparr>) =
      sam_header L @ msg_bytes b"
    using b len l by (auto simp: msg_bytes_def msg_start_def msg_size_def dyn_inv_def)
  ultimately show thesis
    using that e by blast
qed

end
