(* ===== verification/Sam_Protocol.thy ===== *)
theory Sam_Protocol
  imports Sam_Container Sam_Buffer
begin

text \<open>
  The SAM wire protocol (\<^verbatim>\<open>class SAMProtocol\<close> of \<^verbatim>\<open>libexio/sam.cc\<close>): the encoder over
  an abstract \<^verbatim>\<open>SamBuffer\<close>, the size calculation, and the decoder over a byte array.
  Pointers into the array are positions; \<^verbatim>\<open>end\<close> is a position too.  The only place where the
  decoder may read at \<^verbatim>\<open>end\<close> itself is modelled as a checked access.  A message is its root
  container: \<^verbatim>\<open>txMessage::type()\<close> is the root's name.
\<close>

section \<open>Protocol constants\<close>

abbreviation MSG_START :: char where "MSG_START \<equiv> CHR ''{''"
abbreviation MSG_END :: char where "MSG_END \<equiv> CHR ''}''"
abbreviation MSG_DELIM :: char where "MSG_DELIM \<equiv> CHR 0x0A"
abbreviation SEQ_START :: char where "SEQ_START \<equiv> CHR ''[''"
abbreviation SEQ_END :: char where "SEQ_END \<equiv> CHR '']''"
abbreviation FIELD_DELIM :: char where "FIELD_DELIM \<equiv> CHR '',''"
abbreviation VALUE_DELIM :: char where "VALUE_DELIM \<equiv> CHR ''=''"
abbreviation META_DELIM :: char where "META_DELIM \<equiv> CHR '':''"
abbreviation ESCAPE :: char where "ESCAPE \<equiv> CHR 0x5C"

definition SPECIAL_CHARS :: string where
  "SPECIAL_CHARS = [CHR ''{'', CHR ''}'', CHR 0x0A, CHR ''['', CHR '']'', CHR '','', CHR ''='',
     CHR '':'', CHR 0x5C]"

definition isSpecialChar :: "char \<Rightarrow> bool" where
  "isSpecialChar c \<longleftrightarrow> c = MSG_START \<or> c = MSG_END \<or> c = MSG_DELIM \<or> c = SEQ_START \<or>
     c = SEQ_END \<or> c = FIELD_DELIM \<or> c = VALUE_DELIM \<or> c = META_DELIM \<or> c = ESCAPE"

definition fromBool :: "bool \<Rightarrow> string" where
  "fromBool b = (if b then ''true'' else ''false'')"

definition toBool :: "string \<Rightarrow> bool" where
  "toBool b \<longleftrightarrow> b = ''true'' \<or> b = ''TRUE''"

section \<open>Encoding\<close>

text \<open>\<^verbatim>\<open>strcspn\<close> of the string's characters: it stops at a NUL as well.\<close>

definition strcspn :: "string \<Rightarrow> string \<Rightarrow> nat" where
  "strcspn s reject = length (takeWhile (\<lambda>c. c \<noteq> CHR 0x00 \<and> c \<notin> set reject) s)"

text \<open>
  The encoder's parameters \<open>apps\<close> and \<open>appc\<close> are the two virtual \<^verbatim>\<open>append\<close> methods of
  \<^verbatim>\<open>SamBuffer\<close>.
\<close>

fun write_escaped :: "(char \<Rightarrow> 'b \<Rightarrow> 'b res) \<Rightarrow> string \<Rightarrow> 'b \<Rightarrow> 'b res" where
  "write_escaped appc [] b = Inr b"
| "write_escaped appc (c # cs) b =
     bindR (if isSpecialChar c then appc ESCAPE b else Inr b) (\<lambda>b.
     bindR (appc c b) (write_escaped appc cs))"

definition write_str ::
  "(string \<Rightarrow> 'b \<Rightarrow> 'b res) \<Rightarrow> (char \<Rightarrow> 'b \<Rightarrow> 'b res) \<Rightarrow> string \<Rightarrow> 'b \<Rightarrow> 'b res" where
  "write_str apps appc str b =
     (let len = length str; accept = strcspn str SPECIAL_CHARS in
      if accept = len then apps str b
      else bindR (apps (take accept str) b) (write_escaped appc (drop accept str)))"

fun write_escaped_calc :: "string \<Rightarrow> nat \<Rightarrow> nat" where
  "write_escaped_calc [] n = n"
| "write_escaped_calc (c # cs) n =
     write_escaped_calc cs ((if isSpecialChar c then n + 1 else n) + 1)"

definition write_str_calc :: "string \<Rightarrow> nat \<Rightarrow> nat" where
  "write_str_calc str n =
     (let len = length str; accept = strcspn str SPECIAL_CHARS in
      if accept = len then n + len else write_escaped_calc (drop accept str) (n + accept))"

fun encode_contents ::
  "(string \<Rightarrow> 'b \<Rightarrow> 'b res) \<Rightarrow> (char \<Rightarrow> 'b \<Rightarrow> 'b res) \<Rightarrow> txContainer \<Rightarrow> 'b \<Rightarrow> 'b res"
and encode_items ::
  "(string \<Rightarrow> 'b \<Rightarrow> 'b res) \<Rightarrow> (char \<Rightarrow> 'b \<Rightarrow> 'b res) \<Rightarrow> txItem list \<Rightarrow> 'b \<Rightarrow> 'b res" where
  "encode_contents apps appc (TxContainer nm its fm cm) b =
     bindR (appc SEQ_START b) (\<lambda>b.
     bindR (encode_items apps appc its b) (appc SEQ_END))"
| "encode_items apps appc [] b = Inr b"
| "encode_items apps appc (ItemCont c # its) b =
     bindR (apps (cont_name c) b) (\<lambda>b.
     bindR (appc VALUE_DELIM b) (\<lambda>b.
     bindR (encode_contents apps appc c b) (\<lambda>b.
     bindR (appc FIELD_DELIM b) (encode_items apps appc its))))"
| "encode_items apps appc (ItemField f # its) b =
     bindR (apps (field_name f) b) (\<lambda>b.
     bindR (appc VALUE_DELIM b) (\<lambda>b.
     bindR (write_str apps appc (field_value f) b) (\<lambda>b.
     bindR (appc FIELD_DELIM b) (encode_items apps appc its))))"

text \<open>What \<^verbatim>\<open>encodeMsg\<close> writes before it asks the buffer for the header.\<close>

definition encode_body ::
  "(string \<Rightarrow> 'b \<Rightarrow> 'b res) \<Rightarrow> (char \<Rightarrow> 'b \<Rightarrow> 'b res) \<Rightarrow> txContainer \<Rightarrow> 'b \<Rightarrow> 'b res" where
  "encode_body apps appc msg b =
     bindR (appc META_DELIM b) (\<lambda>b.
     bindR (apps (cont_name msg) b) (\<lambda>b.
     bindR (appc META_DELIM b) (\<lambda>b.
     bindR (encode_contents apps appc msg b) (\<lambda>b.
     bindR (appc MSG_END b) (appc MSG_DELIM)))))"

definition encodeMsg ::
  "nat \<Rightarrow> txContainer \<Rightarrow> DynamicSamBuffer \<Rightarrow> (DynamicSamBuffer \<times> nat) res" where
  "encodeMsg lim msg sb =
     bindR (encode_body (append_str lim) (append_char lim) msg sb) (\<lambda>sb.
     bindR (encode_header sb) (\<lambda>sb. Inr (sb, msg_size sb)))"

fun encode_contents_calc :: "txContainer \<Rightarrow> nat \<Rightarrow> nat"
and encode_items_calc :: "txItem list \<Rightarrow> nat \<Rightarrow> nat" where
  "encode_contents_calc (TxContainer nm its fm cm) n = encode_items_calc its (n + 1) + 1"
| "encode_items_calc [] n = n"
| "encode_items_calc (ItemCont c # its) n =
     encode_items_calc its (encode_contents_calc c (n + length (cont_name c) + 1) + 1)"
| "encode_items_calc (ItemField f # its) n =
     encode_items_calc its (write_str_calc (field_value f) (n + length (field_name f) + 1) + 1)"

definition calc_encoded_size :: "txContainer \<Rightarrow> nat" where
  "calc_encoded_size msg =
     (let n = 0 + 1 + 7 + 1 + 5 + 1 + length (cont_name msg) + 1
      in encode_contents_calc msg n + 1 + 1)"

definition check_enc_size :: "txContainer \<Rightarrow> nat \<Rightarrow> bool" where
  "check_enc_size msg margin \<longleftrightarrow> calc_encoded_size msg + margin \<le> MAX_MSG_LEN"

section \<open>Decoding\<close>

text \<open>
  The loop that reads a name, a value or a message type up to a delimiter.  An escape as the
  last byte moves the position one past \<open>e\<close>.
\<close>

function scan_until :: "char \<Rightarrow> string \<Rightarrow> nat \<Rightarrow> nat \<Rightarrow> string \<Rightarrow> string \<times> nat" where
  "scan_until d bs e p acc =
     (if p < e \<and> bs ! p \<noteq> d then
        let p = (if bs ! p = ESCAPE then p + 1 else p)
        in scan_until d bs e (p + 1) (if p < e then acc @ [bs ! p] else acc)
      else (acc, p))"
  by pat_completeness auto
termination
  by (relation "measure (\<lambda>(d, bs, e, p, acc). e - p)") auto

declare scan_until.simps [simp del]

text \<open>The position never moves backwards, so every call works on less input.\<close>

lemma scan_until_stop: "\<not> (p < e \<and> bs ! p \<noteq> d) \<Longrightarrow> scan_until d bs e p acc = (acc, p)"
  by (subst scan_until.simps) (simp only: if_False)

lemma scan_until_char:
  "p < e \<Longrightarrow> bs ! p \<noteq> d \<Longrightarrow> bs ! p \<noteq> ESCAPE \<Longrightarrow>
   scan_until d bs e p acc = scan_until d bs e (p + 1) (acc @ [bs ! p])"
  by (subst scan_until.simps) (simp add: Let_def)

lemma scan_until_esc:
  "p < e \<Longrightarrow> bs ! p \<noteq> d \<Longrightarrow> bs ! p = ESCAPE \<Longrightarrow>
   scan_until d bs e p acc =
     scan_until d bs e (p + 2) (if p + 1 < e then acc @ [bs ! (p + 1)] else acc)"
  by (subst scan_until.simps) (simp add: Let_def)

lemma scan_until_ge: "p \<le> snd (scan_until d bs e p acc)"
proof (induction d bs e p acc rule: scan_until.induct)
  case (1 d bs e p acc)
  consider "\<not> (p < e \<and> bs ! p \<noteq> d)" | "p < e" "bs ! p \<noteq> d" "bs ! p = ESCAPE"
    | "p < e" "bs ! p \<noteq> d" "bs ! p \<noteq> ESCAPE"
    by blast
  then show ?case
  proof cases
    case 2
    then show ?thesis using 1 by (simp add: scan_until_esc del: if_split) (metis Suc_leD)
  next
    case 3
    then show ?thesis using 1 by (simp add: scan_until_char)
  qed (simp add: scan_until_stop)
qed

lemma scan_until_ge': "scan_until d bs e p acc = (s, q) \<Longrightarrow> p \<le> q"
  using scan_until_ge [of p d bs e acc] by simp

text \<open>The value of one field: the branch of the loop body after the delimiter.\<close>

definition decode_value ::
  "string \<Rightarrow> nat \<Rightarrow> (nat \<Rightarrow> txContainer \<Rightarrow> (nat \<times> txContainer) res) \<Rightarrow> string \<Rightarrow> nat \<Rightarrow> txContainer \<Rightarrow>
   (nat \<times> txContainer) res" where
  "decode_value bs e rec fieldname p parent =
     (case nth_opt bs p of
        None \<Rightarrow> Inl (UndefinedAccess ''read at the end of the input'')
      | Some ch \<Rightarrow>
          if ch = SEQ_START then
            let (parent', i) = put_child fieldname parent in
            case child_at parent' i of
              None \<Rightarrow> Inl (UndefinedAccess ''child pointer'')
            | Some subcont \<Rightarrow>
                bindR (rec (p + 1) subcont) (\<lambda>(p2, d). Inr (p2, at_child i (\<lambda>_. d) parent'))
          else
            let (val, p2) = scan_until FIELD_DELIM bs e p []
            in Inr (p2, put_field fieldname val parent))"

lemma decode_value_ge:
  assumes "decode_value bs e rec n p c = Inr (q, d)"
    and "\<And>p' c' q' d'. nth_opt bs p = Some SEQ_START \<Longrightarrow> child_at (fst (put_child n c)) (snd (put_child n c)) = Some c' \<Longrightarrow>
      rec (p + 1) c' = Inr (q', d') \<Longrightarrow> p \<le> q'"
  shows "p \<le> q"
  using assms
  by (auto simp: decode_value_def split: option.splits if_splits prod.splits dest: scan_until_ge')

lemma decode_value_cong [fundef_cong]:
  assumes "bs = bs'" "e = e'" "n = n'" "p = p'" "c = c'"
    and "\<And>s. nth_opt bs' p' = Some SEQ_START \<Longrightarrow>
      child_at (fst (put_child n' c')) (snd (put_child n' c')) = Some s \<Longrightarrow>
      rec (p' + 1) s = rec' (p' + 1) s"
  shows "decode_value bs e rec n p c = decode_value bs' e' rec' n' p' c'"
  using assms by (auto simp: decode_value_def split: option.splits prod.splits)

text \<open>
  \<^verbatim>\<open>decode\<close> after its first statement, which skips the opening bracket: \<open>p\<close> is the
  position after it.  The result is the position returned and the container filled.
\<close>

function decode_loop ::
  "string \<Rightarrow> nat \<Rightarrow> nat \<Rightarrow> txContainer \<Rightarrow> (nat \<times> txContainer) res" where
  "decode_loop bs e p parent =
     (if p < e then
        if bs ! p = SEQ_END then Inr (p + 1, parent)
        else
          let (fieldname, p1) = scan_until VALUE_DELIM bs e p [] in
          if p1 \<ge> e then Inl (RuntimeError ''ran out of data, expected field-value-delim'')
          else if bs ! p1 \<noteq> VALUE_DELIM
          then Inl (RuntimeError ''failed to find field-value-delim'')
          else
            bindR (decode_value bs e (decode_loop bs e) fieldname (p1 + 1) parent) (\<lambda>(p2, parent).
            if p2 \<ge> e
            then Inl (RuntimeError ''ran out of data when expecting field delim'')
            else if bs ! p2 \<noteq> FIELD_DELIM then Inl (RuntimeError ''expected field delim'')
            else decode_loop bs e (p2 + 1) parent)
      else Inr (p, parent))"
  by pat_completeness auto

lemma decode_loop_ge:
  "decode_loop_dom (bs, e, p, c) \<Longrightarrow> decode_loop bs e p c = Inr (q, d) \<Longrightarrow> p \<le> q"
proof (induction bs e p c arbitrary: q d rule: decode_loop.pinduct)
  case (1 bs e p c)
  obtain n p1 where s: "scan_until VALUE_DELIM bs e p [] = (n, p1)"
    by (cases "scan_until VALUE_DELIM bs e p []")
  note p1 = scan_until_ge' [OF s]
  show ?case
  proof (cases "p < e \<and> bs ! p \<noteq> SEQ_END")
    case False
    then show ?thesis
      using 1(1,4) by (auto simp: decode_loop.psimps split: if_splits)
  next
    case True
    obtain p2 c2 where v: "decode_value bs e (decode_loop bs e) n (p1 + 1) c = Inr (p2, c2)"
      and go: "p1 < e" "bs ! p1 = VALUE_DELIM" "p2 < e" "bs ! p2 = FIELD_DELIM"
        "decode_loop bs e (p2 + 1) c2 = Inr (q, d)"
      using True 1(1,4) s by (auto simp: decode_loop.psimps [of bs e p c] split: if_splits)
    have "p1 + 1 \<le> p2"
      by (rule decode_value_ge [OF v]) (use 1(2) [of _ n p1] True s go in force)
    moreover have "p2 + 1 \<le> q"
      using 1(3) [of _ n p1 _ p2 c2] True s go v by auto
    ultimately show ?thesis
      using p1 by simp
  qed
qed

termination decode_loop
proof (relation "measure (\<lambda>(bs, e, p, c). e - p)", goal_cases)
  case (2 bs e p c x n p1 s)
  then have "p \<le> p1"
    using scan_until_ge' [of VALUE_DELIM bs e p "[]" n p1] by simp
  with 2 show ?case by simp
next
  case (3 bs e p c x n p1 y p2 c2)
  then have "p \<le> p1"
    using scan_until_ge' [of VALUE_DELIM bs e p "[]" n p1] by simp
  moreover have "decode_value bs e (decode_loop bs e) n (p1 + 1) c = Inr (p2, c2)"
    using 3 by simp
  then have "p1 + 1 \<le> p2"
    by (rule decode_value_ge) (use 3 in \<open>auto dest!: decode_loop_ge\<close>)
  ultimately show ?case using 3 by simp
qed simp

declare decode_loop.simps [simp del]

definition decode_from :: "string \<Rightarrow> nat \<Rightarrow> nat \<Rightarrow> txContainer \<Rightarrow> (nat \<times> txContainer) res" where
  "decode_from bs e p parent = decode_loop bs e (p + 1) parent"

definition reset_msg :: "txContainer \<Rightarrow> txContainer" where
  "reset_msg msg = set_cont_name '''' (clear_container msg)"

abbreviation max_msglen :: nat where
  "max_msglen \<equiv> 2147483647"

text \<open>The loop over the digits of the message length.\<close>

function scan_msglen :: "string \<Rightarrow> nat \<Rightarrow> nat \<Rightarrow> nat \<Rightarrow> (nat \<times> nat) res" where
  "scan_msglen bs e p msglen =
     (if p < e \<and> is_digit (bs ! p) then
        let msglen = msglen * 10 + of_char (bs ! p) mod 16 in
        if msglen > max_msglen then Inl (RuntimeError ''SAM message exceeds maximum length'')
        else scan_msglen bs e (p + 1) msglen
      else Inr (msglen, p))"
  by pat_completeness auto
termination
  by (relation "measure (\<lambda>(bs, e, p, m). e - p)") auto

declare scan_msglen.simps [simp del]

definition sam_head_len :: nat where
  "sam_head_len = 1 + 7 + 1"

definition sam_ver_supported :: "string \<Rightarrow> bool" where
  "sam_ver_supported bs \<longleftrightarrow> take 7 (drop 1 bs) = SAM0100 \<or> take 7 (drop 1 bs) = SAM0101"

text \<open>
  \<open>decodeMsg msg bs\<close> reads the bytes \<open>bs\<close>: the message after the call and the number of
  bytes consumed, 0 when more input is needed.
\<close>

definition decodeMsg :: "txContainer \<Rightarrow> string \<Rightarrow> (txContainer \<times> nat) res" where
  "decodeMsg msg bs =
     (let e = length bs in
      if 0 < e then
        if e < sam_head_len then Inr (msg, 0)
        else if bs ! 0 \<noteq> MSG_START \<or> bs ! 8 \<noteq> META_DELIM
        then Inl (RuntimeError ''bad SAM header'')
        else
          bindR (scan_msglen bs e sam_head_len 0) (\<lambda>(msglen, p).
          if p \<ge> e then Inr (msg, 0)
          else if bs ! p \<noteq> META_DELIM then Inl (RuntimeError ''SAM header bad msglen'')
          else if e < msglen then Inr (msg, 0)
          else if sam_ver_supported bs then
            let (vs, p) = scan_until META_DELIM bs msglen (p + 1) [] in
            if p \<ge> msglen \<or> bs ! p \<noteq> META_DELIM
            then Inl (RuntimeError ''SAM header missing message type'')
            else
              bindR (decode_from bs msglen (p + 1) (set_cont_name vs (reset_msg msg))) (\<lambda>(q, root).
              Inr (root, msglen))
          else Inr (msg, msglen))
      else Inr (msg, 0))"

end
