(* ===== verification/Sam_Laws.thy ===== *)
theory Sam_Laws
  imports Sam_Container
begin

text \<open>
  The invariant of \<^verbatim>\<open>txContainer\<close> and the laws of its operations: both name maps index
  exactly the items of the list, names are unique within a kind, and so on for every child.
  Under it a container behaves as two independent finite maps, fields and children, with a
  common insertion order; \<open>merge\<close>, the copies and the qualified-name operations are
  characterised in these terms.
\<close>

section \<open>The invariant\<close>

fun field_key :: "txItem \<Rightarrow> string option" where
  "field_key (ItemField f) = Some (field_name f)"
| "field_key (ItemCont c) = None"

fun child_key :: "txItem \<Rightarrow> string option" where
  "child_key (ItemField f) = None"
| "child_key (ItemCont c) = Some (cont_name c)"

text \<open>The index of a list of keys, built the way \<open>add_internally\<close> builds the maps.\<close>

fun index_from :: "nat \<Rightarrow> string option list \<Rightarrow> (string, nat) stdmap \<Rightarrow> (string, nat) stdmap" where
  "index_from i [] m = m"
| "index_from i (None # ks) m = index_from (Suc i) ks m"
| "index_from i (Some n # ks) m = index_from (Suc i) ks (map_insert n i m)"

definition somes :: "'a option list \<Rightarrow> 'a list" where
  "somes ks = concat (map (\<lambda>k. case k of None \<Rightarrow> [] | Some x \<Rightarrow> [x]) ks)"

primrec wf_item :: "txItem \<Rightarrow> bool" and wf_cont :: "txContainer \<Rightarrow> bool" where
  "wf_item (ItemField f) \<longleftrightarrow> True"
| "wf_item (ItemCont c) \<longleftrightarrow> wf_cont c"
| "wf_cont (TxContainer nm its fm cm) \<longleftrightarrow>
     fm = index_from 0 (map field_key its) [] \<and>
     cm = index_from 0 (map child_key its) [] \<and>
     distinct (somes (map field_key its)) \<and>
     distinct (somes (map child_key its)) \<and>
     list_all wf_item its"

section \<open>Index lemmas\<close>

lemma somes_simps [simp]:
  "somes [] = []" "somes (None # ks) = somes ks" "somes (Some x # ks) = x # somes ks"
  "somes (xs @ ys) = somes xs @ somes ys"
  by (simp_all add: somes_def)

lemma set_somes: "x \<in> set (somes ks) \<longleftrightarrow> Some x \<in> set ks"
  by (induction ks) (auto simp: somes_def split: option.splits)

lemma index_from_append:
  "index_from i (ks @ ls) m = index_from (i + length ks) ls (index_from i ks m)"
  by (induction i ks m rule: index_from.induct) auto

lemma map_ok_index [wf_intros]: "map_ok m \<Longrightarrow> map_ok (index_from i ks m)"
  by (induction i ks m rule: index_from.induct) (auto intro: map_ok_insert)

lemma index_from_sound:
  "map_ok m \<Longrightarrow> map_find (index_from i ks m) n = Some j \<Longrightarrow>
     map_find m n = Some j \<or> (i \<le> j \<and> j < i + length ks \<and> ks ! (j - i) = Some n)"
proof (induction i ks m rule: index_from.induct)
  case (2 i ks m)
  then show ?case by (auto simp: nth_Cons')
next
  case (3 i n' ks m)
  then have "map_find (map_insert n' i m) n = Some j \<or>
      (Suc i \<le> j \<and> j < Suc i + length ks \<and> ks ! (j - Suc i) = Some n)"
    by (simp add: map_ok_insert)
  then show ?case
    using 3(2) by (auto simp: map_find_insert nth_Cons' split: if_splits option.splits)
qed simp

lemma index_from_none:
  "map_ok m \<Longrightarrow> map_find (index_from i ks m) n = None \<longleftrightarrow> map_find m n = None \<and> Some n \<notin> set ks"
  by (induction i ks m rule: index_from.induct)
    (auto simp: map_find_insert map_ok_insert split: if_splits option.splits)

lemmas index_sound = index_from_sound [of "[]" 0, simplified]
lemmas index_none = index_from_none [of "[]" 0, simplified]

lemma length_index: "map_ok m \<Longrightarrow> distinct (somes ks) \<Longrightarrow> \<forall>n \<in> set (somes ks). map_find m n = None \<Longrightarrow>
    length (index_from i ks m) = length m + length (somes ks)"
proof (induction i ks m rule: index_from.induct)
  case (3 i n ks m)
  have len: "map_find m n = None \<Longrightarrow> length (map_insert n i m) = Suc (length m)" for m :: "(string, nat) stdmap"
    by (induction n i m rule: map_insert.induct) (auto split: if_splits)
  have "\<forall>k \<in> set (somes ks). map_find (map_insert n i m) k = None"
    using 3(2-4) by (metis distinct.simps(2) list.set_intros(2) map_find_insert somes_simps(3))
  then show ?case
    using 3 by (simp add: len map_ok_insert)
qed auto

section \<open>What the pointers point to\<close>

lemma wf_field_ptr:
  assumes "wf_cont c" "field_ptr c n = Some i"
  shows "\<exists>v. nth_opt (m_items c) i = Some (ItemField (TxField n v))"
proof -
  obtain nm its fm cm where c: "c = TxContainer nm its fm cm" by (cases c)
  with assms have i: "i < length its" "field_key (its ! i) = Some n"
    by (auto simp: field_ptr_def dest: index_sound)
  then obtain f where "its ! i = ItemField f" "field_name f = n"
    by (cases "its ! i") auto
  then show ?thesis
    using c i by (cases f) (simp add: nth_opt_def)
qed

lemma wf_child_ptr:
  assumes "wf_cont c" "child_ptr c n = Some i"
  shows "\<exists>d. nth_opt (m_items c) i = Some (ItemCont d) \<and> cont_name d = n \<and> wf_cont d"
proof -
  obtain nm its fm cm where c: "c = TxContainer nm its fm cm" by (cases c)
  with assms have i: "i < length its" "child_key (its ! i) = Some n"
    by (auto simp: child_ptr_def dest: index_sound)
  moreover have "wf_item (its ! i)"
    using assms c i by (simp add: list_all_length)
  ultimately show ?thesis
    using c by (cases "its ! i") (auto simp: nth_opt_def)
qed

lemma find_field_ptr: "wf_cont c \<Longrightarrow> find_field c n = None \<longleftrightarrow> field_ptr c n = None"
  using wf_field_ptr [of c n] by (auto simp: find_field_def field_at_def split: option.splits)

lemma find_child_ptr: "wf_cont c \<Longrightarrow> find_child c n = None \<longleftrightarrow> child_ptr c n = None"
  using wf_child_ptr [of c n] by (auto simp: find_child_def child_at_def split: option.splits)

lemma find_field_name: "wf_cont c \<Longrightarrow> find_field c n = Some f \<Longrightarrow> field_name f = n"
  using wf_field_ptr [of c n] by (auto simp: find_field_def field_at_def split: option.splits)

lemma find_child_wf: "wf_cont c \<Longrightarrow> find_child c n = Some d \<Longrightarrow> wf_cont d \<and> cont_name d = n"
  using wf_child_ptr [of c n] by (auto simp: find_child_def child_at_def split: option.splits)

section \<open>Preservation\<close>

lemma wf_new_container [wf_intros, simp]: "wf_cont (new_container n)"
  by (simp add: new_container_def)

lemma cont_name_simps [simp]:
  "cont_name (new_container n) = n"
  "cont_name (set_cont_name n c) = n"
  "cont_name (add_internally it c) = cont_name c"
  "cont_name (at_field i v c) = cont_name c"
  "cont_name (at_child i g c) = cont_name c"
  by (simp add: new_container_def, (cases c; simp)+)

lemma m_items_simps [simp]:
  "m_items (new_container n) = []"
  "m_items (set_cont_name n c) = m_items c"
  "m_items (add_internally it c) = m_items c @ [it]"
  "m_items (at_field i v c) = upd_at i (set_item_value v) (m_items c)"
  "m_items (at_child i g c) = upd_at i (on_child_item g) (m_items c)"
  by (simp add: new_container_def, (cases c; simp)+)

lemma key_set_item_value [simp]:
  "field_key (set_item_value v it) = field_key it" "child_key (set_item_value v it) = child_key it"
  by (cases it; simp)+

lemma key_on_child_item [simp]:
  "field_key (on_child_item g it) = field_key it"
  by (cases it) simp_all

lemma key_on_child_item' [simp]:
  "(\<And>d. cont_name (g d) = cont_name d) \<Longrightarrow> child_key (on_child_item g it) = child_key it"
  by (cases it) simp_all

lemma wf_set_item_value [simp]: "wf_item (set_item_value v it) = wf_item it"
  by (cases it) simp_all

lemma wf_on_child_item: "(\<And>d. wf_cont d \<Longrightarrow> wf_cont (g d)) \<Longrightarrow> wf_item it \<Longrightarrow> wf_item (on_child_item g it)"
  by (cases it) simp_all

lemma wf_at_field [wf_intros]: "wf_cont c \<Longrightarrow> wf_cont (at_field i v c)"
  by (cases c) (auto simp: map_upd_at_same list_all_iff dest!: set_upd_at)

lemma wf_at_child_strong:
  assumes "wf_cont c" "\<And>d. child_at c i = Some d \<Longrightarrow> cont_name (g d) = cont_name d"
    and "\<And>d. child_at c i = Some d \<Longrightarrow> wf_cont d \<Longrightarrow> wf_cont (g d)"
  shows "wf_cont (at_child i g c)"
proof (cases "child_at c i")
  case None
  then have "at_child i g c = c"
    by (cases c) (auto simp: child_at_def intro!: upd_at_id split: option.splits txItem.splits)
  with assms show ?thesis by simp
next
  case (Some d)
  obtain nm its fm cm where c: "c = TxContainer nm its fm cm" by (cases c)
  with Some have i: "i < length its" "its ! i = ItemCont d"
    by (auto simp: child_at_def nth_opt_def split: option.splits txItem.splits if_splits)
  then have "upd_at i (on_child_item g) its = its[i := ItemCont (g d)]"
    by (simp add: upd_at_def)
  moreover have "map child_key (its[i := ItemCont (g d)]) = map child_key its"
    using i assms(2) [OF Some] by (simp add: map_update list_update_same_conv)
  moreover have "map field_key (its[i := ItemCont (g d)]) = map field_key its"
    using i by (simp add: map_update list_update_same_conv)
  moreover have "wf_item (its ! i)"
    using assms(1) c i(1) by (simp add: list_all_length)
  then have "list_all wf_item (its[i := ItemCont (g d)])"
    using assms c i Some by (auto simp: list_all_iff dest!: set_update_subset_insert [THEN subsetD])
  ultimately show ?thesis
    using assms(1) c by simp
qed

lemma wf_at_child [wf_intros]:
  assumes "wf_cont c" "\<And>d. cont_name (g d) = cont_name d" "\<And>d. wf_cont d \<Longrightarrow> wf_cont (g d)"
  shows "wf_cont (at_child i g c)"
  using assms by (intro wf_at_child_strong)

lemma wf_add_field [wf_intros]:
  assumes "wf_cont c" "field_ptr c (field_name f) = None"
  shows "wf_cont (add_internally (ItemField f) c)"
  using assms by (cases c) (auto simp: index_from_append field_ptr_def index_none set_somes)

lemma wf_add_child [wf_intros]:
  assumes "wf_cont c" "child_ptr c (cont_name d) = None" "wf_cont d"
  shows "wf_cont (add_internally (ItemCont d) c)"
  using assms by (cases c) (auto simp: index_from_append child_ptr_def index_none set_somes)

lemma wf_put_field [wf_intros]: "wf_cont c \<Longrightarrow> wf_cont (put_field n v c)"
  by (auto simp: put_field_def intro!: wf_intros split: option.splits)

lemma wf_put_child [wf_intros]: "wf_cont c \<Longrightarrow> wf_cont (fst (put_child n c))"
  by (auto simp: put_child_def intro!: wf_intros split: option.splits)

lemma cont_name_put [simp]:
  "cont_name (put_field n v c) = cont_name c"
  "cont_name (fst (put_child n c)) = cont_name c"
  "cont_name (put_child_then n g c) = cont_name c"
  by (auto simp: put_field_def put_child_def put_child_then_def split: option.splits)

lemma wf_put_child_then [wf_intros]:
  assumes "wf_cont c" "\<And>d. cont_name (g d) = cont_name d" "\<And>d. wf_cont d \<Longrightarrow> wf_cont (g d)"
  shows "wf_cont (put_child_then n g c)"
  using wf_at_child [OF wf_put_child [OF assms(1)] assms(2,3)]
  by (simp add: put_child_then_def case_prod_beta)

lemma cont_name_buid_tree:
  "(\<And>n d. cont_name (k n d) = cont_name d) \<Longrightarrow> cont_name (buid_tree qn k c) = cont_name c"
  by (induction qn k c rule: buid_tree.induct) simp_all

lemma wf_buid_tree [wf_intros]:
  assumes "wf_cont c" "\<And>n d. cont_name (k n d) = cont_name d" "\<And>n d. wf_cont d \<Longrightarrow> wf_cont (k n d)"
  shows "wf_cont (buid_tree qn k c)"
  using assms
proof (induction qn k c rule: buid_tree.induct)
  case (3 n m ns k c)
  show ?case
    using 3 by (auto intro!: wf_put_child_then simp: cont_name_buid_tree)
qed auto

section \<open>Lookup after update\<close>

lemma map_ok_wf: "wf_cont c \<Longrightarrow> map_ok (m_field_map c)" "wf_cont c \<Longrightarrow> map_ok (m_child_map c)"
  by (cases c; simp add: map_ok_index)+

lemma maps_add_internally:
  "m_field_map (add_internally (ItemField f) c) = map_insert (field_name f) (length (m_items c)) (m_field_map c)"
  "m_field_map (add_internally (ItemCont d) c) = m_field_map c"
  "m_child_map (add_internally (ItemCont d) c) = map_insert (cont_name d) (length (m_items c)) (m_child_map c)"
  "m_child_map (add_internally (ItemField f) c) = m_child_map c"
  by (cases c; simp)+

lemma ptr_add [simp]:
  "wf_cont c \<Longrightarrow> field_ptr (add_internally (ItemField f) c) n =
     (if n = field_name f then (case field_ptr c n of None \<Rightarrow> Some (length (m_items c)) | Some i \<Rightarrow> Some i)
      else field_ptr c n)"
  "field_ptr (add_internally (ItemCont d) c) n = field_ptr c n"
  "wf_cont c \<Longrightarrow> child_ptr (add_internally (ItemCont d) c) n =
     (if n = cont_name d then (case child_ptr c n of None \<Rightarrow> Some (length (m_items c)) | Some i \<Rightarrow> Some i)
      else child_ptr c n)"
  "child_ptr (add_internally (ItemField f) c) n = child_ptr c n"
  by (auto simp: field_ptr_def child_ptr_def maps_add_internally map_find_insert map_ok_wf)

lemma ptr_at [simp]:
  "field_ptr (at_field i v c) n = field_ptr c n" "child_ptr (at_field i v c) n = child_ptr c n"
  "field_ptr (at_child i g c) n = field_ptr c n" "child_ptr (at_child i g c) n = child_ptr c n"
  by (cases c; simp add: field_ptr_def child_ptr_def)+

lemma wf_field_ptr_less: "wf_cont c \<Longrightarrow> field_ptr c n = Some i \<Longrightarrow> i < length (m_items c)"
  by (drule (1) wf_field_ptr) (auto dest: nth_opt_less)

lemma wf_child_ptr_less: "wf_cont c \<Longrightarrow> child_ptr c n = Some i \<Longrightarrow> i < length (m_items c)"
  by (drule (1) wf_child_ptr) (auto dest: nth_opt_less)

text \<open>A field and a child, or two names of a kind, never share a position.\<close>

lemma field_ptr_inj: "wf_cont c \<Longrightarrow> field_ptr c m = Some i \<Longrightarrow> field_ptr c n = Some i \<Longrightarrow> m = n"
  using wf_field_ptr [of c m i] wf_field_ptr [of c n i] by auto

lemma child_ptr_inj: "wf_cont c \<Longrightarrow> child_ptr c m = Some i \<Longrightarrow> child_ptr c n = Some i \<Longrightarrow> m = n"
  using wf_child_ptr [of c m i] wf_child_ptr [of c n i] by auto

lemma field_child_ptr: "wf_cont c \<Longrightarrow> field_ptr c m = Some i \<Longrightarrow> child_ptr c n = Some i \<Longrightarrow> False"
  using wf_field_ptr [of c m i] wf_child_ptr [of c n i] by auto

lemmas ptr_facts = wf_field_ptr_less wf_child_ptr_less field_ptr_inj child_ptr_inj field_child_ptr

lemmas lookup_defs = find_field_def find_child_def field_at_def child_at_def

lemma find_field_put_field:
  assumes "wf_cont c"
  shows "find_field (put_field n v c) m = (if m = n then Some (TxField n v) else find_field c m)"
proof (cases "field_ptr c n")
  case None
  with assms show ?thesis
    by (auto simp: put_field_def lookup_defs nth_opt_append dest: ptr_facts split: option.splits)
next
  case (Some i)
  obtain w where "nth_opt (m_items c) i = Some (ItemField (TxField n w))"
    using wf_field_ptr [OF assms Some] by blast
  with Some assms show ?thesis
    by (auto simp: put_field_def lookup_defs nth_opt_upd_at dest: ptr_facts split: option.splits)
qed

lemma find_child_put_field [simp]:
  "wf_cont c \<Longrightarrow> find_child (put_field n v c) m = find_child c m"
  by (auto simp: put_field_def lookup_defs nth_opt_append nth_opt_upd_at
      dest: ptr_facts split: option.splits)

lemma find_field_at_child [simp]: "wf_cont c \<Longrightarrow> child_ptr c n = Some i \<Longrightarrow> find_field (at_child i g c) m = find_field c m"
  by (auto simp: lookup_defs nth_opt_upd_at dest: ptr_facts split: option.splits)

lemma find_field_put_child_then [simp]:
  "wf_cont c \<Longrightarrow> find_field (put_child_then n g c) m = find_field c m"
  by (auto simp: put_child_then_def put_child_def lookup_defs nth_opt_append nth_opt_upd_at
      dest: ptr_facts split: option.splits)

lemma find_child_put_child_then:
  assumes "wf_cont c"
  shows "find_child (put_child_then n g c) m =
    (if m = n then Some (g (case find_child c n of None \<Rightarrow> new_container n | Some d \<Rightarrow> d))
     else find_child c m)"
proof (cases "child_ptr c n")
  case None
  with assms show ?thesis
    by (auto simp: put_child_then_def put_child_def lookup_defs nth_opt_append
        dest: ptr_facts split: option.splits)
next
  case (Some i)
  obtain d where "nth_opt (m_items c) i = Some (ItemCont d)"
    using wf_child_ptr [OF assms Some] by blast
  with Some assms show ?thesis
    by (auto simp: put_child_then_def put_child_def lookup_defs nth_opt_upd_at
        dest: ptr_facts split: option.splits)
qed

section \<open>The index agrees with the list\<close>

text \<open>The lookups through the maps are the first match in insertion order.\<close>

fun item_field :: "txItem list \<Rightarrow> string \<Rightarrow> txField option" where
  "item_field [] n = None"
| "item_field (ItemField f # its) n = (if field_name f = n then Some f else item_field its n)"
| "item_field (ItemCont d # its) n = item_field its n"

fun item_child :: "txItem list \<Rightarrow> string \<Rightarrow> txContainer option" where
  "item_child [] n = None"
| "item_child (ItemField f # its) n = item_child its n"
| "item_child (ItemCont d # its) n = (if cont_name d = n then Some d else item_child its n)"

fun pos_of :: "'a \<Rightarrow> 'a list \<Rightarrow> nat option" where
  "pos_of x [] = None"
| "pos_of x (y # ys) = (if x = y then Some 0 else map_option Suc (pos_of x ys))"

lemma plus_Suc_fun: "(+) (Suc i) = (\<lambda>x. Suc (i + x))"
  by auto

lemma index_from_find:
  "map_ok m \<Longrightarrow> map_find (index_from i ks m) n =
     (case map_find m n of Some j \<Rightarrow> Some j | None \<Rightarrow> map_option (\<lambda>j. i + j) (pos_of (Some n) ks))"
  by (induction i ks m rule: index_from.induct)
    (auto simp: map_find_insert map_ok_insert option.map_comp comp_def plus_Suc_fun split: option.splits)

lemma index_find: "map_find (index_from 0 ks []) n = pos_of (Some n) ks"
  by (cases "pos_of (Some n) ks") (simp_all add: index_from_find)

lemma item_field_pos:
  "item_field its n =
    (case pos_of (Some n) (map field_key its) of None \<Rightarrow> None
     | Some i \<Rightarrow> (case nth_opt its i of Some (ItemField f) \<Rightarrow> Some f | _ \<Rightarrow> None))"
  by (induction its n rule: item_field.induct) (auto split: option.splits)

lemma item_child_pos:
  "item_child its n =
    (case pos_of (Some n) (map child_key its) of None \<Rightarrow> None
     | Some i \<Rightarrow> (case nth_opt its i of Some (ItemCont d) \<Rightarrow> Some d | _ \<Rightarrow> None))"
  by (induction its n rule: item_child.induct) (auto split: option.splits)

lemma find_field_items: "wf_cont c \<Longrightarrow> find_field c n = item_field (m_items c) n"
  by (cases c) (simp add: find_field_def field_ptr_def field_at_def index_find item_field_pos split: option.split)

lemma find_child_items: "wf_cont c \<Longrightarrow> find_child c n = item_child (m_items c) n"
  by (cases c) (simp add: find_child_def child_ptr_def child_at_def index_find item_child_pos split: option.split)

section \<open>Copies\<close>

lemma fold_add_internally:
  "fold add_internally its
     (TxContainer nm pre (index_from 0 (map field_key pre) []) (index_from 0 (map child_key pre) [])) =
   TxContainer nm (pre @ its) (index_from 0 (map field_key (pre @ its)) [])
     (index_from 0 (map child_key (pre @ its)) [])"
proof (induction its arbitrary: pre)
  case (Cons it its)
  have "add_internally it
     (TxContainer nm pre (index_from 0 (map field_key pre) []) (index_from 0 (map child_key pre) [])) =
     TxContainer nm (pre @ [it]) (index_from 0 (map field_key (pre @ [it])) [])
     (index_from 0 (map child_key (pre @ [it])) [])"
    by (cases it) (simp_all add: index_from_append)
  then show ?case
    using Cons.IH [of "pre @ [it]"] by simp
qed simp

lemmas fold_add_new = fold_add_internally [where pre = "[]", simplified, folded new_container_def]

lemma clone_wf [simp]: "wf_item it \<Longrightarrow> clone_item it = it" "wf_cont c \<Longrightarrow> clone c = c"
proof (induction it and c)
  case (TxContainer nm its fm cm)
  then have "map clone_item its = its"
    by (auto simp: list_all_iff intro: map_idI)
  with TxContainer show ?case by (simp add: fold_add_new)
qed simp_all

lemma copy_container_clone: "copy_container c = clone c"
  by (cases c) (simp add: copy_container_def)

lemma assign_container_clone: "assign_container src c = clone src"
  by (cases src) (simp add: assign_container_def clear_container_def new_container_def)

lemma wf_put_child_copy [wf_intros]:
  assumes "wf_cont c" "wf_cont src"
  shows "wf_cont (fst (put_child_copy src c))"
proof (cases "child_ptr c (cont_name src)")
  case None
  with assms show ?thesis
    by (simp add: put_child_copy_def copy_container_clone wf_add_child)
next
  case (Some i)
  have "cont_name d = cont_name src" if "child_at c i = Some d" for d
    using wf_child_ptr [OF assms(1) Some] that by (auto simp: child_at_def)
  with Some assms show ?thesis
    by (auto simp: put_child_copy_def assign_container_clone intro!: wf_at_child_strong)
qed

lemma cont_name_put_child_copy [simp]: "cont_name (fst (put_child_copy src c)) = cont_name c"
  by (simp add: put_child_copy_def split: option.splits)

lemma find_field_put_child_copy [simp]:
  "wf_cont c \<Longrightarrow> find_field (fst (put_child_copy src c)) m = find_field c m"
  by (auto simp: put_child_copy_def lookup_defs nth_opt_append nth_opt_upd_at
      dest: ptr_facts split: option.splits)

lemma find_child_put_child_copy:
  assumes "wf_cont c" "wf_cont src"
  shows "find_child (fst (put_child_copy src c)) m =
    (if m = cont_name src then Some src else find_child c m)"
proof (cases "child_ptr c (cont_name src)")
  case None
  with assms show ?thesis
    by (auto simp: put_child_copy_def copy_container_clone lookup_defs nth_opt_append
        dest: ptr_facts split: option.splits)
next
  case (Some i)
  obtain d where "nth_opt (m_items c) i = Some (ItemCont d)"
    using wf_child_ptr [OF assms(1) Some] by blast
  with Some assms show ?thesis
    by (auto simp: put_child_copy_def assign_container_clone lookup_defs nth_opt_upd_at
        dest: ptr_facts split: option.splits)
qed

section \<open>Merge\<close>

lemma cont_name_merge [simp]:
  "cont_name (merge s c) = cont_name c" "cont_name (merge_items its c) = cont_name c"
  by (induction s c and its c rule: merge_merge_items.induct) (auto split: option.splits)

lemma wf_merge:
  "wf_cont s \<Longrightarrow> wf_cont c \<Longrightarrow> wf_cont (merge s c)"
  "list_all wf_item its \<Longrightarrow> wf_cont c \<Longrightarrow> wf_cont (merge_items its c)"
proof (induction s c and its c rule: merge_merge_items.induct)
  case (3 s its c)
  show ?case
  proof (cases "child_ptr c (cont_name s)")
    case None
    with 3 show ?thesis by (simp add: wf_put_child_copy)
  next
    case (Some i)
    with 3 have "wf_cont (at_child i (merge s) c)"
      by (intro wf_at_child) auto
    with Some 3 show ?thesis by simp
  qed
qed (auto intro: wf_put_field)

declare wf_merge(1) [wf_intros]

definition merge_child :: "txContainer \<Rightarrow> txContainer \<Rightarrow> txContainer" where
  "merge_child s c =
     (case child_ptr c (cont_name s) of
        Some i \<Rightarrow> at_child i (\<lambda>d. merge s d) c
      | None \<Rightarrow> fst (put_child_copy s c))"

lemma merge_items_child: "merge_items (ItemCont s # its) c = merge_items its (merge_child s c)"
  by (simp add: merge_child_def)

lemma wf_merge_child [wf_intros]: "wf_cont s \<Longrightarrow> wf_cont c \<Longrightarrow> wf_cont (merge_child s c)"
  by (auto simp: merge_child_def intro!: wf_at_child wf_put_child_copy wf_merge split: option.splits)

lemma find_field_merge_child [simp]: "wf_cont c \<Longrightarrow> find_field (merge_child s c) n = find_field c n"
  by (auto simp: merge_child_def split: option.splits)

lemma find_child_merge_child:
  assumes "wf_cont s" "wf_cont c"
  shows "find_child (merge_child s c) n =
    (if n = cont_name s
     then Some (case find_child c n of None \<Rightarrow> s | Some e \<Rightarrow> merge s e) else find_child c n)"
proof (cases "child_ptr c (cont_name s)")
  case None
  with assms show ?thesis
    by (auto simp: merge_child_def find_child_put_child_copy find_child_def [of c])
next
  case (Some i)
  obtain d where "nth_opt (m_items c) i = Some (ItemCont d)"
    using wf_child_ptr [OF assms(2) Some] by blast
  with Some assms show ?thesis
    by (auto simp: merge_child_def lookup_defs nth_opt_upd_at dest: ptr_facts split: option.splits)
qed

lemma item_field_none: "n \<notin> set (somes (map field_key its)) \<Longrightarrow> item_field its n = None"
  by (induction its n rule: item_field.induct) auto

lemma item_child_none: "n \<notin> set (somes (map child_key its)) \<Longrightarrow> item_child its n = None"
  by (induction its n rule: item_child.induct) auto

lemma find_field_merge_items:
  "wf_cont c \<Longrightarrow> list_all wf_item its \<Longrightarrow> distinct (somes (map field_key its)) \<Longrightarrow>
   find_field (merge_items its c) n =
     (case item_field its n of None \<Rightarrow> find_field c n | Some f \<Rightarrow> Some f)"
proof (induction its arbitrary: c)
  case (Cons it its)
  show ?case
  proof (cases it)
    case (ItemField f)
    with Cons show ?thesis
      by (cases f) (auto simp: wf_put_field find_field_put_field item_field_none split: option.split)
  next
    case (ItemCont s)
    with Cons show ?thesis
      by (simp add: merge_items_child wf_merge_child del: merge_items.simps cong: option.case_cong)
  qed
qed simp

lemma find_child_merge_items:
  "wf_cont c \<Longrightarrow> list_all wf_item its \<Longrightarrow> distinct (somes (map child_key its)) \<Longrightarrow>
   find_child (merge_items its c) n =
     (case item_child its n of None \<Rightarrow> find_child c n
      | Some d \<Rightarrow> Some (case find_child c n of None \<Rightarrow> d | Some e \<Rightarrow> merge d e))"
proof (induction its arbitrary: c)
  case (Cons it its)
  show ?case
  proof (cases it)
    case (ItemField f)
    with Cons show ?thesis
      by (simp add: wf_put_field cong: option.case_cong)
  next
    case (ItemCont s)
    with Cons show ?thesis
      by (auto simp: merge_items_child wf_merge_child find_child_merge_child item_child_none
          simp del: merge_items.simps split: option.split)
  qed
qed simp

lemma merge_items_eq: "merge s c = merge_items (m_items s) c"
  by (cases s) simp

lemma wf_cont_items:
  "wf_cont s \<Longrightarrow> list_all wf_item (m_items s)"
  "wf_cont s \<Longrightarrow> distinct (somes (map field_key (m_items s)))"
  "wf_cont s \<Longrightarrow> distinct (somes (map child_key (m_items s)))"
  by (cases s; simp)+

lemma find_field_merge:
  "wf_cont s \<Longrightarrow> wf_cont c \<Longrightarrow>
   find_field (merge s c) n = (case find_field s n of None \<Rightarrow> find_field c n | Some f \<Rightarrow> Some f)"
  by (simp add: merge_items_eq find_field_merge_items wf_cont_items find_field_items [of s])

lemma find_child_merge:
  "wf_cont s \<Longrightarrow> wf_cont c \<Longrightarrow>
   find_child (merge s c) n =
     (case find_child s n of None \<Rightarrow> find_child c n
      | Some d \<Rightarrow> Some (case find_child c n of None \<Rightarrow> d | Some e \<Rightarrow> merge d e))"
  by (simp add: merge_items_eq find_child_merge_items wf_cont_items find_child_items [of s])

section \<open>Qualified names\<close>

text \<open>An empty qualified name addresses the item with the empty name.\<close>

definition qn_norm :: "string list \<Rightarrow> string list" where
  "qn_norm qn = (if qn = [] then [''''] else qn)"

lemma cont_name_put_field_q [simp]: "cont_name (put_field_q qn v c) = cont_name c"
  by (simp add: put_field_q_def cont_name_buid_tree)

lemma wf_put_field_q [wf_intros]: "wf_cont c \<Longrightarrow> wf_cont (put_field_q qn v c)"
  unfolding put_field_q_def by (intro wf_buid_tree) (auto intro: wf_put_field)

lemma put_field_q_simps [simp]:
  "put_field_q [] v c = put_field '''' v c"
  "put_field_q [n] v c = put_field n v c"
  "put_field_q (n # m # ns) v c = put_child_then n (put_field_q (m # ns) v) c"
  by (simp_all add: put_field_q_def)

lemma put_child_q_simps [simp]:
  "put_child_q [] g c = put_child_then '''' g c"
  "put_child_q [n] g c = put_child_then n g c"
  "put_child_q (n # m # ns) g c = put_child_then n (put_child_q (m # ns) g) c"
  by (simp_all add: put_child_q_def)

lemma find_field_q_simps [simp]:
  "find_field_q c [] = find_field c ''''"
  "find_field_q c [n] = find_field c n"
  "find_field_q c (n # m # ns) =
     (case find_child c n of None \<Rightarrow> None | Some d \<Rightarrow> find_field_q d (m # ns))"
  by (simp_all add: find_field_q_def split: option.split)

lemma find_child_q_simps [simp]:
  "find_child_q c [] = find_child c ''''"
  "find_child_q c [n] = find_child c n"
  "find_child_q c (n # m # ns) =
     (case find_child c n of None \<Rightarrow> None | Some d \<Rightarrow> find_child_q d (m # ns))"
  by (simp_all add: find_child_q_def split: option.split)

lemma find_new [simp]:
  "find_field (new_container n) m = None" "find_child (new_container n) m = None"
  by (simp_all add: new_container_def lookup_defs field_ptr_def child_ptr_def)

lemma find_field_q_new [simp]: "find_field_q (new_container n) q = None"
  by (cases q rule: remdups_adj.cases) auto

lemma wf_new [simp, wf_intros]: "wf_cont (new_container n)"
  by (simp add: new_container_def)

lemma wf_find_child [wf_intros]: "wf_cont c \<Longrightarrow> find_child c n = Some d \<Longrightarrow> wf_cont d"
  by (cases c) (auto simp: lookup_defs list_all_length nth_opt_def split: option.splits txItem.splits if_splits
      dest!: spec)

lemma find_put_field_q_same:
  "wf_cont c \<Longrightarrow> find_field_q (put_field_q qn v c) qn = Some (TxField (last (qn_norm qn)) v)"
proof (induction qn arbitrary: c rule: induct_list012)
  case (3 n m ns)
  have "wf_cont (case find_child c n of None \<Rightarrow> new_container n | Some d \<Rightarrow> d)"
    using 3 by (auto intro: wf_find_child split: option.split)
  then show ?case
    using 3 by (simp add: find_child_put_child_then qn_norm_def)
qed (simp_all add: find_field_put_field qn_norm_def)

lemma find_put_field_q_other:
  "wf_cont c \<Longrightarrow> qn_norm q \<noteq> qn_norm qn \<Longrightarrow>
   find_field_q (put_field_q qn v c) q = find_field_q c q"
proof (induction qn arbitrary: c q rule: induct_list012)
  case (3 n m ns)
  have "wf_cont (case find_child c n of None \<Rightarrow> new_container n | Some d \<Rightarrow> d)"
    using 3 by (auto intro: wf_find_child split: option.split)
  then show ?case
    using 3 by (cases q rule: remdups_adj.cases)
      (auto simp: find_child_put_child_then qn_norm_def split: option.splits)
next
  case 1
  then show ?case
    by (cases q rule: remdups_adj.cases) (auto simp: find_field_put_field qn_norm_def split: option.splits)
next
  case (2 n)
  then show ?case
    by (cases q rule: remdups_adj.cases) (auto simp: find_field_put_field qn_norm_def split: option.splits)
qed

section \<open>The containers a program can build\<close>

inductive built :: "txContainer \<Rightarrow> bool" where
  new: "built (new_container n)"
| field: "built c \<Longrightarrow> built (put_field_q qn v c)"
| child: "built c \<Longrightarrow> built (put_child_q qn (\<lambda>d. d) c)"
| copy: "built c \<Longrightarrow> built s \<Longrightarrow> built (fst (put_child_copy s c))"
| assign: "built c \<Longrightarrow> built s \<Longrightarrow> built (assign_container s c)"
| dup: "built s \<Longrightarrow> built (copy_container s)"
| merge: "built c \<Longrightarrow> built s \<Longrightarrow> built (merge s c)"
| clear: "built c \<Longrightarrow> built (clear_container c)"
| rename: "built c \<Longrightarrow> built (set_cont_name n c)"

lemma put_field_q_single: "put_field n v c = put_field_q [n] v c"
  by simp

lemma wf_set_cont_name [wf_intros]: "wf_cont c \<Longrightarrow> wf_cont (set_cont_name n c)"
  by (cases c) simp

end
