(* ===== verification/Sam_Roundtrip.thy ===== *)
theory Sam_Roundtrip
  imports Sam_Protocol Sam_Laws
begin

text \<open>
  The protocol's correctness.  The reference encoding \<open>enc_cont\<close> is the grammar of a SAM
  body written as a function; the encoder over any buffer appends exactly it, the size
  calculation is its length, and the decoder inverts it on well-formed messages whose names
  avoid the two characters the encoder does not escape.
\<close>

section \<open>The reference encoding\<close>

definition esc1 :: "char \<Rightarrow> string" where
  "esc1 c = (if isSpecialChar c then [ESCAPE, c] else [c])"

definition esc :: "string \<Rightarrow> string" where
  "esc s = concat (map esc1 s)"

fun enc_cont :: "txContainer \<Rightarrow> string" and enc_items :: "txItem list \<Rightarrow> string" where
  "enc_cont (TxContainer nm its fm cm) = SEQ_START # enc_items its @ [SEQ_END]"
| "enc_items [] = []"
| "enc_items (ItemCont c # its) =
     cont_name c @ VALUE_DELIM # enc_cont c @ FIELD_DELIM # enc_items its"
| "enc_items (ItemField f # its) =
     field_name f @ VALUE_DELIM # esc (field_value f) @ FIELD_DELIM # enc_items its"

definition enc_body :: "txContainer \<Rightarrow> string" where
  "enc_body msg = META_DELIM # cont_name msg @ META_DELIM # enc_cont msg @ [MSG_END, MSG_DELIM]"

lemma esc_simps [simp]: "esc [] = []" "esc (c # cs) = esc1 c @ esc cs" "esc (s @ t) = esc s @ esc t"
  by (simp_all add: esc_def)

lemma special_chars: "c \<in> set SPECIAL_CHARS \<longleftrightarrow> isSpecialChar c"
  by (auto simp: SPECIAL_CHARS_def isSpecialChar_def)

lemma esc_plain: "\<forall>c \<in> set s. \<not> isSpecialChar c \<Longrightarrow> esc s = s"
  by (induction s) (auto simp: esc1_def)

lemma take_strcspn: "take (strcspn s SPECIAL_CHARS) s = takeWhile (\<lambda>c. c \<noteq> CHR 0x00 \<and> c \<notin> set SPECIAL_CHARS) s"
  by (simp add: strcspn_def takeWhile_eq_take [symmetric])

lemma esc_strcspn: "esc (take (strcspn s SPECIAL_CHARS) s) = take (strcspn s SPECIAL_CHARS) s"
  by (intro esc_plain) (auto simp: take_strcspn special_chars dest: set_takeWhileD)

lemma esc_split: "take (strcspn s SPECIAL_CHARS) s @ esc (drop (strcspn s SPECIAL_CHARS) s) = esc s"
  by (metis append_take_drop_id esc_simps(3) esc_strcspn)

lemma strcspn_all: "strcspn s SPECIAL_CHARS = length s \<Longrightarrow> esc s = s"
  by (metis esc_strcspn take_all order_refl)

section \<open>The encoder writes the reference encoding\<close>

context sam_buffer
begin

lemma writes_escaped: "writes (write_escaped append_char s) (esc s)"
proof (induction s)
  case Nil
  show ?case
    by (rule writes_cong [OF writes_nothing]) auto
next
  case (Cons c cs)
  have e: "writes (\<lambda>b. if isSpecialChar c then append_char ESCAPE b else Inr b)
      (if isSpecialChar c then [ESCAPE] else [])"
    by (simp add: writes_char writes_nothing)
  show ?case
    by (rule writes_cong [OF writes_seq [OF e writes_seq [OF writes_char [of c] Cons]]])
      (auto simp: esc1_def)
qed

lemma writes_write_str: "writes (write_str append_str append_char s) (esc s)"
proof (cases "strcspn s SPECIAL_CHARS = length s")
  case True
  then show ?thesis
    by (intro writes_cong [OF writes_str [of s]]) (auto simp: write_str_def strcspn_all)
next
  case False
  then show ?thesis
    by (intro writes_cong [OF writes_seq [OF writes_str writes_escaped]])
      (auto simp: write_str_def Let_def esc_split)
qed

lemma writes_contents:
  "writes (encode_contents append_str append_char c) (enc_cont c)"
  "writes (encode_items append_str append_char its) (enc_items its)"
proof (induction c and its rule: enc_cont_enc_items.induct)
  case (1 nm its fm cm)
  show ?case
    by (rule writes_cong [OF writes_seq [OF writes_char writes_seq [OF 1 writes_char]]]) auto
next
  case 2
  show ?case
    by (rule writes_cong [OF writes_nothing]) auto
next
  case (3 c its)
  show ?case
    by (rule writes_cong [OF writes_seq [OF writes_str writes_seq [OF writes_char
            writes_seq [OF 3(1) writes_seq [OF writes_char 3(2)]]]]]) auto
next
  case (4 f its)
  show ?case
    by (rule writes_cong [OF writes_seq [OF writes_str writes_seq [OF writes_char
            writes_seq [OF writes_write_str writes_seq [OF writes_char 4]]]]]) auto
qed

lemma writes_body: "writes (encode_body append_str append_char msg) (enc_body msg)"
  by (rule writes_cong [OF writes_seq [OF writes_char writes_seq [OF writes_str writes_seq [OF
            writes_char writes_seq [OF writes_contents(1) writes_seq [OF writes_char writes_char]]]]]])
    (auto simp: encode_body_def enc_body_def)

end

section \<open>Size calculation\<close>

lemma write_escaped_calc: "write_escaped_calc s n = n + length (esc s)"
  by (induction s n rule: write_escaped_calc.induct) (auto simp: esc1_def)

lemma write_str_calc: "write_str_calc s n = n + length (esc s)"
proof -
  have "length (esc s) = strcspn s SPECIAL_CHARS + length (esc (drop (strcspn s SPECIAL_CHARS) s))"
    using arg_cong [OF esc_split [of s], of length]
    by (simp add: strcspn_def length_takeWhile_le min_absorb2)
  then show ?thesis
    by (simp add: write_str_calc_def Let_def write_escaped_calc strcspn_all)
qed

lemma contents_calc:
  "encode_contents_calc c n = n + length (enc_cont c)"
  "encode_items_calc its n = n + length (enc_items its)"
  by (induction c n and its n rule: encode_contents_calc_encode_items_calc.induct)
    (simp_all add: write_str_calc)

lemma calc_encoded_size_body: "calc_encoded_size msg = 14 + length (enc_body msg)"
  by (simp add: calc_encoded_size_def contents_calc enc_body_def)

section \<open>The encoded message\<close>

text \<open>The total length the header of \<open>msg\<close> announces, and the bytes on the wire.\<close>

definition wire_len :: "txContainer \<Rightarrow> nat" where
  "wire_len msg = snd (header_len (length (enc_body msg)))"

definition wire :: "txContainer \<Rightarrow> string" where
  "wire msg = sam_header (wire_len msg) @ enc_body msg"

lemma wire_len_ge: "length (enc_body msg) + 10 \<le> wire_len msg"
  using count_digits_pos by (auto simp: wire_len_def header_len_def Let_def Suc_le_eq)

lemma length_wire:
  assumes "length (enc_body msg) + 30 < 2 ^ 32"
  shows "length (wire msg) = wire_len msg"
proof -
  obtain k L where h: "header_len (length (enc_body msg)) = (k, L)"
    by (cases "header_len (length (enc_body msg))")
  show ?thesis
    using header_len_ok [OF h assms] h by (simp add: wire_def wire_len_def length_sam_header)
qed

lemma encodeMsg_wire:
  assumes room: "length (enc_body msg) \<le> dyn_cap lim" and small: "length (enc_body msg) + 30 < 2 ^ 32"
  obtains sb where "encodeMsg lim msg (new_DynamicSamBuffer r) = Inr (sb, wire_len msg)"
    "msg_bytes sb = wire msg"
proof -
  obtain sb where sb: "encode_body (append_str lim) (append_char lim) msg (new_DynamicSamBuffer r) = Inr sb"
    "dyn_open sb" "msg_bytes sb = enc_body msg"
    using dyn.writes_result [OF dyn.writes_body dyn_open_new, of r msg lim] room by auto
  have size: "msg_size sb = length (enc_body msg)"
    using length_msg_bytes [of sb] sb(2,3) by (simp add: dyn_open_def)
  obtain sb' where sb': "encode_header sb = Inr sb'" "dyn_inv sb'" "msg_bytes sb' = wire msg"
    using encode_header_ok [OF sb(2) _ prod.collapse [symmetric]] small size sb(3)
    by (auto simp: wire_def wire_len_def)
  then have "msg_size sb' = wire_len msg"
    using length_msg_bytes [of sb'] length_wire [OF small] by simp
  with sb sb' that show thesis
    by (simp add: encodeMsg_def)
qed

section \<open>Reading back\<close>

text \<open>
  The encoder writes names and the message type as they are.  These are the ones the decoder
  reads back: no delimiter it stops at, no escape, and no name that starts like the end of
  its container.
\<close>

definition clean_name :: "string \<Rightarrow> bool" where
  "clean_name n \<longleftrightarrow> VALUE_DELIM \<notin> set n \<and> ESCAPE \<notin> set n \<and> (n = [] \<or> hd n \<noteq> SEQ_END)"

primrec clean_item :: "txItem \<Rightarrow> bool" and clean_cont :: "txContainer \<Rightarrow> bool" where
  "clean_item (ItemField f) \<longleftrightarrow> clean_name (field_name f)"
| "clean_item (ItemCont c) \<longleftrightarrow> clean_name (cont_name c) \<and> clean_cont c"
| "clean_cont (TxContainer nm its fm cm) \<longleftrightarrow> list_all clean_item its"

definition clean_type :: "string \<Rightarrow> bool" where
  "clean_type n \<longleftrightarrow> META_DELIM \<notin> set n \<and> ESCAPE \<notin> set n"

lemma scan_until_esc_string:
  "isSpecialChar d \<Longrightarrow> d \<noteq> ESCAPE \<Longrightarrow> drop p bs = esc s @ d # rest \<Longrightarrow> p + length (esc s) < e \<Longrightarrow>
   scan_until d bs e p acc = (acc @ s, p + length (esc s))"
proof (induction s arbitrary: p acc)
  case Nil
  then show ?case
    by (subst scan_until_stop) (auto dest!: drop_Cons_nth)
next
  case (Cons c s)
  have next_d: "drop (p + length (esc1 c)) bs = esc s @ d # rest"
    using Cons.prems(3) by (intro drop_append_eq) simp
  show ?case
  proof (cases "isSpecialChar c")
    case True
    then have "drop p bs = ESCAPE # c # esc s @ d # rest"
      using Cons.prems(3) by (simp add: esc1_def)
    then have "bs ! p = ESCAPE" "bs ! (p + 1) = c"
      by (auto dest!: drop_Cons_nth)
    then show ?thesis
      using Cons.IH [of "p + 2" "acc @ [c]"] Cons.prems next_d True
      by (subst scan_until_esc) (auto simp: esc1_def)
  next
    case False
    then have "bs ! p = c"
      using Cons.prems(3) by (auto simp: esc1_def dest!: drop_Cons_nth)
    moreover have "c \<noteq> d" "c \<noteq> ESCAPE"
      using False Cons.prems(1) by (auto simp: isSpecialChar_def)
    ultimately show ?thesis
      using Cons.IH [of "p + 1" "acc @ [c]"] Cons.prems next_d False
      by (subst scan_until_char) (auto simp: esc1_def)
  qed
qed

lemma scan_until_plain:
  "d \<notin> set s \<Longrightarrow> ESCAPE \<notin> set s \<Longrightarrow> drop p bs = s @ d # rest \<Longrightarrow> p + length s < e \<Longrightarrow>
   scan_until d bs e p acc = (acc @ s, p + length s)"
proof (induction s arbitrary: p acc)
  case Nil
  then show ?case
    by (subst scan_until_stop) (auto dest!: drop_Cons_nth)
next
  case (Cons c s)
  then have "bs ! p = c" "drop (p + 1) bs = s @ d # rest"
    by (auto dest!: drop_Cons_nth)
  then show ?case
    using Cons.IH [of "p + 1" "acc @ [c]"] Cons.prems by (subst scan_until_char) auto
qed

lemma decode_step:
  assumes "p < e" "bs ! p \<noteq> SEQ_END" "scan_until VALUE_DELIM bs e p [] = (n, p1)"
    "p1 < e" "bs ! p1 = VALUE_DELIM"
    "decode_value bs e (decode_loop bs e) n (p1 + 1) c = Inr (p2, c2)"
    "p2 < e" "bs ! p2 = FIELD_DELIM"
  shows "decode_loop bs e p c = decode_loop bs e (p2 + 1) c2"
  using assms by (subst decode_loop.simps) simp

text \<open>One item: the name, its delimiter, the value read by \<open>decode_value\<close>, and the comma.\<close>

lemma decode_item:
  assumes d: "drop p bs = n @ VALUE_DELIM # w @ FIELD_DELIM # rest" and n: "clean_name n"
    and e: "p + length n + length w + 2 \<le> e" "e \<le> length bs"
    and v: "decode_value bs e (decode_loop bs e) n (p + length n + 1) c =
      Inr (p + length n + 1 + length w, c2)"
  shows "decode_loop bs e p c = decode_loop bs e (p + length n + length w + 2) c2"
proof -
  have "bs ! p \<noteq> SEQ_END"
    using d n by (cases n) (auto simp: clean_name_def dest!: drop_Cons_nth)
  moreover have "scan_until VALUE_DELIM bs e p [] = (n, p + length n)"
    using scan_until_plain [OF _ _ d, of e "[]"] n e by (simp add: clean_name_def)
  moreover have at: "drop (p + length n) bs = VALUE_DELIM # w @ FIELD_DELIM # rest"
    using drop_append_eq [OF d] by simp
  then have "bs ! (p + length n) = VALUE_DELIM"
    by (auto dest!: drop_Cons_nth)
  moreover have "drop (p + length n + 1 + length w) bs = FIELD_DELIM # rest"
    using at by (intro drop_append_eq) (auto dest!: drop_Cons_nth)
  then have "bs ! (p + length n + 1 + length w) = FIELD_DELIM"
    by (auto dest!: drop_Cons_nth)
  ultimately show ?thesis
    using e v by (subst decode_step [where n = n and ?p1.0 = "p + length n"]) (auto simp: algebra_simps)
qed

text \<open>A fresh item is appended; filling a fresh child is the same as adding it filled.\<close>

lemma put_field_fresh:
  "field_ptr c (field_name f) = None \<Longrightarrow>
   put_field (field_name f) (field_value f) c = add_internally (ItemField f) c"
  by (simp add: put_field_def)

lemma at_child_fresh:
  "cont_name d = n \<Longrightarrow>
   at_child (length (m_items c)) (\<lambda>_. d) (add_internally (ItemCont (new_container n)) c) =
   add_internally (ItemCont d) c"
  by (cases c) (simp add: new_container_def)

lemma child_at_fresh:
  "child_at (add_internally (ItemCont d) c) (length (m_items c)) = Some d"
  by (cases c) (simp add: child_at_def nth_opt_append)

lemma decode_value_field:
  assumes d: "drop p bs = esc v @ FIELD_DELIM # rest" and e: "p + length (esc v) < e" "e \<le> length bs"
  shows "decode_value bs e rec n p c = Inr (p + length (esc v), put_field n v c)"
proof -
  have p: "p < length bs" using e by simp
  have "bs ! p \<noteq> SEQ_START"
  proof (cases v)
    case Nil
    then show ?thesis using d by (auto dest!: drop_Cons_nth)
  next
    case (Cons a as)
    then have "bs ! p = hd (esc1 a)"
      using d by (auto simp: esc1_def dest!: drop_Cons_nth)
    then show ?thesis by (auto simp: esc1_def isSpecialChar_def)
  qed
  moreover have "scan_until FIELD_DELIM bs e p [] = (v, p + length (esc v))"
    using scan_until_esc_string [OF _ _ d e(1), of "[]"] by (simp add: isSpecialChar_def)
  ultimately show ?thesis
    using p by (simp add: decode_value_def nth_opt_def)
qed

lemma decode_value_child:
  assumes "nth_opt bs p = Some SEQ_START" "child_ptr c (cont_name d) = None"
    "rec (p + 1) (new_container (cont_name d)) = Inr (q, d)"
  shows "decode_value bs e rec (cont_name d) p c = Inr (q, add_internally (ItemCont d) c)"
  using assms by (simp add: decode_value_def put_child_def child_at_fresh at_child_fresh)

lemma enc_cont_hd: "hd (enc_cont c) = SEQ_START" "enc_cont c \<noteq> []"
  by (cases c; simp)+

lemma decode_enc:
  "\<And>p rest. wf_cont d \<Longrightarrow> clean_cont d \<Longrightarrow> e \<le> length bs \<Longrightarrow> p + length (enc_cont d) \<le> e \<Longrightarrow>
     drop p bs = enc_cont d @ rest \<Longrightarrow>
     decode_loop bs e (p + 1) (new_container (cont_name d)) = Inr (p + length (enc_cont d), d)"
  "\<And>p rest c. list_all wf_item its \<Longrightarrow> list_all clean_item its \<Longrightarrow> e \<le> length bs \<Longrightarrow>
     p + length (enc_items its) < e \<Longrightarrow> drop p bs = enc_items its @ SEQ_END # rest \<Longrightarrow> wf_cont c \<Longrightarrow>
     distinct (somes (map field_key its)) \<Longrightarrow> distinct (somes (map child_key its)) \<Longrightarrow>
     (\<forall>n \<in> set (somes (map field_key its)). field_ptr c n = None) \<Longrightarrow>
     (\<forall>n \<in> set (somes (map child_key its)). child_ptr c n = None) \<Longrightarrow>
     decode_loop bs e p c = Inr (p + length (enc_items its) + 1, fold add_internally its c)"
proof (induction d and its rule: enc_cont_enc_items.induct)
  case (1 nm its fm cm)
  have "drop (p + 1) bs = enc_items its @ SEQ_END # rest"
    using 1(6) by (auto dest!: drop_Cons_nth)
  then have "decode_loop bs e (p + 1) (new_container nm) =
      Inr (p + 1 + length (enc_items its) + 1, fold add_internally its (new_container nm))"
    using 1(2-5) by (intro 1(1)) (auto simp: field_ptr_def child_ptr_def new_container_def)
  with 1(2) show ?case
    by (simp add: fold_add_new)
next
  case 2
  then have "bs ! p = SEQ_END"
    by (auto dest!: drop_Cons_nth)
  with 2 show ?case
    by (subst decode_loop.simps) simp
next
  case (3 d its)
  let ?q = "p + length (cont_name d) + 1"
  have dr: "drop p bs = cont_name d @ VALUE_DELIM # enc_cont d @ FIELD_DELIM # enc_items its @ SEQ_END # rest"
    using 3(7) by simp
  have q: "drop ?q bs = enc_cont d @ FIELD_DELIM # enc_items its @ SEQ_END # rest"
    using drop_append_eq [OF dr] by (auto dest!: drop_Cons_nth)
  have len: "?q + length (enc_cont d) < e"
    using 3(6) by simp
  have rec: "decode_loop bs e (?q + 1) (new_container (cont_name d)) = Inr (?q + length (enc_cont d), d)"
    using 3(1) [OF _ _ 3(5) _ q] 3(3,4) len by simp
  have "nth_opt bs ?q = Some SEQ_START"
    using q enc_cont_hd [of d] by (cases "enc_cont d") (auto simp: nth_opt_def dest!: drop_Cons_nth)
  then have "decode_value bs e (decode_loop bs e) (cont_name d) ?q c =
      Inr (?q + length (enc_cont d), add_internally (ItemCont d) c)"
    using 3(12) by (intro decode_value_child rec) auto
  then have step: "decode_loop bs e p c =
      decode_loop bs e (p + length (cont_name d) + length (enc_cont d) + 2) (add_internally (ItemCont d) c)"
    using 3(4) len by (intro decode_item [OF dr _ _ 3(5)]) auto
  have "drop (p + length (cont_name d) + length (enc_cont d) + 2) bs = enc_items its @ SEQ_END # rest"
    using drop_append_eq [OF q] by (auto simp: algebra_simps dest!: drop_Cons_nth)
  then have "decode_loop bs e (p + length (cont_name d) + length (enc_cont d) + 2) (add_internally (ItemCont d) c) =
      Inr (p + length (cont_name d) + length (enc_cont d) + 2 + length (enc_items its) + 1,
        fold add_internally its (add_internally (ItemCont d) c))"
    using 3(3-12) by (intro 3(2)) (auto intro: wf_add_child)
  with step show ?case
    by simp
next
  case (4 f its)
  let ?q = "p + length (field_name f) + 1" and ?w = "esc (field_value f)"
  have dr: "drop p bs = field_name f @ VALUE_DELIM # ?w @ FIELD_DELIM # enc_items its @ SEQ_END # rest"
    using 4(6) by simp
  have q: "drop ?q bs = ?w @ FIELD_DELIM # enc_items its @ SEQ_END # rest"
    using drop_append_eq [OF dr] by (auto dest!: drop_Cons_nth)
  have len: "?q + length ?w < e"
    using 4(5) by simp
  have "decode_value bs e (decode_loop bs e) (field_name f) ?q c =
      Inr (?q + length ?w, add_internally (ItemField f) c)"
    using decode_value_field [OF q len 4(4)] 4(10) put_field_fresh [of c f] by simp
  then have step: "decode_loop bs e p c =
      decode_loop bs e (p + length (field_name f) + length ?w + 2) (add_internally (ItemField f) c)"
    using 4(3) len by (intro decode_item [OF dr _ _ 4(4)]) auto
  have "drop (p + length (field_name f) + length ?w + 2) bs = enc_items its @ SEQ_END # rest"
    using drop_append_eq [OF q] by (auto simp: algebra_simps dest!: drop_Cons_nth)
  then have "decode_loop bs e (p + length (field_name f) + length ?w + 2) (add_internally (ItemField f) c) =
      Inr (p + length (field_name f) + length ?w + 2 + length (enc_items its) + 1,
        fold add_internally its (add_internally (ItemField f) c))"
    using 4(2-11) by (intro 4(1)) (auto intro: wf_add_field)
  with step show ?case
    by simp
qed

section \<open>The header is read back\<close>

lemma dec_value_ge: "acc \<le> dec_value acc ds"
  by (induction acc ds rule: dec_value.induct) auto

lemma scan_msglen_stop: "\<not> (p < e \<and> is_digit (bs ! p)) \<Longrightarrow> scan_msglen bs e p m = Inr (m, p)"
  by (subst scan_msglen.simps) (simp only: if_False)

lemma scan_msglen_step:
  "p < e \<Longrightarrow> is_digit (bs ! p) \<Longrightarrow> m * 10 + of_char (bs ! p) mod 16 \<le> max_msglen \<Longrightarrow>
   scan_msglen bs e p m = scan_msglen bs e (p + 1) (m * 10 + of_char (bs ! p) mod 16)"
  by (subst scan_msglen.simps) (simp add: Let_def)

text \<open>
  The digits that are there are read, up to the end of the input or to the first byte that is
  not a digit.
\<close>

lemma scan_msglen_digits:
  "take (e - p) (drop p bs) = ds @ rest \<Longrightarrow> e \<le> length bs \<Longrightarrow> p \<le> e \<Longrightarrow> list_all is_digit ds \<Longrightarrow>
   (rest \<noteq> [] \<longrightarrow> \<not> is_digit (hd rest)) \<Longrightarrow> dec_value m ds \<le> max_msglen \<Longrightarrow>
   scan_msglen bs e p m = Inr (dec_value m ds, p + length ds)"
proof (induction ds arbitrary: p m)
  case Nil
  have "\<not> (p < e \<and> is_digit (bs ! p))"
  proof
    assume *: "p < e \<and> is_digit (bs ! p)"
    then have "take (e - p) (drop p bs) = bs ! p # take (e - Suc p) (drop (Suc p) bs)"
      using Nil(2) by (metis Cons_nth_drop_Suc Suc_diff_Suc less_le_trans take_Suc_Cons)
    with Nil * show False by auto
  qed
  then show ?case by (simp add: scan_msglen_stop)
next
  case (Cons d ds)
  then have p: "p < e" by (cases "e - p") auto
  then have eq: "take (e - p) (drop p bs) = bs ! p # take (e - Suc p) (drop (Suc p) bs)"
    using Cons.prems(2) by (metis Cons_nth_drop_Suc Suc_diff_Suc less_le_trans take_Suc_Cons)
  with Cons.prems(1) have d: "bs ! p = d" "take (e - (p + 1)) (drop (p + 1) bs) = ds @ rest"
    by simp_all
  let ?m = "m * 10 + of_char d mod 16"
  have "?m \<le> max_msglen"
    using Cons.prems(6) dec_value_ge [of ?m ds] by simp
  then show ?case
    using Cons.IH [of "p + 1" ?m] Cons.prems d p by (subst scan_msglen_step) auto
qed

lemma wire_eq:
  "wire msg = MSG_START # (if wire_len msg \<le> MAX_MSG_LEN then SAM0100 else SAM0101) @ META_DELIM #
     dec (wire_len msg) @ META_DELIM # cont_name msg @ META_DELIM # enc_cont msg @ [MSG_END, MSG_DELIM]"
  by (simp add: wire_def sam_header_def enc_body_def)

lemma wire_head:
  "take 9 (wire msg) = MSG_START # (if wire_len msg \<le> MAX_MSG_LEN then SAM0100 else SAM0101) @ [META_DELIM]"
  "drop 9 (wire msg) = dec (wire_len msg) @ enc_body msg"
  by (simp_all add: wire_def sam_header_def)

text \<open>
  Reading the header of a message, or of any prefix of it that holds the nine fixed bytes:
  the tests on the fixed bytes pass and the length scan sees the digits that have arrived.
\<close>

lemma header_bytes:
  assumes "take 9 bs = take 9 (wire msg)" "9 \<le> length bs"
  shows "bs ! 0 = MSG_START" "bs ! 8 = META_DELIM" "sam_ver_supported bs"
proof -
  have nth: "i < 9 \<Longrightarrow> bs ! i = take 9 (wire msg) ! i" for i
    using assms by (metis nth_take)
  show "bs ! 0 = MSG_START" "bs ! 8 = META_DELIM"
    using nth [of 0] nth [of 8] by (auto simp: wire_head)
  have "take 7 (drop 1 bs) = take 7 (drop 1 (take 9 bs))"
    by (simp add: drop_take)
  then show "sam_ver_supported bs"
    by (simp add: assms(1) wire_head sam_ver_supported_def)
qed

lemma digit_not_delim: "\<not> is_digit META_DELIM"
  by (simp add: is_digit_def)

lemma decodeMsg_wire:
  assumes wf: "wf_cont msg" "clean_cont msg" "clean_type (cont_name msg)"
    and max: "wire_len msg \<le> max_msglen" and len: "length (wire msg) = wire_len msg"
    and bs: "bs = wire msg @ rest"
  shows "decodeMsg old bs = Inr (msg, wire_len msg)"
proof -
  let ?L = "wire_len msg" and ?D = "dec (wire_len msg)"
  let ?p = "9 + length ?D" and ?q = "9 + length ?D + 1 + length (cont_name msg)"
  have nine: "9 \<le> length (wire msg)" by (simp add: wire_eq)
  have hd9: "take 9 bs = take 9 (wire msg)" "9 \<le> length bs"
    using nine bs by auto
  have d9: "drop 9 bs = ?D @ META_DELIM # cont_name msg @ META_DELIM # enc_cont msg @ [MSG_END, MSG_DELIM] @ rest"
    using nine bs by (simp add: wire_head enc_body_def)
  have scan: "scan_msglen bs (length bs) 9 0 = Inr (?L, ?p)"
    using scan_msglen_digits [OF trans [OF take_all d9], of "length bs" 0] max hd9(2)
    by (simp add: dec_digits digit_not_delim dec_value_dec)
  have dp: "drop ?p bs = META_DELIM # cont_name msg @ META_DELIM # enc_cont msg @ [MSG_END, MSG_DELIM] @ rest"
    using drop_append_eq [OF d9] .
  then have dp1: "drop (?p + 1) bs = cont_name msg @ META_DELIM # enc_cont msg @ [MSG_END, MSG_DELIM] @ rest"
    by (auto dest!: drop_Cons_nth)
  have dq: "drop ?q bs = META_DELIM # enc_cont msg @ [MSG_END, MSG_DELIM] @ rest"
    using drop_append_eq [OF dp1] by simp
  then have dq1: "drop (?q + 1) bs = enc_cont msg @ [MSG_END, MSG_DELIM] @ rest"
    by (auto dest!: drop_Cons_nth)
  have L: "?L = ?q + 1 + length (enc_cont msg) + 2"
    using len by (simp add: wire_def length_sam_header enc_body_def)
  have scan2: "scan_until META_DELIM bs ?L (?p + 1) [] = (cont_name msg, ?q)"
    using scan_until_plain [OF _ _ dp1, of ?L "[]"] wf(3) L by (simp add: clean_type_def)
  have body: "decode_loop bs ?L (?q + 1 + 1) (new_container (cont_name msg)) =
      Inr (?q + 1 + length (enc_cont msg), msg)"
    using decode_enc(1) [OF wf(1,2) _ _ dq1, of ?L] L len bs by simp
  have at: "bs ! ?p = META_DELIM" "?p < length bs" "bs ! ?q = META_DELIM"
    using dp dq by (auto dest!: drop_Cons_nth)
  show ?thesis
    using header_bytes [OF hd9] hd9(2) scan at scan2 body len L bs
    by (simp add: decodeMsg_def Let_def sam_head_len_def decode_from_def reset_msg_def
        clear_container_def new_container_def)
qed

text \<open>No strict prefix of a message is mistaken for a message.\<close>

lemma decodeMsg_short: "length bs < 9 \<Longrightarrow> decodeMsg old bs = Inr (old, 0)"
  by (simp add: decodeMsg_def sam_head_len_def Let_def)

lemma decodeMsg_prefix:
  assumes max: "wire_len msg \<le> max_msglen" and len: "length (wire msg) = wire_len msg"
    and k: "k < length (wire msg)"
  shows "decodeMsg old (take k (wire msg)) = Inr (old, 0)"
proof (cases "k < 9")
  case True
  then show ?thesis
    by (intro decodeMsg_short) simp
next
  case False
  define bs where "bs = take k (wire msg)"
  let ?D = "dec (wire_len msg)"
  have lb: "length bs = k" using k by (simp add: bs_def)
  have hd9: "take 9 bs = take 9 (wire msg)" "9 \<le> length bs"
    using False lb by (auto simp: bs_def min_def)
  have d9: "drop 9 bs = take (k - 9) ?D @ take (k - 9 - length ?D) (enc_body msg)"
    by (simp add: bs_def drop_take wire_head)
  have val: "dec_value 0 (take n ?D) \<le> wire_len msg" for n
    using dec_value_ge [of "dec_value 0 (take n ?D)" "drop n ?D"] dec_value_append [of 0 "take n ?D" "drop n ?D"]
    by (simp add: dec_value_dec)
  have "list_all is_digit (take (k - 9) ?D)"
    using dec_digits [of "wire_len msg"] by (auto simp: list_all_iff dest: in_set_takeD)
  moreover have "\<not> is_digit (hd (take (k - 9 - length ?D) (enc_body msg)))"
    if "take (k - 9 - length ?D) (enc_body msg) \<noteq> []"
    using that digit_not_delim by (cases "k - 9 - length ?D") (auto simp: enc_body_def)
  ultimately have scan: "scan_msglen bs (length bs) 9 0 =
      Inr (dec_value 0 (take (k - 9) ?D), 9 + length (take (k - 9) ?D))"
    using scan_msglen_digits [OF trans [OF take_all d9], of "length bs" 0] hd9(2)
      val [of "k - 9"] max by simp
  show ?thesis
  proof (cases "9 + length ?D < k")
    case False
    then have "9 + length (take (k - 9) ?D) = k"
      using \<open>\<not> k < 9\<close> by simp
    then show ?thesis
      using header_bytes [OF hd9] hd9(2) scan lb
      by (simp add: decodeMsg_def Let_def sam_head_len_def bs_def [symmetric])
  next
    case True
    then have scan': "scan_msglen bs (length bs) 9 0 = Inr (wire_len msg, 9 + length ?D)"
      using scan by (simp add: dec_value_dec)
    have "drop (9 + length ?D) bs = take (k - 9 - length ?D) (enc_body msg)"
      using drop_append_eq [OF d9] True by simp
    then have "bs ! (9 + length ?D) = META_DELIM"
      using True by (cases "k - 9 - length ?D") (auto simp: enc_body_def dest!: drop_Cons_nth)
    then show ?thesis
      using header_bytes [OF hd9] hd9(2) scan' lb True k len
      by (simp add: decodeMsg_def Let_def sam_head_len_def bs_def [symmetric])
  qed
qed

section \<open>What the decoder does on any input\<close>

text \<open>The invariant of the containers holds of whatever is decoded.\<close>

lemma put_child_fresh_at: "wf_cont c \<Longrightarrow> \<exists>d. child_at (fst (put_child n c)) (snd (put_child n c)) = Some d \<and> wf_cont d \<and> cont_name d = n"
proof (cases "child_ptr c n")
  case None
  then show ?thesis
    by (simp add: put_child_def child_at_fresh)
next
  case (Some i)
  assume "wf_cont c"
  then obtain d where d: "nth_opt (m_items c) i = Some (ItemCont d)" "cont_name d = n"
    using wf_child_ptr [OF _ Some] by blast
  then have "find_child c n = Some d"
    using Some by (simp add: find_child_def child_at_def)
  then show ?thesis
    using d Some wf_find_child [OF \<open>wf_cont c\<close>] by (simp add: put_child_def child_at_def)
qed

definition keeps_wf :: "(nat \<Rightarrow> txContainer \<Rightarrow> (nat \<times> txContainer) res) \<Rightarrow> nat \<Rightarrow> txContainer \<Rightarrow> bool" where
  "keeps_wf f p c \<longleftrightarrow>
     (\<forall>q d. wf_cont c \<longrightarrow> f p c = Inr (q, d) \<longrightarrow> wf_cont d \<and> cont_name d = cont_name c)"

lemma decode_value_wf:
  assumes v: "decode_value bs e rec n p c = Inr (q, d)" and wf: "wf_cont c"
    and rec: "\<And>s. nth_opt bs p = Some SEQ_START \<Longrightarrow>
      child_at (fst (put_child n c)) (snd (put_child n c)) = Some s \<Longrightarrow> keeps_wf rec (p + 1) s"
  shows "wf_cont d \<and> cont_name d = cont_name c"
proof (cases "nth_opt bs p = Some SEQ_START")
  case False
  with v wf show ?thesis
    by (auto simp: decode_value_def wf_put_field split: option.splits prod.splits)
next
  case True
  obtain s where s: "child_at (fst (put_child n c)) (snd (put_child n c)) = Some s" "wf_cont s"
    using put_child_fresh_at [OF wf] by blast
  obtain c1 i where c1: "put_child n c = (c1, i)"
    by (cases "put_child n c")
  with v True s obtain r where r: "rec (p + 1) s = Inr (q, r)" "d = at_child i (\<lambda>_. r) c1"
    by (auto simp: decode_value_def)
  have "wf_cont r \<and> cont_name r = cont_name s"
    using rec [OF True s(1)] r(1) s(2) unfolding keeps_wf_def by blast
  moreover have "wf_cont c1" "cont_name c1 = cont_name c"
    using wf_put_child [OF wf, of n] cont_name_put(2) [of n c] c1 by simp_all
  ultimately show ?thesis
    using r(2) s(1) c1 by (auto intro!: wf_at_child_strong)
qed

lemma decode_loop_wf: "keeps_wf (decode_loop bs e) p c"
proof (induction bs e p c rule: decode_loop.induct)
  case (1 bs e p c)
  obtain n p1 where s: "scan_until VALUE_DELIM bs e p [] = (n, p1)"
    by (cases "scan_until VALUE_DELIM bs e p []")
  show ?case
    unfolding keeps_wf_def
  proof (intro allI impI)
    fix q d
    assume wf: "wf_cont c" and r: "decode_loop bs e p c = Inr (q, d)"
    show "wf_cont d \<and> cont_name d = cont_name c"
    proof (cases "p < e \<and> bs ! p \<noteq> SEQ_END")
      case False
      then show ?thesis
        using r wf by (subst (asm) decode_loop.simps) (auto split: if_splits)
    next
      case True
      obtain p2 c2 where v: "decode_value bs e (decode_loop bs e) n (p1 + 1) c = Inr (p2, c2)"
        and go: "p1 < e" "bs ! p1 = VALUE_DELIM" "p2 < e" "bs ! p2 = FIELD_DELIM"
          "decode_loop bs e (p2 + 1) c2 = Inr (q, d)"
        using True r s by (subst (asm) decode_loop.simps) (auto split: if_splits)
      have "wf_cont c2 \<and> cont_name c2 = cont_name c"
        by (rule decode_value_wf [OF v wf]) (use 1(1) [of _ n p1] True s go in force)
      moreover have "keeps_wf (decode_loop bs e) (p2 + 1) c2"
        using 1(2) [of _ n p1 _ p2 c2] True s go v by auto
      ultimately show ?thesis
        using go(5) by (auto simp: keeps_wf_def)
    qed
  qed
qed

text \<open>
  The one access outside the input: the byte after a \<^verbatim>\<open>=\<close> that ends the message and the
  input.
\<close>

definition bad_read :: "string \<Rightarrow> nat \<Rightarrow> bool" where
  "bad_read bs e \<longleftrightarrow> 0 < e \<and> e = length bs \<and> bs ! (e - 1) = VALUE_DELIM"

lemma decode_value_defined:
  assumes v: "decode_value bs e rec n p c = Inl (UndefinedAccess w)" and wf: "wf_cont c"
    and rec: "\<And>s. nth_opt bs p = Some SEQ_START \<Longrightarrow>
      child_at (fst (put_child n c)) (snd (put_child n c)) = Some s \<Longrightarrow> wf_cont s \<Longrightarrow>
      rec (p + 1) s = Inl (UndefinedAccess w) \<Longrightarrow> P"
    and out: "length bs \<le> p \<Longrightarrow> P"
  shows P
proof (cases "nth_opt bs p")
  case None
  then show ?thesis using out by (simp add: nth_opt_def split: if_splits)
next
  case (Some ch)
  obtain s where s: "child_at (fst (put_child n c)) (snd (put_child n c)) = Some s" "wf_cont s"
    using put_child_fresh_at [OF wf] by blast
  have "ch = SEQ_START \<and> rec (p + 1) s = Inl (UndefinedAccess w)"
    using v Some s(1) by (auto simp: decode_value_def bindR_def split: if_splits prod.splits sum.splits)
  then show ?thesis
    using rec s Some by simp
qed

lemma decode_loop_defined:
  "wf_cont c \<Longrightarrow> e \<le> length bs \<Longrightarrow> decode_loop bs e p c = Inl (UndefinedAccess w) \<Longrightarrow> bad_read bs e"
proof (induction bs e p c rule: decode_loop.induct)
  case (1 bs e p c)
  obtain n p1 where s: "scan_until VALUE_DELIM bs e p [] = (n, p1)"
    by (cases "scan_until VALUE_DELIM bs e p []")
  have True: "p < e" "bs ! p \<noteq> SEQ_END"
    using 1(5) by (auto simp: decode_loop.simps [of bs e p c] split: if_splits)
  have go: "p1 < e" "bs ! p1 = VALUE_DELIM"
    using True 1(5) s by (auto simp: decode_loop.simps [of bs e p c] split: if_splits)
  show ?case
  proof (cases "decode_value bs e (decode_loop bs e) n (p1 + 1) c")
    case (Inl x)
    then have "decode_value bs e (decode_loop bs e) n (p1 + 1) c = Inl (UndefinedAccess w)"
      using True go 1(5) s by (subst (asm) decode_loop.simps) simp
    then show ?thesis
    proof (rule decode_value_defined [OF _ 1(3)])
      assume "length bs \<le> p1 + 1"
      with go 1(4) have "e = length bs" "e - 1 = p1" "0 < e"
        by simp_all
      with go show ?thesis by (simp add: bad_read_def)
    qed (use 1(1) [of _ n p1] 1(4) True s go in force)
  next
    case (Inr x)
    obtain p2 c2 where x: "x = (p2, c2)" by (cases x)
    have v: "decode_value bs e (decode_loop bs e) n (p1 + 1) c = Inr (p2, c2)"
      using Inr x by simp
    have rest: "p2 < e" "bs ! p2 = FIELD_DELIM" "decode_loop bs e (p2 + 1) c2 = Inl (UndefinedAccess w)"
      using True go 1(5) s v by (auto simp: decode_loop.simps [of bs e p c] split: if_splits)
    have "wf_cont c2"
      using decode_value_wf [OF v 1(3)] decode_loop_wf by blast
    then show ?thesis
      using 1(2) [OF True refl s [symmetric] _ _ v refl] go rest 1(4) by simp
  qed
qed

lemma scan_msglen_bounds:
  "scan_msglen bs e p m = Inr (L, q) \<Longrightarrow> m \<le> max_msglen \<Longrightarrow> L \<le> max_msglen \<and> p \<le> q"
proof (induction bs e p m rule: scan_msglen.induct)
  case (1 bs e p m)
  show ?case
  proof (cases "p < e \<and> is_digit (bs ! p)")
    case False
    then show ?thesis using 1(2,3) scan_msglen_stop [OF False, of m] by simp
  next
    case True
    let ?m = "m * 10 + of_char (bs ! p) mod 16"
    have "?m \<le> max_msglen" "scan_msglen bs e (p + 1) ?m = Inr (L, q)"
      using 1(2) True by (auto simp: scan_msglen.simps [of bs e p m] Let_def split: if_splits)
    then show ?thesis
      using 1(1) [OF True refl] by simp
  qed
qed

lemma scan_msglen_defined: "scan_msglen bs e p m \<noteq> Inl (UndefinedAccess w)"
proof (induction bs e p m rule: scan_msglen.induct)
  case (1 bs e p m)
  then show ?case
    by (auto simp: scan_msglen.simps [of bs e p m] Let_def)
qed

lemma wf_reset [simp]: "wf_cont (set_cont_name vs (reset_msg msg))"
  by (simp add: reset_msg_def clear_container_def)

text \<open>The three ways \<open>decodeMsg\<close> returns: no message yet, a decoded one, or a skipped one.\<close>

lemma decodeMsg_cases:
  assumes "decodeMsg old bs = Inr (m, n)"
  obtains "n = 0" "m = old"
  | p vs q where "n \<le> length bs" "n \<le> max_msglen" "decode_from bs n p (set_cont_name vs (reset_msg old)) = Inr (q, m)"
    "m_items (reset_msg old) = []"
  | "n \<le> length bs" "n \<le> max_msglen" "m = old" "\<not> sam_ver_supported bs"
  using assms
  by (auto simp: decodeMsg_def Let_def reset_msg_def clear_container_def
      dest!: scan_msglen_bounds split: if_splits prod.splits)

lemma decodeMsg_undefined:
  assumes "decodeMsg old bs = Inl (UndefinedAccess w)"
  obtains L p vs where "L \<le> length bs" "decode_from bs L p (set_cont_name vs (reset_msg old)) = Inl (UndefinedAccess w)"
proof (cases "scan_msglen bs (length bs) sam_head_len 0")
  case (Inl x)
  with assms scan_msglen_defined [of bs "length bs" sam_head_len 0 w] show thesis
    by (auto simp: decodeMsg_def Let_def split: if_splits)
next
  case (Inr x)
  obtain L p where x: "x = (L, p)" by (cases x)
  obtain vs q where s: "scan_until META_DELIM bs L (p + 1) [] = (vs, q)"
    by (cases "scan_until META_DELIM bs L (p + 1) []")
  have "L \<le> length bs" "bindR (decode_from bs L (q + 1) (set_cont_name vs (reset_msg old)))
      (\<lambda>(q, root). Inr (root, L)) = Inl (UndefinedAccess w)"
    using assms Inr x s by (auto simp: decodeMsg_def Let_def split: if_splits)
  then show thesis
    using that [of L "q + 1" vs] by (auto simp: bindR_def split: sum.splits prod.splits)
qed

text \<open>Evaluation of the decoder on concrete bytes.\<close>

lemmas decode_eval = decodeMsg_def Let_def sam_head_len_def scan_msglen.simps is_digit_def
  sam_ver_supported_def scan_until.simps decode_from_def decode_loop.simps decode_value_def
  nth_opt_def reset_msg_def clear_container_def new_container_def

end
