(* ===== verification/Sam_Format.thy ===== *)
theory Sam_Format
  imports Sam_Laws
begin

text \<open>
  Text forms: \<^verbatim>\<open>utils.cc\<close> (tokenising, integer and time formatting), the textual form of
  qualified names (\<^verbatim>\<open>qname::parse\<close>, \<^verbatim>\<open>qname::to_string\<close>) and the \<^verbatim>\<open>MessageFormatter\<close>
  of \<^verbatim>\<open>sam.cc\<close> that prints messages for people.
\<close>

section \<open>Utilities\<close>

text \<open>
  A C string argument: \<open>None\<close> is the null pointer, and the characters seen are those before
  the first NUL.
\<close>

definition c_str :: "string \<Rightarrow> string" where
  "c_str s = takeWhile (\<lambda>c. c \<noteq> CHR 0x00) s"

function tokenize_loop :: "char \<Rightarrow> bool \<Rightarrow> string \<Rightarrow> string list" where
  "tokenize_loop delim want_empty_tokens src =
     (let tok = takeWhile (\<lambda>c. c \<noteq> delim) src;
          tokens = (if tok \<noteq> [] \<or> want_empty_tokens then [tok] else [])
      in case dropWhile (\<lambda>c. c \<noteq> delim) src of
           [] \<Rightarrow> tokens
         | d # src' \<Rightarrow> tokens @ tokenize_loop delim want_empty_tokens src')"
  by pat_completeness auto
termination
proof (relation "measure (\<lambda>(d, w, s). length s)")
  fix delim :: char and w :: bool and src tok tokens d src'
  assume "dropWhile (\<lambda>c. c \<noteq> delim) src = d # src'"
  then show "((delim, w, src'), (delim, w, src)) \<in> measure (\<lambda>(d, w, s). length s)"
    using length_dropWhile_le [of "\<lambda>c. c \<noteq> delim" src] by simp
qed simp

declare tokenize_loop.simps [simp del]

definition tokenize :: "string option \<Rightarrow> char \<Rightarrow> bool \<Rightarrow> string list" where
  "tokenize src delim want_empty_tokens =
     (case src of
        None \<Rightarrow> []
      | Some s \<Rightarrow> if c_str s \<noteq> [] then tokenize_loop delim want_empty_tokens (c_str s) else [])"

definition to_str :: "int \<Rightarrow> string" where
  "to_str i = dec_int i"

text \<open>The fields of \<^verbatim>\<open>struct tm\<close> the code prints, as \<^verbatim>\<open>localtime_r\<close> fills them.\<close>

record tm =
  tm_year :: nat
  tm_mon :: nat
  tm_mday :: nat
  tm_hour :: nat
  tm_min :: nat
  tm_sec :: nat

definition setw2 :: "nat \<Rightarrow> string" where
  "setw2 n = replicate (2 - length (dec n)) (CHR ''0'') @ dec n"

definition datetimestamp :: "tm \<Rightarrow> string" where
  "datetimestamp t =
     dec (tm_year t + 1900) @ ''/'' @ setw2 (tm_mon t + 1) @ ''/'' @ setw2 (tm_mday t) @ ''-'' @
     setw2 (tm_hour t) @ '':'' @ setw2 (tm_min t) @ '':'' @ setw2 (tm_sec t)"

definition qname_parse :: "string option \<Rightarrow> string list" where
  "qname_parse src = tokenize src (CHR ''.'') False"

section \<open>MessageFormatter\<close>

record MessageFormatter =
  m_depth :: int
  m_indent_str :: string
  m_inline :: bool

definition new_MessageFormatter :: "bool \<Rightarrow> MessageFormatter" where
  "new_MessageFormatter b = \<lparr>m_depth = 0, m_indent_str = [], m_inline = b\<rparr>"

definition fmt_newline :: "MessageFormatter \<Rightarrow> string" where
  "fmt_newline f = (if m_inline f then [] else [CHR 0x0A])"

definition indent_incr :: "MessageFormatter \<Rightarrow> MessageFormatter" where
  "indent_incr f =
     (if m_inline f then f
      else let d = m_depth f + 1
           in f\<lparr>m_depth := d, m_indent_str := replicate (nat (2 * d)) (CHR '' '')\<rparr>)"

definition indent_decr :: "MessageFormatter \<Rightarrow> MessageFormatter" where
  "indent_decr f =
     (if m_inline f then f
      else let d = m_depth f - 1
           in f\<lparr>m_depth := d, m_indent_str := replicate (nat (2 * d)) (CHR '' '')\<rparr>)"

text \<open>The formatter after the call and what was written to the stream.\<close>

fun format_contents :: "txContainer \<Rightarrow> MessageFormatter \<Rightarrow> MessageFormatter \<times> string"
and format_items :: "bool \<Rightarrow> txItem list \<Rightarrow> MessageFormatter \<Rightarrow> MessageFormatter \<times> string" where
  "format_contents (TxContainer nm its fm cm) f =
     (let (f1, os) = format_items True its (indent_incr f) in (indent_decr f1, os))"
| "format_items first [] f = (f, [])"
| "format_items first (ItemCont c # its) f =
     (let sep = (if first then [] else '', '') @ fmt_newline f;
          head = m_indent_str f @ cont_name c @ ''='' @ fmt_newline f @ m_indent_str f @ ''['';
          (f1, body) = format_contents c f;
          tail = fmt_newline f1 @ m_indent_str f1 @ '']'';
          (f2, rest) = format_items False its f1
      in (f2, sep @ head @ body @ tail @ rest))"
| "format_items first (ItemField fld # its) f =
     (let sep = (if first then [] else '', '') @ fmt_newline f;
          item = m_indent_str f @ field_name fld @ ''='' @ field_value fld;
          (f1, rest) = format_items False its f
      in (f1, sep @ item @ rest))"

definition format_msg :: "txContainer \<Rightarrow> MessageFormatter \<Rightarrow> MessageFormatter \<times> string" where
  "format_msg msg f =
     (let f = f\<lparr>m_indent_str := []\<rparr>;
          (f1, body) = format_contents msg f
      in (f1, cont_name msg @ '':'' @ fmt_newline f @ ''['' @ body @ fmt_newline f1 @ '']''))"

section \<open>Laws\<close>

lemma tokenize_loop_token:
  "delim \<notin> set t \<Longrightarrow>
   tokenize_loop delim w (t @ delim # s) = (if t \<noteq> [] \<or> w then [t] else []) @ tokenize_loop delim w s"
  by (subst tokenize_loop.simps) (simp add: Let_def takeWhile_append dropWhile_append)

lemma tokenize_loop_last:
  "delim \<notin> set t \<Longrightarrow> tokenize_loop delim w t = (if t \<noteq> [] \<or> w then [t] else [])"
proof -
  assume "delim \<notin> set t"
  then have "takeWhile (\<lambda>c. c \<noteq> delim) t = t" "dropWhile (\<lambda>c. c \<noteq> delim) t = []"
    by (simp_all only: takeWhile_eq_all_conv dropWhile_eq_Nil_conv) auto
  then show ?thesis by (subst tokenize_loop.simps) (simp only: Let_def list.case)
qed

definition clean_part :: "string \<Rightarrow> bool" where
  "clean_part t \<longleftrightarrow> t \<noteq> [] \<and> CHR ''.'' \<notin> set t \<and> CHR 0x00 \<notin> set t"

lemma qname_string_tokens:
  "list_all clean_part qn \<Longrightarrow> qn \<noteq> [] \<Longrightarrow> tokenize_loop (CHR ''.'') False (qname_to_string qn) = qn"
  by (induction qn rule: qname_to_string.induct)
    (auto simp: tokenize_loop_token tokenize_loop_last clean_part_def)

lemma qname_string_chars: "list_all clean_part qn \<Longrightarrow> CHR 0x00 \<notin> set (qname_to_string qn)"
  by (induction qn rule: qname_to_string.induct) (auto simp: clean_part_def)

lemma qname_string_nonempty: "list_all clean_part qn \<Longrightarrow> qname_to_string qn = [] \<longleftrightarrow> qn = []"
  by (induction qn rule: qname_to_string.induct) (auto simp: clean_part_def)

text \<open>Every token list has no delimiter in it, and without empty tokens none is empty.\<close>

lemma tokenize_loop_tokens:
  "t \<in> set (tokenize_loop delim w s) \<Longrightarrow> delim \<notin> set t \<and> (w \<or> t \<noteq> [])"
proof (induction delim w s rule: tokenize_loop.induct)
  case (1 delim w s)
  have "t \<in> set (if takeWhile (\<lambda>c. c \<noteq> delim) s \<noteq> [] \<or> w then [takeWhile (\<lambda>c. c \<noteq> delim) s] else []) \<or>
      (\<exists>d s'. dropWhile (\<lambda>c. c \<noteq> delim) s = d # s' \<and> t \<in> set (tokenize_loop delim w s'))"
    using 1(2) by (simp only: tokenize_loop.simps [of delim w s] Let_def) (auto split: list.splits)
  then show ?case
    using 1(1) by (auto dest: set_takeWhileD split: if_splits)
qed

text \<open>The indentation after a container is what it was before it.\<close>

definition fmt_ok :: "MessageFormatter \<Rightarrow> bool" where
  "fmt_ok f \<longleftrightarrow> m_inline f \<or> m_indent_str f = replicate (nat (2 * m_depth f)) (CHR '' '')"

lemma indent_incr_decr: "fmt_ok f \<Longrightarrow> indent_decr (indent_incr f) = f"
  by (cases f) (auto simp: indent_incr_def indent_decr_def fmt_ok_def Let_def)

lemma fmt_ok_incr: "fmt_ok f \<Longrightarrow> fmt_ok (indent_incr f)"
  by (auto simp: indent_incr_def fmt_ok_def Let_def)

lemma format_restores:
  "fmt_ok f \<Longrightarrow> fst (format_contents c f) = f"
  "fmt_ok f \<Longrightarrow> fst (format_items b its f) = f"
  by (induction c f and b its f rule: format_contents_format_items.induct)
    (auto simp: Let_def indent_incr_decr fmt_ok_incr split: prod.splits)

text \<open>The inline form as a function of the container.\<close>

fun inline_text :: "bool \<Rightarrow> txItem list \<Rightarrow> string" where
  "inline_text first [] = []"
| "inline_text first (ItemCont (TxContainer nm sub fm cm) # its) =
     (if first then [] else '', '') @ nm @ ''=['' @ inline_text True sub @ '']'' @ inline_text False its"
| "inline_text first (ItemField f # its) =
     (if first then [] else '', '') @ field_name f @ ''='' @ field_value f @ inline_text False its"

lemma format_inline:
  "m_inline f \<Longrightarrow> m_indent_str f = [] \<Longrightarrow> snd (format_contents c f) = inline_text True (m_items c)"
  "m_inline f \<Longrightarrow> m_indent_str f = [] \<Longrightarrow> snd (format_items b its f) = inline_text b its"
proof (induction c f and b its f rule: format_contents_format_items.induct)
  case (1 nm its fm cm f)
  then show ?case
    by (auto simp: indent_incr_def split: prod.splits)
next
  case (3 b c its f)
  have "fst (format_contents c f) = f"
    using 3 by (intro format_restores) (simp add: fmt_ok_def)
  with 3 show ?case
    by (cases c) (auto simp: Let_def fmt_newline_def split: prod.splits)
qed (auto simp: Let_def fmt_newline_def split: prod.splits)

end
