(* ===== verification/Sam_Theorems.thy ===== *)
theory Sam_Theorems
  imports Sam_Roundtrip Sam_Format
begin

text \<open>
  The properties of the SAM message layer: containers and qualified names, the encoding
  buffer, and the wire protocol, each with an application at a concrete message.
\<close>

definition sample_msg :: txContainer where
  "sample_msg =
     put_field_q [''head'', ''reqid''] ''7''
       (put_field_q [''body'', ''text''] [CHR ''a'', CHR ''='', CHR '','', CHR 0x5C, CHR ''['']
          (put_field ''x'' '''' (new_container ''request'')))"

lemma sample_body: "enc_body sample_msg =
   '':request:[x=,body=[text=a'' @ [CHR 0x5C, CHR ''='', CHR 0x5C, CHR '','', CHR 0x5C, CHR 0x5C, CHR 0x5C, CHR ''[''] @
   '',],head=[reqid=7,],]}'' @ [CHR 0x0A]"
  by code_simp

lemma sample_ok: "wf_cont sample_msg" "clean_cont sample_msg" "clean_type (cont_name sample_msg)"
  by code_simp+

lemma sample_wire_len: "wire_len sample_msg = 66"
  by code_simp

text \<open>
  C1. Round trip.  A well-formed message whose names need no escaping, short enough for the
  decoder's limit and for the allocator, is encoded into a fresh buffer, and decoding the
  bytes of that buffer, whatever follows them in the stream and whatever the receiving
  message held before, gives the message back and consumes exactly its bytes.
\<close>

theorem sam_roundtrip:
  assumes "wf_cont msg" "clean_cont msg" "clean_type (cont_name msg)"
    and "wire_len msg \<le> max_msglen" "length (enc_body msg) \<le> dyn_cap lim"
  shows "\<exists>sb n. encodeMsg lim msg (new_DynamicSamBuffer r) = Inr (sb, n) \<and>
    n = length (msg_bytes sb) \<and> decodeMsg old (msg_bytes sb @ rest) = Inr (msg, n)"
proof -
  have small: "length (enc_body msg) + 30 < 2 ^ 32"
    using assms(4) wire_len_ge [of msg] by simp
  obtain sb where sb: "encodeMsg lim msg (new_DynamicSamBuffer r) = Inr (sb, wire_len msg)"
    "msg_bytes sb = wire msg"
    using encodeMsg_wire [OF assms(5) small] .
  then show ?thesis
    using decodeMsg_wire [OF assms(1-4) length_wire [OF small] refl, of old rest] length_wire [OF small]
    by simp
qed

theorem sam_roundtrip_witness:
  "\<exists>sb n. encodeMsg 1000000 sample_msg (new_DynamicSamBuffer 512) = Inr (sb, n) \<and>
    n = length (msg_bytes sb) \<and>
    decodeMsg (new_container ''old'') (msg_bytes sb @ ''{SAM'') = Inr (sample_msg, n)"
  by (rule sam_roundtrip)
    (use sample_ok in \<open>simp_all add: sample_wire_len sample_body dyn_cap_def\<close>)

text \<open>
  C16. Framing.  As long as only part of an encoded message has arrived, the decoder asks for
  more input: it consumes nothing, leaves the receiving message alone and raises no error.
\<close>

theorem sam_prefix_incomplete:
  assumes "wire_len msg \<le> max_msglen" "length (enc_body msg) \<le> dyn_cap lim"
    "encodeMsg lim msg (new_DynamicSamBuffer r) = Inr (sb, n)" "k < n"
  shows "decodeMsg old (take k (msg_bytes sb)) = Inr (old, 0)"
proof -
  have small: "length (enc_body msg) + 30 < 2 ^ 32"
    using assms(1) wire_len_ge [of msg] by simp
  have "msg_bytes sb = wire msg" "n = wire_len msg"
    using encodeMsg_wire [OF assms(2) small, of r] assms(3) by auto
  then show ?thesis
    using decodeMsg_prefix [OF assms(1) length_wire [OF small]] assms(4) length_wire [OF small] by simp
qed

theorem sam_prefix_incomplete_witness:
  "\<exists>sb. encodeMsg 1000000 sample_msg (new_DynamicSamBuffer 512) = Inr (sb, 66) \<and>
    decodeMsg (new_container ''old'') (take 65 (msg_bytes sb)) = Inr (new_container ''old'', 0)"
proof -
  obtain sb where sb: "encodeMsg 1000000 sample_msg (new_DynamicSamBuffer 512) = Inr (sb, wire_len sample_msg)"
    using encodeMsg_wire [of sample_msg 1000000 512] by (auto simp: sample_body dyn_cap_def)
  then have "decodeMsg (new_container ''old'') (take 65 (msg_bytes sb)) = Inr (new_container ''old'', 0)"
    using sam_prefix_incomplete [OF _ _ sb, of 65 "new_container ''old''"]
    by (simp add: sample_wire_len sample_body dyn_cap_def)
  with sb show ?thesis
    by (auto simp: sample_wire_len)
qed

text \<open>
  C17. Decoder safety.  On any bytes, a returning decoder has consumed no more than was there
  and no more than the protocol's maximum, and the message it leaves satisfies the container
  invariant.
\<close>

theorem decode_consumed:
  assumes "decodeMsg old bs = Inr (m, n)" "wf_cont old"
  shows "n \<le> length bs \<and> n \<le> max_msglen \<and> wf_cont m"
  using assms(1)
proof (cases rule: decodeMsg_cases)
  case (2 p vs q)
  then show ?thesis
    using decode_loop_wf [of bs n "p + 1" "set_cont_name vs (reset_msg old)"]
    by (auto simp: keeps_wf_def decode_from_def)
qed (use assms(2) in auto)

theorem decode_consumed_witness:
  "decodeMsg (new_container '''') ''{SAM0100:17:t:[]}'' = Inr (new_container ''t'', 17) \<and>
   (17::nat) \<le> max_msglen \<and> wf_cont (new_container ''t'')"
proof -
  have "decodeMsg (new_container '''') ''{SAM0100:17:t:[]}'' = Inr (new_container ''t'', 17)"
    by (simp add: decode_eval)
  with decode_consumed [OF this] show ?thesis by simp
qed



text \<open>
  C34. What the encoder puts on the wire.  The header carries the total length of the message
  in decimal, and the version tag that goes with it: the legacy tag up to 99999 bytes.  The
  buffer's constructor argument has no influence.
\<close>

theorem encode_layout:
  assumes "length (enc_body msg) \<le> dyn_cap lim" "length (enc_body msg) + 30 < 2 ^ 32"
  shows "\<exists>sb n. encodeMsg lim msg (new_DynamicSamBuffer r) = Inr (sb, n) \<and> length (msg_bytes sb) = n \<and>
    msg_bytes sb = MSG_START # (if n \<le> MAX_MSG_LEN then SAM0100 else SAM0101) @ META_DELIM #
      dec n @ enc_body msg"
proof -
  obtain sb where "encodeMsg lim msg (new_DynamicSamBuffer r) = Inr (sb, wire_len msg)"
    "msg_bytes sb = wire msg"
    using encodeMsg_wire [OF assms] .
  then show ?thesis
    using length_wire [OF assms(2)] by (auto simp: wire_def sam_header_def)
qed

theorem encode_layout_witness:
  "\<exists>sb n. encodeMsg 1000000 sample_msg (new_DynamicSamBuffer 0) = Inr (sb, n) \<and> length (msg_bytes sb) = n \<and>
    msg_bytes sb = MSG_START # (if n \<le> MAX_MSG_LEN then SAM0100 else SAM0101) @ META_DELIM #
      dec n @ enc_body sample_msg"
  by (rule encode_layout) (simp_all add: sample_body dyn_cap_def)



text \<open>
  C28. Lookup after update through qualified names.  A field put at a path is found at that
  path with its value, and every other path finds what it found before.
\<close>

theorem qname_lookup:
  assumes "wf_cont c"
  shows "find_field_q (put_field_q qn v c) qn = Some (TxField (last (qn_norm qn)) v) \<and>
    (\<forall>q. qn_norm q \<noteq> qn_norm qn \<longrightarrow> find_field_q (put_field_q qn v c) q = find_field_q c q)"
  using find_put_field_q_same [OF assms] find_put_field_q_other [OF assms] by blast

theorem qname_lookup_witness:
  "find_field_q (put_field_q [''head'', ''reqid''] ''8'' sample_msg) [''head'', ''reqid''] =
     Some (TxField ''reqid'' ''8'') \<and>
   find_field_q (put_field_q [''head'', ''reqid''] ''8'' sample_msg) [''head''] =
     find_field_q sample_msg [''head'']"
  using qname_lookup [OF sample_ok(1), of "[''head'', ''reqid'']" "''8''", THEN conjunct1]
    qname_lookup [OF sample_ok(1), of "[''head'', ''reqid'']" "''8''", THEN conjunct2, THEN spec, of "[''head'']"]
  by (simp add: qn_norm_def)

text \<open>
  Merge.  Merging \<open>s\<close> into \<open>c\<close> takes every field of \<open>s\<close>, keeps the fields of \<open>c\<close> that
  \<open>s\<close> does not have, and merges children of the same name recursively; the result satisfies
  the invariant and keeps the name of \<open>c\<close>.
\<close>

theorem merge_lookup:
  assumes "wf_cont s" "wf_cont c"
  shows "wf_cont (merge s c) \<and> cont_name (merge s c) = cont_name c \<and>
    find_field (merge s c) n = (case find_field s n of None \<Rightarrow> find_field c n | Some f \<Rightarrow> Some f) \<and>
    find_child (merge s c) n =
      (case find_child s n of None \<Rightarrow> find_child c n
       | Some d \<Rightarrow> Some (case find_child c n of None \<Rightarrow> d | Some e \<Rightarrow> merge d e))"
  using assms by (simp add: wf_merge find_field_merge find_child_merge)

theorem merge_lookup_witness:
  "wf_cont (merge sample_msg (put_field ''y'' ''1'' (new_container ''m''))) \<and>
   find_field (merge sample_msg (put_field ''y'' ''1'' (new_container ''m''))) ''y'' = Some (TxField ''y'' ''1'') \<and>
   find_field (merge sample_msg (put_field ''y'' ''1'' (new_container ''m''))) ''x'' = Some (TxField ''x'' '''')"
proof -
  have c: "wf_cont (put_field ''y'' ''1'' (new_container ''m''))" by code_simp
  have f: "find_field sample_msg ''y'' = None" "find_field sample_msg ''x'' = Some (TxField ''x'' '''')"
    "find_field (put_field ''y'' ''1'' (new_container ''m'')) ''y'' = Some (TxField ''y'' ''1'')"
    by code_simp+
  show ?thesis
    using merge_lookup [OF sample_ok(1) c, of "''y''"] merge_lookup [OF sample_ok(1) c, of "''x''"] f
    by simp
qed



text \<open>
  Growth of the encoding buffer.  While the allocator can double the buffer an append
  succeeds, extends the message by exactly the bytes given, keeps the pointers inside the
  vector, and leaves it no larger than twice what is in use, or as it was.
\<close>

theorem append_grows:
  assumes "dyn_open b" "msg_size b + length s \<le> dyn_cap lim" "0 < length s"
  shows "\<exists>b'. append_str lim s b = Inr b' \<and> dyn_open b' \<and> msg_bytes b' = msg_bytes b @ s \<and>
    (length (m_buf b') = length (m_buf b) \<or> length (m_buf b') \<le> 2 * m_wptr b')"
proof -
  obtain b' where b': "append_str lim s b = Inr b'" "dyn_open b'" "msg_bytes b' = msg_bytes b @ s"
    using dyn.writes_result [OF dyn.writes_str assms(1), of s lim] assms
    by (auto simp: length_msg_bytes dyn_open_def)
  moreover have "length (m_buf b') = length (m_buf b) \<or> length (m_buf b') \<le> 2 * m_wptr b'"
    using append_str_size [OF b'(1)] assms(1) by (simp add: dyn_open_def)
  ultimately show ?thesis by blast
qed

theorem append_grows_witness:
  "\<exists>b'. append_str 1000 ''abcdef'' (new_DynamicSamBuffer 3) = Inr b' \<and> msg_bytes b' = ''abcdef'' \<and>
    length (m_buf b') \<le> 212"
proof -
  obtain b' where "append_str 1000 ''abcdef'' (new_DynamicSamBuffer 3) = Inr b'" "dyn_open b'"
    "msg_bytes b' = ''abcdef''"
    "length (m_buf b') = length (m_buf (new_DynamicSamBuffer 3)) \<or> length (m_buf b') \<le> 2 * m_wptr b'"
    using append_grows [OF dyn_open_new, of 3 "''abcdef''" 1000]
    by (auto simp: dyn_cap_def)
  moreover from this have "m_wptr b' = 106"
    using length_msg_bytes [of b'] by (simp add: dyn_open_def dyn_inv_def msg_size_def)
  ultimately show ?thesis
    by (auto simp: new_DynamicSamBuffer_def Let_def)
qed

text \<open>
  Qualified names as text.  Parsing the dotted form of a qualified name whose parts are
  non-empty and have no dot gives its parts back.
\<close>

theorem qname_roundtrip:
  assumes "list_all clean_part qn"
  shows "qname_parse (Some (qname_to_string qn)) = qn"
proof -
  have "c_str (qname_to_string qn) = qname_to_string qn"
    using qname_string_chars [OF assms] unfolding c_str_def takeWhile_eq_all_conv by metis
  then show ?thesis
    using qname_string_tokens [OF assms] qname_string_nonempty [OF assms]
    by (cases "qn = []") (simp_all add: qname_parse_def tokenize_def)
qed

theorem qname_roundtrip_witness:
  "qname_parse (Some ''head.cmd.name'') = [''head'', ''cmd'', ''name'']"
  using qname_roundtrip [of "[''head'', ''cmd'', ''name'']"] by (simp add: clean_part_def)

text \<open>
  Printing.  The inline formatter prints a message on one line, items separated by
  commas and children in brackets, and a formatter comes out of a message in the state it
  went in, so that it can be used for the next one.
\<close>

theorem format_text:
  "format_msg msg (new_MessageFormatter True) =
     (new_MessageFormatter True, cont_name msg @ '':['' @ inline_text True (m_items msg) @ '']'') \<and>
   fst (format_msg msg (new_MessageFormatter False)) = new_MessageFormatter False"
proof -
  have ok: "fmt_ok (new_MessageFormatter b)" for b
    by (simp add: fmt_ok_def new_MessageFormatter_def)
  have r: "fst (format_contents msg (new_MessageFormatter b)) = new_MessageFormatter b" for b
    using format_restores(1) [OF ok] .
  have i: "snd (format_contents msg (new_MessageFormatter True)) = inline_text True (m_items msg)"
    by (intro format_inline) (simp_all add: new_MessageFormatter_def)
  have s: "new_MessageFormatter b\<lparr>m_indent_str := []\<rparr> = new_MessageFormatter b" for b
    by (simp add: new_MessageFormatter_def)
  show ?thesis
    using r [of True] r [of False] i
    by (auto simp: format_msg_def s Let_def fmt_newline_def split: prod.splits)
      (simp_all add: new_MessageFormatter_def)
qed

end
