(* ===== verification/Table_Events.thy ===== *)
theory Table_Events
  imports Sam_Protocol
begin

text \<open>
  Table events and their messages (\<^verbatim>\<open>libexio/exio/TableEvents.h\<close>,
  \<^verbatim>\<open>libexio/TableEvents.cc\<close>, \<^verbatim>\<open>libexio/TableSerialiser.cc\<close>).  The subclasses of
  \<^verbatim>\<open>TableEvent\<close> are the constructors of a datatype; a serialiser's pointer into the message
  it works on is the path of the row it fills.
\<close>

datatype TableEvent =
    TableAdded (ev_table: string)
  | TableCleared (ev_table: string)
  | NewRow (ev_table: string) string
  | RowRemoved (ev_table: string) string
  | NewColumn (ev_table: string) string
  | PCMDEvent (ev_table: string) string string txContainer
  | RowMultiUpdate (ev_table: string) string "(string, string) stdmap"

section \<open>Serialisers\<close>

definition row_0 :: string where
  "row_0 = id_row_prefix @ ''0''"

text \<open>\<^verbatim>\<open>UpdateSerialiser\<close>: the message being filled, \<^verbatim>\<open>m_row\<close> being its row \<open>row_0\<close>.\<close>

definition update_init_msg :: "string \<Rightarrow> string \<Rightarrow> txContainer \<Rightarrow> txContainer" where
  "update_init_msg table_name row_key m =
     put_child_then id_body
       (\<lambda>body. put_child_then row_0 (put_field id_row_key row_key) (put_field id_rows ''1'' body))
       (put_field_q QN_msgtype id_tableupdate
         (put_field_q QN_tablename table_name
           (set_cont_name id_tableupdate m)))"

definition add_update :: "string \<Rightarrow> string \<Rightarrow> txContainer \<Rightarrow> txContainer \<times> bool" where
  "add_update column val m =
     (put_child_then id_body (put_child_then row_0 (put_field column val)) m, True)"

definition clear_init_msg :: "string \<Rightarrow> txContainer \<Rightarrow> txContainer" where
  "clear_init_msg table_name m =
     put_field_q QN_tablename table_name
       (put_field_q QN_msgtype id_tableclear
         (set_cont_name id_tableclear m))"

section \<open>Serialisation of events\<close>

definition TableCleared_serialise :: "string \<Rightarrow> txContainer list \<Rightarrow> txContainer list" where
  "TableCleared_serialise table_name msglist = msglist @ [clear_init_msg table_name (new_container '''')]"

text \<open>The loop over the fields of a row update: \<open>m\<close> is the message at the back of the list.\<close>

fun multi_update_loop ::
  "string \<Rightarrow> string \<Rightarrow> (string \<times> string) list \<Rightarrow> txContainer list \<Rightarrow> txContainer \<Rightarrow> txContainer list res"
where
  "multi_update_loop table_name row_key [] front m = Inr (front @ [m])"
| "multi_update_loop table_name row_key ((col, val) # fs) front m =
     (let (m1, ok) = add_update col val m in
      if ok then multi_update_loop table_name row_key fs front m1
      else
        let (m2, ok2) = add_update col val (update_init_msg table_name row_key (new_container ''''))
        in if ok2 then multi_update_loop table_name row_key fs (front @ [m1]) m2
           else Inl (RuntimeError ''Field update for row is too large''))"

definition RowMultiUpdate_serialise ::
  "string \<Rightarrow> string \<Rightarrow> (string, string) stdmap \<Rightarrow> txContainer list \<Rightarrow> txContainer list res" where
  "RowMultiUpdate_serialise table_name row_key fs msglist =
     multi_update_loop table_name row_key fs msglist
       (update_init_msg table_name row_key (new_container ''''))"

definition RowRemoved_serialise :: "string \<Rightarrow> string \<Rightarrow> txContainer list \<Rightarrow> txContainer list" where
  "RowRemoved_serialise table_name rowkey msglist =
     msglist @
     [put_field_q [id_head, id_row_key] ''''
       (put_field_q QN_tablename table_name
         (put_field_q QN_msgtype id_tablerowdel
           (set_cont_name id_tablerowdel (new_container ''''))))]"

definition meta_fieldname :: "string \<Rightarrow> string" where
  "meta_fieldname column = ''.meta.'' @ column"

text \<open>The copy of the meta data put into the row is renamed through its reference.\<close>

definition put_meta :: "txContainer \<Rightarrow> string \<Rightarrow> txContainer \<Rightarrow> txContainer" where
  "put_meta meta column row =
     (let (row', i) = put_child_copy meta row in at_child i (set_cont_name (meta_fieldname column)) row')"

definition PCMDEvent_serialise ::
  "string \<Rightarrow> string \<Rightarrow> string \<Rightarrow> txContainer \<Rightarrow> txContainer list \<Rightarrow> txContainer list" where
  "PCMDEvent_serialise table_name row_key column meta msglist =
     msglist @
     [put_child_then id_body
        (\<lambda>body.
           put_child_then row_0 (put_meta meta column)
             (put_field id_rows ''1''
               (put_child_then row_0 (put_field id_row_key row_key) body)))
        (put_field_q QN_msgtype id_tableupdate
          (put_field_q QN_tablename table_name
            (set_cont_name id_tableupdate (new_container ''''))))]"

end
