(* ===== verification/Data_Table.thy ===== *)
theory Data_Table
  imports Table_Events Sam_Format
begin

text \<open>
  The monitored tables (\<^verbatim>\<open>libexio/exio/Table.h\<close>, \<^verbatim>\<open>libexio/Table.cc\<close>): rows of string
  fields with an index by row key, columns with an index, column attributes, cell meta data,
  and the subscribers.  An operation holds the table lock throughout, so it is one step.
  What it sends through \<^verbatim>\<open>AdminInterfaceImpl::send_one\<close> is returned as a list of pairs of
  session id and message, in order.  Three things come from outside the class and are
  parameters: \<open>live\<close>, the predicate \<^verbatim>\<open>session_exists\<close>; \<open>now\<close>, the local time read by the
  operation; and, in the monitor, the list of sessions.
\<close>

type_synonym SID = nat

type_synonym sends = "(SID \<times> txContainer) list"

section \<open>Rows\<close>

record DataRow =
  m_rowkey :: string
  m_row_table :: string
  m_fields :: "(string, string) stdmap"

definition new_DataRow :: "string \<Rightarrow> string \<Rightarrow> DataRow" where
  "new_DataRow rowkey table_name =
     \<lparr>m_rowkey = rowkey, m_row_table = table_name, m_fields = map_assign id_row_key rowkey []\<rparr>"

definition row_reserved :: "string \<Rightarrow> bool" where
  "row_reserved n \<longleftrightarrow> n = id_row_key \<or> n = id_row_last"

definition row_timestr :: "tm \<Rightarrow> string" where
  "row_timestr t =
     dec (tm_year t + 1900) @ ''/'' @ setw2 (tm_mon t + 1) @ ''/'' @ setw2 (tm_mday t) @ '' '' @
     setw2 (tm_hour t) @ '':'' @ setw2 (tm_min t) @ '':'' @ setw2 (tm_sec t)"

text \<open>
  The loop of \<^verbatim>\<open>update_fields\<close>: \<open>ours\<close> are the fields of the row, \<open>ev\<close> the fields of the
  event, \<open>None\<close> while no event has been created.
\<close>

fun update_fields_loop ::
  "(string \<times> string) list \<Rightarrow> (string, string) stdmap \<Rightarrow> (string, string) stdmap option \<Rightarrow>
   (string, string) stdmap \<times> (string, string) stdmap option" where
  "update_fields_loop [] ours ev = (ours, ev)"
| "update_fields_loop ((n, v) # up) ours ev =
     (if row_reserved n then update_fields_loop up ours ev
      else if map_find ours n = None \<or> map_find ours n \<noteq> Some v
      then update_fields_loop up (map_assign n v ours)
             (Some (map_assign n v (case ev of None \<Rightarrow> [] | Some e \<Rightarrow> e)))
      else update_fields_loop up ours ev)"

definition update_fields ::
  "tm \<Rightarrow> (string, string) stdmap \<Rightarrow> DataRow \<Rightarrow> DataRow \<times> TableEvent list" where
  "update_fields now up row =
     (case update_fields_loop up (m_fields row) None of
        (ours, None) \<Rightarrow> (row\<lparr>m_fields := ours\<rparr>, [])
      | (ours, Some e) \<Rightarrow>
          (row\<lparr>m_fields := map_assign id_row_last (row_timestr now) ours\<rparr>,
           [RowMultiUpdate (m_row_table row) (m_rowkey row)
              (map_assign id_row_last (row_timestr now) e)]))"

definition row_has_field :: "string \<Rightarrow> DataRow \<Rightarrow> bool" where
  "row_has_field fn row \<longleftrightarrow> map_find (m_fields row) fn \<noteq> None"

definition row_get_field :: "string \<Rightarrow> DataRow \<Rightarrow> string res" where
  "row_get_field fn row =
     (case map_find (m_fields row) fn of
        None \<Rightarrow> Inl (OutOfRange ''field not found'') | Some v \<Rightarrow> Inr v)"

definition row_copy_field :: "string \<Rightarrow> string \<Rightarrow> DataRow \<Rightarrow> string \<times> bool" where
  "row_copy_field fn dest row =
     (case map_find (m_fields row) fn of
        None \<Rightarrow> (dest, False)
      | Some v \<Rightarrow> (if dest \<noteq> v then v else dest, True))"

definition row_copy_row :: "(string, string) stdmap \<Rightarrow> DataRow \<Rightarrow> (string, string) stdmap" where
  "row_copy_row dest row = fold (\<lambda>(n, v) d. map_insert n v d) (m_fields row) dest"

definition row_clear :: "DataRow \<Rightarrow> DataRow" where
  "row_clear row = row\<lparr>m_fields := []\<rparr>"

section \<open>Message builders\<close>

definition snap_empty_msg :: txContainer where
  "snap_empty_msg =
     put_field_q QN_msgtype id_tableupdate
       (put_field_q QN_body_rows ''0''
         (put_field_q QN_tablename '''' (new_container id_tableupdate)))"

definition snap_set_table_name :: "string \<Rightarrow> txContainer \<Rightarrow> txContainer" where
  "snap_set_table_name table_name msg = put_field_q QN_tablename table_name msg"

definition fill_row :: "DataRow \<Rightarrow> (string, txContainer) stdmap option \<Rightarrow> txContainer \<Rightarrow> txContainer" where
  "fill_row datarow meta row =
     (let row1 = fold (\<lambda>(n, v) r. put_field n v r) (m_fields datarow) row in
      case meta of
        None \<Rightarrow> row1
      | Some mm \<Rightarrow> fold (\<lambda>(n, c) r. fst (put_child_copy c r)) mm row1)"

definition snap_add_row ::
  "DataRow \<Rightarrow> (string, txContainer) stdmap option \<Rightarrow> txContainer \<Rightarrow> txContainer" where
  "snap_add_row datarow meta msg =
     put_child_then id_body
       (\<lambda>body. let nrows = count_child body in
          put_field id_rows (to_str (int (nrows + 1)))
            (put_child_then (id_row_prefix @ dec nrows) (fill_row datarow meta) body))
       msg"

definition descr_init :: "string \<Rightarrow> txContainer" where
  "descr_init table_name =
     put_child_q QN_columns (put_field id_msgcount ''0'')
       (put_field_q QN_tablename table_name
         (put_field_q QN_msgtype id_tabledescr (new_container id_tabledescr)))"

definition descr_add_column ::
  "string \<Rightarrow> txContainer list option \<Rightarrow> txContainer \<Rightarrow> txContainer" where
  "descr_add_column column_name attrptr msg =
     put_child_q QN_columns
       (\<lambda>columns. let ncols = count_child columns in
          put_field id_msgcount (to_str (int (ncols + 1)))
            (put_child_then (id_msg_prefix @ dec ncols)
               (\<lambda>colcont.
                  let colcont1 = put_field id_colname column_name colcont in
                  case attrptr of
                    None \<Rightarrow> colcont1
                  | Some attrs \<Rightarrow> fold (\<lambda>a c. fst (put_child_copy a c)) attrs colcont1)
               columns))
       msg"

section \<open>Tables\<close>

record DataTable =
  m_table_name :: string
  m_columns :: "string list"
  m_column_index :: "(string, nat) stdmap"
  m_rows :: "DataRow list"
  m_row_index :: "(string, nat) stdmap"
  m_subscribers :: "SID list"
  m_column_attrs :: "(string, txContainer list) stdmap"
  m_pcmd :: "(string, (string, txContainer) stdmap) stdmap"
  m_batchsize :: int

definition new_DataTable :: "string \<Rightarrow> DataTable" where
  "new_DataTable table_name =
     \<lparr>m_table_name = table_name, m_columns = [], m_column_index = [], m_rows = [],
      m_row_index = [], m_subscribers = [], m_column_attrs = [], m_pcmd = [], m_batchsize = 500\<rparr>"

text \<open>\<open>m.clear(); for (i ...) m[key(xs[i])] = i;\<close>\<close>

definition build_index :: "string list \<Rightarrow> (string, nat) stdmap" where
  "build_index ks = fold (\<lambda>(i, k) m. map_assign k i m) (enumerate 0 ks) []"

definition nolock_has_row :: "string \<Rightarrow> DataTable \<Rightarrow> bool" where
  "nolock_has_row rowkey t \<longleftrightarrow> map_find (m_row_index t) rowkey \<noteq> None"

definition nolock_add_row :: "string \<Rightarrow> DataTable \<Rightarrow> DataTable \<times> TableEvent list" where
  "nolock_add_row rowkey t =
     (let rows = m_rows t @ [new_DataRow rowkey (m_table_name t)] in
      (t\<lparr>m_rows := rows, m_row_index := build_index (map m_rowkey rows)\<rparr>,
       [NewRow (m_table_name t) rowkey]))"

text \<open>A loop that updates every row of a vector and collects the events.\<close>

fun update_rows :: "tm \<Rightarrow> (string, string) stdmap \<Rightarrow> DataRow list \<Rightarrow> DataRow list \<times> TableEvent list" where
  "update_rows now up [] = ([], [])"
| "update_rows now up (r # rs) =
     (let (r1, e1) = update_fields now up r; (rs1, e2) = update_rows now up rs
      in (r1 # rs1, e1 @ e2))"

definition add_column_NOLOCK :: "tm \<Rightarrow> string \<Rightarrow> DataTable \<Rightarrow> DataTable \<times> TableEvent list" where
  "add_column_NOLOCK now column t =
     (if map_find (m_column_index t) column = None then
        let cols = m_columns t @ [column];
            (rows, evs) = update_rows now [(column, '''')] (m_rows t)
        in (t\<lparr>m_columns := cols, m_column_index := build_index cols, m_rows := rows\<rparr>,
            NewColumn (m_table_name t) column # evs)
      else (t, []))"

fun add_columns_loop :: "tm \<Rightarrow> string list \<Rightarrow> DataTable \<Rightarrow> DataTable \<times> TableEvent list" where
  "add_columns_loop now [] t = (t, [])"
| "add_columns_loop now (c # cs) t =
     (let (t1, e1) = add_column_NOLOCK now c t; (t2, e2) = add_columns_loop now cs t1
      in (t2, e1 @ e2))"

section \<open>Publishing\<close>

definition copy_subscribers :: "(SID \<Rightarrow> bool) \<Rightarrow> DataTable \<Rightarrow> SID list" where
  "copy_subscribers live t = filter live (m_subscribers t)"

fun serialise_event :: "TableEvent \<Rightarrow> txContainer list \<Rightarrow> txContainer list res" where
  "serialise_event (RowMultiUpdate tn rk fs) msgs = RowMultiUpdate_serialise tn rk fs msgs"
| "serialise_event (TableCleared tn) msgs = Inr (TableCleared_serialise tn msgs)"
| "serialise_event (RowRemoved tn rk) msgs = Inr (RowRemoved_serialise tn rk msgs)"
| "serialise_event (PCMDEvent tn rk col meta) msgs = Inr (PCMDEvent_serialise tn rk col meta msgs)"
| "serialise_event (TableAdded tn) msgs = Inr msgs"
| "serialise_event (NewRow tn rk) msgs = Inr msgs"
| "serialise_event (NewColumn tn col) msgs = Inr msgs"

definition nolock_publish_update :: "(SID \<Rightarrow> bool) \<Rightarrow> TableEvent list \<Rightarrow> DataTable \<Rightarrow> sends res" where
  "nolock_publish_update live evs t =
     (let subs = copy_subscribers live t in
      if subs = [] then Inr []
      else bindR (foldR serialise_event evs []) (\<lambda>msgs.
             Inr (concat (map (\<lambda>m. map (\<lambda>s. (s, m)) subs) msgs))))"

text \<open>
  What an operation ends with: the table, what was sent, and the exception that left the
  operation, if any.  The table keeps the changes made before a throw.
\<close>

type_synonym outcome = "DataTable \<times> sends \<times> exn option"

definition publish :: "(SID \<Rightarrow> bool) \<Rightarrow> TableEvent list \<Rightarrow> DataTable \<Rightarrow> outcome" where
  "publish live evs t =
     (case nolock_publish_update live evs t of
        Inl e \<Rightarrow> (t, [], Some e) | Inr out \<Rightarrow> (t, out, None))"

section \<open>Updating\<close>

text \<open>The index lookup \<^verbatim>\<open>m_row_index[rowkey]\<close> would insert position 0 for a missing key.\<close>

definition update_row ::
  "tm \<Rightarrow> (SID \<Rightarrow> bool) \<Rightarrow> string \<Rightarrow> (string, string) stdmap \<Rightarrow> DataTable \<Rightarrow> outcome" where
  "update_row now live rowkey up t =
     (let (t1, e1) = (if nolock_has_row rowkey t then (t, []) else nolock_add_row rowkey t);
          (t2, e2) = add_columns_loop now (filter (\<lambda>n. \<not> row_reserved n) (map fst up)) t1;
          t3 = t2\<lparr>m_row_index := map_insert rowkey 0 (m_row_index t2)\<rparr>
      in case map_find (m_row_index t3) rowkey of
           None \<Rightarrow> (t3, [], Some (UndefinedAccess ''row index''))
         | Some i \<Rightarrow>
             (case nth_opt (m_rows t3) i of
                None \<Rightarrow> (t3, [], Some (UndefinedAccess ''row vector''))
              | Some r \<Rightarrow>
                  let (r1, e3) = update_fields now up r;
                      t4 = t3\<lparr>m_rows := (m_rows t3)[i := r1]\<rparr>;
                      evs = e1 @ e2 @ e3
                  in if evs \<noteq> [] then publish live evs t4 else (t4, [], None)))"

definition add_columns :: "tm \<Rightarrow> (SID \<Rightarrow> bool) \<Rightarrow> string list \<Rightarrow> DataTable \<Rightarrow> outcome" where
  "add_columns now live cols t =
     (let (t1, evs) = add_columns_loop now cols t
      in if evs \<noteq> [] then publish live evs t1 else (t1, [], None))"

definition clear_table :: "(SID \<Rightarrow> bool) \<Rightarrow> DataTable \<Rightarrow> outcome" where
  "clear_table live t =
     publish live [TableCleared (m_table_name t)] (t\<lparr>m_rows := [], m_row_index := []\<rparr>)"

definition delete_row :: "(SID \<Rightarrow> bool) \<Rightarrow> string \<Rightarrow> DataTable \<Rightarrow> outcome" where
  "delete_row live rowkey t =
     (case map_find (m_row_index t) rowkey of
        None \<Rightarrow> (t, [], None)
      | Some index \<Rightarrow>
          publish live [RowRemoved (m_table_name t) rowkey]
            (t\<lparr>m_rows := take index (m_rows t) @ drop (index + 1) (m_rows t),
               m_row_index := map (\<lambda>(k, j). (k, if j > index then j - 1 else j))
                                (map_erase rowkey (m_row_index t))\<rparr>))"

definition add_column_attr :: "string \<Rightarrow> txContainer \<Rightarrow> DataTable \<Rightarrow> DataTable" where
  "add_column_attr column attr t =
     (case map_find (m_column_attrs t) column of
        Some attrs \<Rightarrow> t\<lparr>m_column_attrs := map_assign column (attrs @ [attr]) (m_column_attrs t)\<rparr>
      | None \<Rightarrow> t\<lparr>m_column_attrs := map_assign column [attr] (m_column_attrs t)\<rparr>)"

definition update_meta ::
  "(SID \<Rightarrow> bool) \<Rightarrow> string \<Rightarrow> string \<Rightarrow> txContainer \<Rightarrow> DataTable \<Rightarrow> outcome" where
  "update_meta live rowkey fieldname meta t =
     (let metaForCol = (case map_find (m_pcmd t) rowkey of None \<Rightarrow> [] | Some mm \<Rightarrow> mm);
          cell = (case map_find metaForCol fieldname of None \<Rightarrow> new_container '''' | Some c \<Rightarrow> c);
          metaForCol = map_assign fieldname
            (set_cont_name (meta_fieldname fieldname) (assign_container meta cell)) metaForCol
      in publish live [PCMDEvent (m_table_name t) rowkey fieldname (copy_container meta)]
           (t\<lparr>m_pcmd := map_assign rowkey metaForCol (m_pcmd t)\<rparr>))"

section \<open>Reading\<close>

definition get_row_field :: "string \<Rightarrow> string \<Rightarrow> DataTable \<Rightarrow> string res" where
  "get_row_field rowkey column t =
     (case map_find (m_row_index t) rowkey of
        None \<Rightarrow> Inl (OutOfRange ''row not found'')
      | Some i \<Rightarrow>
          (case nth_opt (m_rows t) i of
             None \<Rightarrow> Inl (UndefinedAccess ''row vector'') | Some r \<Rightarrow> row_get_field column r))"

definition get_rowkeys :: "DataTable \<Rightarrow> string list" where
  "get_rowkeys t = map m_rowkey (m_rows t)"

definition has_row :: "string \<Rightarrow> DataTable \<Rightarrow> bool" where
  "has_row rowkey t = nolock_has_row rowkey t"

definition get_column_count :: "DataTable \<Rightarrow> nat" where
  "get_column_count t = length (m_columns t)"

definition get_row_count :: "DataTable \<Rightarrow> nat" where
  "get_row_count t = length (m_rows t)"

definition table_subscribers :: "DataTable \<Rightarrow> SID list" where
  "table_subscribers t = m_subscribers t"

definition table_copy_field :: "string \<Rightarrow> string \<Rightarrow> string \<Rightarrow> DataTable \<Rightarrow> (string \<times> bool) res" where
  "table_copy_field rowkey fn dest t =
     (case map_find (m_row_index t) rowkey of
        None \<Rightarrow> Inr (dest, False)
      | Some i \<Rightarrow>
          (case nth_opt (m_rows t) i of
             None \<Rightarrow> Inl (UndefinedAccess ''row vector'') | Some r \<Rightarrow> Inr (row_copy_field fn dest r)))"

definition table_copy_table ::
  "(string, (string, string) stdmap) stdmap \<Rightarrow> DataTable \<Rightarrow> (string, (string, string) stdmap) stdmap"
where
  "table_copy_table dest t =
     fold (\<lambda>r d. map_assign (m_rowkey r)
              (row_copy_row (case map_find d (m_rowkey r) of None \<Rightarrow> [] | Some x \<Rightarrow> x) r) d)
       (m_rows t) dest"

definition table_copy_table2 :: "string list list \<Rightarrow> DataTable \<Rightarrow> string list \<times> string list list" where
  "table_copy_table2 rows t =
     (m_columns t,
      rows @ map (\<lambda>r. map (\<lambda>c. fst (row_copy_field c '''' r)) (m_columns t)) (m_rows t))"

definition table_copy_row ::
  "string \<Rightarrow> (string, string) stdmap \<Rightarrow> DataTable \<Rightarrow> (string, string) stdmap res" where
  "table_copy_row rowkey dest t =
     (case map_find (m_row_index t) rowkey of
        None \<Rightarrow> Inr dest
      | Some i \<Rightarrow>
          (case nth_opt (m_rows t) i of
             None \<Rightarrow> Inl (UndefinedAccess ''row vector'') | Some r \<Rightarrow> Inr (row_copy_row dest r)))"

definition table_copy_rowkeys :: "string list \<Rightarrow> DataTable \<Rightarrow> string list" where
  "table_copy_rowkeys dest t = dest @ map m_rowkey (m_rows t)"

definition table_size :: "DataTable \<Rightarrow> nat" where
  "table_size t =
     sum_list (map (\<lambda>r. sum_list (map (\<lambda>(n, v). length n + length v) (m_fields r))) (m_rows t))"

section \<open>Snapshots\<close>

definition snapshot_batch :: "DataTable \<Rightarrow> DataRow list \<Rightarrow> txContainer" where
  "snapshot_batch t rows =
     fold (\<lambda>r msg. snap_add_row r (map_find (m_pcmd t) (m_rowkey r)) msg) rows
       (snap_set_table_name (m_table_name t) snap_empty_msg)"

abbreviation room_for_snap_fields :: nat where
  "room_for_snap_fields \<equiv> 50"

text \<open>
  The loop that packs rows into messages, halving the batch until a message fits.  With a
  batch size below one the loop would queue empty messages until memory runs out.
\<close>

function snapshot_loop ::
  "DataTable \<Rightarrow> int \<Rightarrow> DataRow list \<Rightarrow> txContainer list \<Rightarrow> (txContainer list \<times> int) res" where
  "snapshot_loop t batchsize rows msgs =
     (if rows = [] then Inr (msgs, batchsize)
      else
        let msg = snapshot_batch t (take (nat batchsize) rows) in
        if check_enc_size msg room_for_snap_fields then
          if batchsize < 1 then Inl BadAlloc
          else snapshot_loop t batchsize (drop (nat batchsize) rows) (msgs @ [msg])
        else if batchsize = 1 then Inl (RuntimeError ''failed to encode snapshot'')
        else snapshot_loop t (max 1 (batchsize div 2)) rows msgs)"
  by pat_completeness auto
termination
  by (relation "measures [\<lambda>(t, b, rows, msgs). length rows,
      \<lambda>(t, b, rows, msgs). if b < 1 then 2 else nat b]") (auto simp: max_def)

declare snapshot_loop.simps [simp del]

definition snap_label :: "txContainer list \<Rightarrow> txContainer list" where
  "snap_label msgs =
     map (\<lambda>(i, m). put_field_q QN_head_snapn (to_str (int (length msgs)))
                     (put_field_q QN_head_snapi (to_str (int i)) m))
       (enumerate 0 msgs)"

definition nolock_send_snapshopt :: "SID \<Rightarrow> DataTable \<Rightarrow> outcome" where
  "nolock_send_snapshopt session t =
     (case snapshot_loop t (m_batchsize t) (m_rows t) [] of
        Inl e \<Rightarrow> (t, [], Some e)
      | Inr (msgs, batchsize) \<Rightarrow>
          (t\<lparr>m_batchsize := batchsize\<rparr>, map (Pair session) (snap_label msgs), None))"

fun snapshot_subs :: "SID list \<Rightarrow> DataTable \<Rightarrow> outcome" where
  "snapshot_subs [] t = (t, [], None)"
| "snapshot_subs (s # subs) t =
     (case nolock_send_snapshopt s t of
        (t1, out, Some e) \<Rightarrow> (t1, out, Some e)
      | (t1, out, None) \<Rightarrow> (case snapshot_subs subs t1 of (t2, out2, e) \<Rightarrow> (t2, out @ out2, e)))"

definition snapshot :: "(SID \<Rightarrow> bool) \<Rightarrow> DataTable \<Rightarrow> outcome" where
  "snapshot live t = snapshot_subs (copy_subscribers live t) t"

section \<open>Subscribing\<close>

text \<open>The known columns, in the order of the set that collects them.\<close>

definition descr_columns :: "DataTable \<Rightarrow> string list" where
  "descr_columns t =
     map fst (fold (\<lambda>c m. map_insert c () m) (m_columns t @ map fst (m_column_attrs t)) [])"

definition table_descr :: "DataTable \<Rightarrow> txContainer" where
  "table_descr t =
     fold (\<lambda>c msg. descr_add_column c (map_find (m_column_attrs t) c) msg)
       (descr_columns t) (descr_init (m_table_name t))"

definition add_subscriber :: "SID \<Rightarrow> DataTable \<Rightarrow> outcome" where
  "add_subscriber session t =
     (let t1 = t\<lparr>m_subscribers := m_subscribers t @ [session]\<rparr> in
      case nolock_send_snapshopt session t1 of
        (t2, out, e) \<Rightarrow> (t2, (session, table_descr t1) # out, e))"

definition del_subscriber :: "SID \<Rightarrow> DataTable \<Rightarrow> DataTable" where
  "del_subscriber session t = t\<lparr>m_subscribers := remove1 session (m_subscribers t)\<rparr>"

end
