(* ===== verification/Table_Laws.thy ===== *)
theory Table_Laws
  imports Data_Table Sam_Roundtrip
begin

text \<open>
  The invariant of \<^verbatim>\<open>DataTable\<close> and what its operations do.  The indexes agree with the
  vectors they index, so that a table is a finite map from row keys to rows; the messages an
  operation publishes, applied to a copy of the table, give the new table; the messages of a
  snapshot carry every row once, in order, and each of them fits into a SAM message.
\<close>

section \<open>Positions and indexes\<close>

lemma pos_of_none: "pos_of k ks = None \<longleftrightarrow> k \<notin> set ks"
  by (induction ks) auto

lemma pos_of_some: "pos_of k ks = Some i \<Longrightarrow> i < length ks \<and> ks ! i = k"
  by (induction ks arbitrary: i) (auto split: if_splits)

lemma pos_of_nth: "distinct ks \<Longrightarrow> i < length ks \<Longrightarrow> pos_of (ks ! i) ks = Some i"
proof (induction ks arbitrary: i)
  case (Cons a ks)
  then show ?case by (cases i) auto
qed simp

lemma pos_of_append:
  "pos_of k (ks @ ls) =
    (case pos_of k ks of Some i \<Rightarrow> Some i | None \<Rightarrow> map_option (\<lambda>i. length ks + i) (pos_of k ls))"
proof (induction ks)
  case Nil
  show ?case by (cases "pos_of k ls") simp_all
next
  case (Cons a ks)
  then show ?case
    by (cases "pos_of k ls") (auto split: option.splits)
qed

definition indexes :: "(string, nat) stdmap \<Rightarrow> string list \<Rightarrow> bool" where
  "indexes m ks \<longleftrightarrow> map_ok m \<and> distinct ks \<and> (\<forall>k. map_find m k = pos_of k ks)"

lemma build_index_snoc: "build_index (ks @ [k]) = map_assign k (length ks) (build_index ks)"
  by (simp add: build_index_def enumerate_append_eq)

lemma build_index_ok: "distinct ks \<Longrightarrow> indexes (build_index ks) ks"
proof (induction ks rule: rev_induct)
  case Nil
  show ?case by (simp add: indexes_def build_index_def)
next
  case (snoc k ks)
  then show ?case
    by (auto simp: indexes_def build_index_snoc map_ok_assign map_find_assign pos_of_append
        pos_of_none [symmetric] split: option.splits)
qed

lemma indexes_Nil [simp]: "indexes [] []"
  by (simp add: indexes_def)

lemma indexes_find: "indexes m ks \<Longrightarrow> map_find m k = Some i \<Longrightarrow> i < length ks \<and> ks ! i = k"
  by (rule pos_of_some) (simp add: indexes_def)

lemma indexes_nth: "indexes m ks \<Longrightarrow> i < length ks \<Longrightarrow> map_find m (ks ! i) = Some i"
  by (simp add: indexes_def pos_of_nth)

lemma indexes_none: "indexes m ks \<Longrightarrow> map_find m k = None \<longleftrightarrow> k \<notin> set ks"
  by (simp add: indexes_def pos_of_none)

text \<open>The fix-up of the positions after the removal of one entry.\<close>

lemma map_find_map_values:
  "map_find (map (\<lambda>(k, j). (k, f j)) m) k = map_option f (map_find m k)"
  by (induction m) auto

lemma map_ok_map_values: "map_ok (map (\<lambda>(k, j). (k, f j)) m) = map_ok m"
proof -
  have "map fst (map (\<lambda>(k, j). (k, f j)) m) = map fst m"
    by (induction m) auto
  then show ?thesis by (simp only: map_ok_def)
qed

lemma pos_of_removed:
  assumes "distinct ks" "i < length ks" "k \<noteq> ks ! i"
  shows "pos_of k (take i ks @ drop (i + 1) ks) =
    map_option (\<lambda>j. if j > i then j - 1 else j) (pos_of k ks)"
proof -
  have ks: "ks = take i ks @ ks ! i # drop (i + 1) ks"
    using assms(2) by (simp add: id_take_nth_drop)
  have "pos_of k ks = (case pos_of k (take i ks) of Some j \<Rightarrow> Some j
      | None \<Rightarrow> map_option (\<lambda>j. i + j) (map_option Suc (pos_of k (drop (i + 1) ks))))"
    using assms(2,3) by (subst ks, subst pos_of_append) (auto split: option.split)
  moreover have "pos_of k (take i ks @ drop (i + 1) ks) = (case pos_of k (take i ks) of Some j \<Rightarrow> Some j
      | None \<Rightarrow> map_option (\<lambda>j. i + j) (pos_of k (drop (i + 1) ks)))"
    using assms(2) by (auto simp: pos_of_append split: option.split)
  moreover have "j < i" if "pos_of k (take i ks) = Some j" for j
    using pos_of_some [OF that] by simp
  ultimately show ?thesis
    by (auto simp: option.map_comp comp_def split: option.splits)
qed

lemma indexes_delete:
  assumes "indexes m ks" "map_find m k = Some i"
  shows "indexes (map (\<lambda>(k, j). (k, if j > i then j - 1 else j)) (map_erase k m))
    (take i ks @ drop (i + 1) ks)"
proof -
  have i: "i < length ks" "ks ! i = k" "distinct ks" "map_ok m"
    using assms indexes_find [OF assms] by (auto simp: indexes_def)
  have ks: "ks = take i ks @ k # drop (i + 1) ks"
    using id_take_nth_drop [OF i(1)] i(2) by simp
  then have d: "distinct (take i ks @ k # drop (i + 1) ks)"
    using i(3) by simp
  then have "pos_of k (take i ks @ drop (i + 1) ks) = None"
    unfolding pos_of_none by auto
  then show ?thesis
    using assms i d pos_of_removed [OF i(3,1)]
    by (auto simp: indexes_def map_find_map_values map_ok_map_values map_ok_erase map_find_erase)
qed

section \<open>Rows\<close>

definition row_ok :: "string \<Rightarrow> DataRow \<Rightarrow> bool" where
  "row_ok tn r \<longleftrightarrow> map_ok (m_fields r) \<and> map_find (m_fields r) id_row_key = Some (m_rowkey r) \<and>
     m_row_table r = tn"

text \<open>The fields after an update: the non-reserved new values over the old ones.\<close>

definition over :: "(string \<Rightarrow> string option) \<Rightarrow> (string \<Rightarrow> string option) \<Rightarrow> string \<Rightarrow> string option" where
  "over new old n = (case new n of None \<Rightarrow> old n | Some v \<Rightarrow> Some v)"

definition user_fields :: "(string, string) stdmap \<Rightarrow> string \<Rightarrow> string option" where
  "user_fields up n = (if row_reserved n then None else map_find up n)"

definition changes :: "(string, string) stdmap \<Rightarrow> (string, string) stdmap \<Rightarrow> bool" where
  "changes up ours \<longleftrightarrow> (\<exists>n v. user_fields up n = Some v \<and> map_find ours n \<noteq> Some v)"

definition ev_fields :: "(string, string) stdmap option \<Rightarrow> (string, string) stdmap" where
  "ev_fields ev = (case ev of None \<Rightarrow> [] | Some e \<Rightarrow> e)"

lemma ev_fields_simps [simp]: "ev_fields None = []" "ev_fields (Some e) = e"
  by (simp_all add: ev_fields_def)

lemma loop_ok:
  "update_fields_loop up ours ev = (ours', ev') \<Longrightarrow> map_ok ours \<Longrightarrow> map_ok (ev_fields ev) \<Longrightarrow>
   map_ok ours' \<and> map_ok (ev_fields ev')"
  by (induction up ours ev rule: update_fields_loop.induct)
    (auto simp: map_ok_assign ev_fields_def split: if_splits option.splits)

lemma loop_fields:
  "update_fields_loop up ours ev = (ours', ev') \<Longrightarrow> map_ok up \<Longrightarrow>
   map_find ours' = over (user_fields up) (map_find ours)"
proof (induction up ours ev rule: update_fields_loop.induct)
  case (2 n v up ours ev)
  have n: "map_find up n = None"
    using 2(5) by (intro map_find_below [of up n]) auto
  show ?case
    using 2 n by (auto simp: over_def user_fields_def fun_eq_iff map_find_assign split: if_splits option.splits)
qed (simp add: over_def user_fields_def fun_eq_iff)

lemma loop_event:
  "update_fields_loop up ours ev = (ours', ev') \<Longrightarrow>
   map_find ours = over (map_find (ev_fields ev)) base \<Longrightarrow>
   map_find ours' = over (map_find (ev_fields ev')) base"
proof (induction up ours ev rule: update_fields_loop.induct)
  case (2 n v up ours ev)
  show ?case
  proof (cases "\<not> row_reserved n \<and> (map_find ours n = None \<or> map_find ours n \<noteq> Some v)")
    case True
    have "map_find (map_assign n v ours) = over (map_find (map_assign n v (ev_fields ev))) base"
      using 2(5) by (auto simp: over_def map_find_assign fun_eq_iff)
    then show ?thesis
      using 2(2) True 2(4) by (simp add: ev_fields_def)
  next
    case False
    then show ?thesis
      using 2 by (auto split: if_splits)
  qed
qed simp

lemma loop_event_user:
  "update_fields_loop up ours ev = (ours', ev') \<Longrightarrow> \<forall>n. row_reserved n \<longrightarrow> map_find (ev_fields ev) n = None \<Longrightarrow>
   row_reserved n \<Longrightarrow> map_find (ev_fields ev') n = None"
  by (induction up ours ev rule: update_fields_loop.induct)
    (auto simp: map_find_assign ev_fields_def split: if_splits option.splits)

lemma loop_keeps_event: "update_fields_loop up ours (Some e) = (ours', ev') \<Longrightarrow> ev' \<noteq> None"
  by (induction up ours "Some e" arbitrary: e rule: update_fields_loop.induct) (auto split: if_splits)

lemma loop_changes:
  "update_fields_loop up ours None = (ours', ev') \<Longrightarrow> map_ok up \<Longrightarrow> ev' = None \<longleftrightarrow> \<not> changes up ours"
proof (induction up ours "None :: (string, string) stdmap option" rule: update_fields_loop.induct)
  case (1 ours)
  then show ?case by (simp add: changes_def user_fields_def)
next
  case (2 n v up ours)
  have n: "map_find up n = None"
    using 2(4) by (intro map_find_below [of up n]) auto
  have step: "changes ((n, v) # up) ours \<longleftrightarrow> (\<not> row_reserved n \<and> map_find ours n \<noteq> Some v) \<or> changes up ours"
  proof -
    have "user_fields ((n, v) # up) m = (if m = n \<and> \<not> row_reserved n then Some v else user_fields up m)" for m
      using n by (simp add: user_fields_def)
    moreover have "user_fields up n = None"
      using n by (simp add: user_fields_def)
    ultimately show ?thesis
      unfolding changes_def by (metis option.distinct(1) option.inject)
  qed
  consider "row_reserved n" | "\<not> row_reserved n" "map_find ours n = Some v"
    | "\<not> row_reserved n" "map_find ours n \<noteq> Some v"
    by blast
  then show ?case
  proof cases
    case 1
    with 2 step show ?thesis by simp
  next
    case 2
    with \<open>update_fields_loop ((n, v) # up) ours None = (ours', ev')\<close> step show ?thesis
      using "2.hyps"(2) "2.prems" by simp
  next
    case 3
    with "2.prems"(1) step show ?thesis
      using loop_keeps_event by fastforce
  qed
qed

text \<open>
  Updating the fields of a row: the new values take effect, the key stays, the time stamp is
  set when something changed; the event carries exactly what makes the old row the new one,
  and there is none when nothing changed.
\<close>

lemma update_fields_spec:
  assumes "row_ok tn r" "map_ok up" "update_fields now up r = (r', evs)"
  shows "row_ok tn r'" "m_rowkey r' = m_rowkey r"
    and "\<And>n. n \<noteq> id_row_last \<Longrightarrow> map_find (m_fields r') n = over (user_fields up) (map_find (m_fields r)) n"
    and "\<not> changes up (m_fields r) \<Longrightarrow> evs = [] \<and> r' = r"
    and "changes up (m_fields r) \<Longrightarrow> \<exists>fs. evs = [RowMultiUpdate tn (m_rowkey r) fs] \<and> map_ok fs \<and>
      map_find fs id_row_key = None \<and> map_find fs id_row_last = Some (row_timestr now) \<and>
      map_find (m_fields r') = over (map_find fs) (map_find (m_fields r))"
proof -
  obtain ours' ev' where l: "update_fields_loop up (m_fields r) None = (ours', ev')"
    by (cases "update_fields_loop up (m_fields r) None")
  have ok: "map_ok (m_fields r)" "map_find (m_fields r) id_row_key = Some (m_rowkey r)" "m_row_table r = tn"
    using assms(1) by (auto simp: row_ok_def)
  have ok': "map_ok ours'" "map_ok (ev_fields ev')"
    using loop_ok [OF l ok(1)] by simp_all
  note f = loop_fields [OF l assms(2)]
  have e: "map_find ours' = over (map_find (ev_fields ev')) (map_find (m_fields r))"
    by (rule loop_event [OF l]) (simp add: over_def fun_eq_iff)
  have res: "map_find (ev_fields ev') id_row_key = None"
    by (rule loop_event_user [OF l]) (simp_all add: row_reserved_def)
  have ch: "ev' = None \<longleftrightarrow> \<not> changes up (m_fields r)"
    using loop_changes [OF l assms(2)] .
  have same: "ours' = m_fields r" if "ev' = None"
    using that e ok ok' by (intro map_ok_ext) (auto simp: over_def)
  have key: "map_find ours' id_row_key = Some (m_rowkey r)"
    using f ok(2) by (simp add: over_def user_fields_def row_reserved_def)
  show "row_ok tn r'" "m_rowkey r' = m_rowkey r"
    using assms(3) l ok ok' key by (auto simp: update_fields_def row_ok_def map_ok_assign map_find_assign split: option.splits)
  show "n \<noteq> id_row_last \<Longrightarrow> map_find (m_fields r') n = over (user_fields up) (map_find (m_fields r)) n" for n
    using assms(3) l f by (auto simp: update_fields_def map_find_assign split: option.splits)
  show "\<not> changes up (m_fields r) \<Longrightarrow> evs = [] \<and> r' = r"
    using assms(3) l ch same by (auto simp: update_fields_def)
  assume "changes up (m_fields r)"
  then obtain fs where fs: "ev' = Some fs" using ch by auto
  have "r' = r\<lparr>m_fields := map_assign id_row_last (row_timestr now) ours'\<rparr>"
    "evs = [RowMultiUpdate tn (m_rowkey r) (map_assign id_row_last (row_timestr now) fs)]"
    using assms(3) l fs ok(3) by (auto simp: update_fields_def)
  moreover have "map_find (map_assign id_row_last (row_timestr now) ours') =
      over (map_find (map_assign id_row_last (row_timestr now) fs)) (map_find (m_fields r))"
    using e fs by (auto simp: over_def map_find_assign fun_eq_iff)
  ultimately show "\<exists>fs. evs = [RowMultiUpdate tn (m_rowkey r) fs] \<and> map_ok fs \<and>
      map_find fs id_row_key = None \<and> map_find fs id_row_last = Some (row_timestr now) \<and>
      map_find (m_fields r') = over (map_find fs) (map_find (m_fields r))"
    using res fs ok' by (auto simp: map_find_assign map_ok_assign)
qed

section \<open>The table invariant\<close>

definition table_ok :: "DataTable \<Rightarrow> bool" where
  "table_ok t \<longleftrightarrow>
     indexes (m_row_index t) (map m_rowkey (m_rows t)) \<and>
     indexes (m_column_index t) (m_columns t) \<and>
     (\<forall>r \<in> set (m_rows t). row_ok (m_table_name t) r) \<and>
     1 \<le> m_batchsize t"

lemma table_ok_new [simp]: "table_ok (new_DataTable tn)"
  by (simp add: table_ok_def new_DataTable_def)

lemma row_ok_new [simp]: "row_ok tn (new_DataRow k tn)"
  by (simp add: row_ok_def new_DataRow_def)

lemma nolock_has_row_iff: "table_ok t \<Longrightarrow> nolock_has_row k t \<longleftrightarrow> k \<in> m_rowkey ` set (m_rows t)"
  using indexes_none [of "m_row_index t" "map m_rowkey (m_rows t)" k]
  by (simp add: nolock_has_row_def table_ok_def)

lemma row_index_find:
  assumes "table_ok t" "map_find (m_row_index t) k = Some i"
  shows "i < length (m_rows t)" "m_rowkey (m_rows t ! i) = k"
  using assms indexes_find [of "m_row_index t" "map m_rowkey (m_rows t)" k i]
  by (auto simp: table_ok_def)

text \<open>A step that keeps the row keys keeps the row index right.\<close>

lemma update_rows_spec:
  assumes "\<forall>r \<in> set rs. row_ok tn r" "map_ok up" "update_rows now up rs = (rs', evs)"
  shows "map m_rowkey rs' = map m_rowkey rs \<and> (\<forall>r \<in> set rs'. row_ok tn r)"
  using assms
proof (induction rs arbitrary: rs' evs)
  case (Cons r rs)
  obtain r1 e1 where u: "update_fields now up r = (r1, e1)" by (cases "update_fields now up r")
  then show ?case
    using Cons update_fields_spec(1,2) [OF _ Cons.prems(2) u]
    by (auto split: prod.splits)
qed simp

lemma add_column_ok:
  assumes "table_ok t" "add_column_NOLOCK now c t = (t', evs)"
  shows "table_ok t'" "map m_rowkey (m_rows t') = map m_rowkey (m_rows t)" "c \<in> set (m_columns t')"
    "set (m_columns t) \<subseteq> set (m_columns t')" "m_table_name t' = m_table_name t"
proof -
  obtain rs es where u: "update_rows now [(c, '''')] (m_rows t) = (rs, es)"
    by (cases "update_rows now [(c, '''')] (m_rows t)")
  have r: "map m_rowkey rs = map m_rowkey (m_rows t) \<and> (\<forall>r \<in> set rs. row_ok (m_table_name t) r)"
    by (rule update_rows_spec [OF _ _ u]) (use assms(1) in \<open>auto simp: table_ok_def\<close>)
  show "table_ok t'"
  proof (cases "map_find (m_column_index t) c = None")
    case True
    then have "distinct (m_columns t @ [c])"
      using assms(1) by (auto simp: table_ok_def indexes_none) (simp add: indexes_def)
    then show ?thesis
      using assms r u True by (auto simp: add_column_NOLOCK_def table_ok_def build_index_ok Let_def)
  qed (use assms in \<open>auto simp: add_column_NOLOCK_def\<close>)
  show "map m_rowkey (m_rows t') = map m_rowkey (m_rows t)" "m_table_name t' = m_table_name t"
    "set (m_columns t) \<subseteq> set (m_columns t')"
    using assms(2) r u by (auto simp: add_column_NOLOCK_def Let_def split: if_splits)
  have "map_find (m_column_index t) c = None \<longleftrightarrow> c \<notin> set (m_columns t)"
    using assms(1) by (intro indexes_none) (simp add: table_ok_def)
  then show "c \<in> set (m_columns t')"
    using assms(2) u by (auto simp: add_column_NOLOCK_def Let_def split: if_splits)
qed

lemma add_columns_loop_ok:
  assumes "table_ok t" "add_columns_loop now cs t = (t', evs)"
  shows "table_ok t' \<and> map m_rowkey (m_rows t') = map m_rowkey (m_rows t) \<and>
    set cs \<subseteq> set (m_columns t') \<and> set (m_columns t) \<subseteq> set (m_columns t') \<and> m_table_name t' = m_table_name t"
  using assms
proof (induction cs arbitrary: t t' evs)
  case (Cons c cs)
  obtain t1 e1 where 1: "add_column_NOLOCK now c t = (t1, e1)" by (cases "add_column_NOLOCK now c t")
  obtain t2 e2 where 2: "add_columns_loop now cs t1 = (t2, e2)" by (cases "add_columns_loop now cs t1")
  show ?case
    using add_column_ok [OF Cons.prems(1) 1] Cons.IH [OF _ 2] Cons.prems(2) 1 2 by auto
qed simp

lemma add_row_ok:
  assumes "table_ok t" "\<not> nolock_has_row k t" "nolock_add_row k t = (t', evs)"
  shows "table_ok t'" "m_rows t' = m_rows t @ [new_DataRow k (m_table_name t)]"
    "m_table_name t' = m_table_name t" "evs = [NewRow (m_table_name t) k]"
proof -
  let ?rows = "m_rows t @ [new_DataRow k (m_table_name t)]"
  have t': "t' = t\<lparr>m_rows := ?rows, m_row_index := build_index (map m_rowkey ?rows)\<rparr>"
    and "evs = [NewRow (m_table_name t) k]"
    using assms(3) by (auto simp: nolock_add_row_def Let_def)
  have "distinct (map m_rowkey ?rows)"
    using assms(1,2) nolock_has_row_iff [OF assms(1)]
    by (auto simp: table_ok_def indexes_def new_DataRow_def)
  then show "table_ok t'"
    using assms(1) build_index_ok by (auto simp: t' table_ok_def)
  show "m_rows t' = ?rows" "m_table_name t' = m_table_name t" "evs = [NewRow (m_table_name t) k]"
    using t' \<open>evs = _\<close> by simp_all
qed

section \<open>The table as a map\<close>

type_synonym replica = "string \<Rightarrow> (string \<Rightarrow> string option) option"

fun rows_view :: "DataRow list \<Rightarrow> replica" where
  "rows_view [] = Map.empty"
| "rows_view (r # rs) = (rows_view rs)(m_rowkey r \<mapsto> map_find (m_fields r))"

definition view :: "DataTable \<Rightarrow> replica" where
  "view t = rows_view (m_rows t)"

lemma rows_view_none: "k \<notin> m_rowkey ` set rs \<Longrightarrow> rows_view rs k = None"
  by (induction rs) auto

lemma rows_view_nth:
  "distinct (map m_rowkey rs) \<Longrightarrow> r \<in> set rs \<Longrightarrow> rows_view rs (m_rowkey r) = Some (map_find (m_fields r))"
  by (induction rs) (auto simp: image_iff)

lemma rows_view_append:
  "distinct (map m_rowkey (rs @ rs')) \<Longrightarrow> rows_view (rs @ rs') = rows_view rs ++ rows_view rs'"
proof (induction rs)
  case (Cons r rs)
  then have "rows_view rs' (m_rowkey r) = None"
    by (intro rows_view_none) auto
  with Cons show ?case by (auto simp: map_add_def fun_eq_iff split: option.split)
qed simp

lemma view_lookup:
  assumes "table_ok t"
  shows "view t k = (case map_find (m_row_index t) k of None \<Rightarrow> None
    | Some i \<Rightarrow> Some (map_find (m_fields (m_rows t ! i))))"
proof (cases "map_find (m_row_index t) k")
  case None
  then show ?thesis
    using assms by (auto simp: view_def table_ok_def indexes_none intro!: rows_view_none)
next
  case (Some i)
  note i = row_index_find [OF assms Some]
  have "distinct (map m_rowkey (m_rows t))"
    using assms by (simp add: table_ok_def indexes_def)
  from rows_view_nth [OF this nth_mem [OF i(1)]] show ?thesis
    using i Some by (simp add: view_def)
qed

text \<open>The readers return what the map holds.\<close>

lemma get_row_field_view:
  assumes "table_ok t"
  shows "get_row_field k c t = (case view t k of None \<Rightarrow> Inl (OutOfRange ''row not found'')
    | Some f \<Rightarrow> (case f c of None \<Rightarrow> Inl (OutOfRange ''field not found'') | Some v \<Rightarrow> Inr v))"
  using row_index_find(1) [OF assms]
  by (auto simp: get_row_field_def view_lookup [OF assms] row_get_field_def nth_opt_def split: option.splits)

section \<open>Replaying events\<close>

definition row_of :: "replica \<Rightarrow> string \<Rightarrow> string \<Rightarrow> string option" where
  "row_of rep k = (case rep k of None \<Rightarrow> Map.empty | Some f \<Rightarrow> f)"

fun apply_ev :: "TableEvent \<Rightarrow> replica \<Rightarrow> replica" where
  "apply_ev (RowMultiUpdate tn k fs) rep =
     rep(k \<mapsto> over (map_find fs) ((row_of rep k)(id_row_key \<mapsto> k)))"
| "apply_ev (TableCleared tn) rep = Map.empty"
| "apply_ev (RowRemoved tn k) rep = rep(k := None)"
| "apply_ev (PCMDEvent tn k col meta) rep = rep(k \<mapsto> (row_of rep k)(id_row_key \<mapsto> k))"
| "apply_ev (TableAdded tn) rep = rep"
| "apply_ev (NewRow tn k) rep = rep"
| "apply_ev (NewColumn tn c) rep = rep"

text \<open>
  A replica in step with a row: it has its fields, or the row is new, holds its key only and
  is not there yet.
\<close>

definition in_step :: "replica \<Rightarrow> DataRow \<Rightarrow> bool" where
  "in_step rep r \<longleftrightarrow> rep (m_rowkey r) = Some (map_find (m_fields r)) \<or>
     rep (m_rowkey r) = None \<and> map_find (m_fields r) = [id_row_key \<mapsto> m_rowkey r]"

definition sync :: "replica \<Rightarrow> DataRow list \<Rightarrow> bool" where
  "sync rep rs \<longleftrightarrow> (\<forall>k. k \<notin> m_rowkey ` set rs \<longrightarrow> rep k = None) \<and> (\<forall>r \<in> set rs. in_step rep r)"

lemma in_step_cong: "rep (m_rowkey r) = rep' (m_rowkey r) \<Longrightarrow> in_step rep r = in_step rep' r"
  by (simp add: in_step_def)

lemma update_fields_replay:
  assumes "row_ok tn r" "map_ok up" "update_fields now up r = (r', evs)" "in_step rep r"
  shows "in_step (fold apply_ev evs rep) r'"
    and "\<And>k. k \<noteq> m_rowkey r \<Longrightarrow> fold apply_ev evs rep k = rep k"
proof -
  note s = update_fields_spec [OF assms(1-3)]
  have key: "map_find (m_fields r) id_row_key = Some (m_rowkey r)"
    using assms(1) by (simp add: row_ok_def)
  have row: "(row_of rep (m_rowkey r))(id_row_key \<mapsto> m_rowkey r) = map_find (m_fields r)"
    using assms(4) key by (auto simp: in_step_def row_of_def fun_eq_iff split: option.splits)
  show "in_step (fold apply_ev evs rep) r'"
  proof (cases "changes up (m_fields r)")
    case True
    obtain fs where fs: "evs = [RowMultiUpdate tn (m_rowkey r) fs]"
      "map_find (m_fields r') = over (map_find fs) (map_find (m_fields r))"
      using s(5) [OF True] by blast
    then show ?thesis
      using s(2) row by (simp add: in_step_def)
  next
    case False
    then show ?thesis using s(4) assms(4) by simp
  qed
  show "fold apply_ev evs rep k = rep k" if "k \<noteq> m_rowkey r" for k
    using s(4,5) that by (cases "changes up (m_fields r)") auto
qed

lemma update_rows_replay:
  assumes "\<forall>r \<in> set rs. row_ok tn r" "map_ok up" "update_rows now up rs = (rs', evs)"
    "distinct (map m_rowkey rs)" "\<forall>r \<in> set rs. in_step rep r"
  shows "(\<forall>r \<in> set rs'. in_step (fold apply_ev evs rep) r) \<and>
    (\<forall>k. k \<notin> m_rowkey ` set rs \<longrightarrow> fold apply_ev evs rep k = rep k)"
  using assms
proof (induction rs arbitrary: rs' evs rep)
  case (Cons r rs)
  obtain r1 e1 where 1: "update_fields now up r = (r1, e1)" by (cases "update_fields now up r")
  obtain rs1 e2 where 2: "update_rows now up rs = (rs1, e2)" by (cases "update_rows now up rs")
  have eq: "rs' = r1 # rs1" "evs = e1 @ e2" using Cons.prems(3) 1 2 by auto
  let ?rep = "fold apply_ev e1 rep"
  have r: "row_ok tn r" "in_step rep r" using Cons.prems by auto
  note a = update_fields_replay [OF r(1) Cons.prems(2) 1 r(2)]
  have k1: "m_rowkey r1 = m_rowkey r" using update_fields_spec(2) [OF r(1) Cons.prems(2) 1] .
  have "in_step ?rep x" if "x \<in> set rs" for x
  proof -
    have "m_rowkey x \<noteq> m_rowkey r" using Cons.prems(4) that by (metis distinct.simps(2) image_eqI list.map(2) set_map)
    then show ?thesis using a(2) Cons.prems(5) that in_step_cong [of ?rep x rep] by simp
  qed
  then have b: "(\<forall>x \<in> set rs1. in_step (fold apply_ev e2 ?rep) x) \<and>
      (\<forall>k. k \<notin> m_rowkey ` set rs \<longrightarrow> fold apply_ev e2 ?rep k = ?rep k)"
    using Cons.prems(1,4) by (intro Cons.IH [OF _ Cons.prems(2) 2]) auto
  have "in_step (fold apply_ev e2 ?rep) r1"
    using a(1) b Cons.prems(4) k1 in_step_cong [of "fold apply_ev e2 ?rep" r1 ?rep] by simp
  then show ?case
    using a(2) b eq by auto
qed simp

lemma sync_view: "distinct (map m_rowkey rs) \<Longrightarrow> sync (rows_view rs) rs"
  by (auto simp: sync_def in_step_def rows_view_none rows_view_nth)

text \<open>A replica in step that knows every row is the table.\<close>

lemma sync_complete:
  assumes "sync rep rs" "distinct (map m_rowkey rs)" "\<forall>r \<in> set rs. rep (m_rowkey r) \<noteq> None"
  shows "rep = rows_view rs"
proof
  fix k
  show "rep k = rows_view rs k"
  proof (cases "k \<in> m_rowkey ` set rs")
    case False
    then show ?thesis using assms(1) by (simp add: sync_def rows_view_none)
  next
    case True
    then obtain r where r: "r \<in> set rs" "k = m_rowkey r" by auto
    then show ?thesis
      using assms rows_view_nth [OF assms(2) r(1)] by (auto simp: sync_def in_step_def)
  qed
qed

text \<open>The events of an update never make a replica forget a row.\<close>

fun grows :: "TableEvent \<Rightarrow> bool" where
  "grows (TableCleared tn) = False"
| "grows (RowRemoved tn k) = False"
| "grows e = True"

lemma dom_apply_ev: "list_all grows evs \<Longrightarrow> dom rep \<subseteq> dom (fold apply_ev evs rep)"
proof (induction evs arbitrary: rep)
  case (Cons e evs)
  have "dom rep \<subseteq> dom (apply_ev e rep)"
    using Cons.prems by (cases e) auto
  also have "\<dots> \<subseteq> dom (fold apply_ev evs (apply_ev e rep))"
    using Cons by simp
  finally show ?case by simp
qed simp

lemma update_fields_grows: "update_fields now up r = (r', evs) \<Longrightarrow> list_all grows evs"
  by (auto simp: update_fields_def split: prod.splits option.splits)

lemma update_rows_grows: "update_rows now up rs = (rs', evs) \<Longrightarrow> list_all grows evs"
  by (induction rs arbitrary: rs' evs) (auto split: prod.splits dest: update_fields_grows)

lemma add_column_replay:
  assumes "table_ok t" "add_column_NOLOCK now c t = (t', evs)" "sync rep (m_rows t)"
  shows "sync (fold apply_ev evs rep) (m_rows t')" "list_all grows evs"
proof -
  obtain rs es where u: "update_rows now [(c, '''')] (m_rows t) = (rs, es)"
    by (cases "update_rows now [(c, '''')] (m_rows t)")
  have ok: "\<forall>r \<in> set (m_rows t). row_ok (m_table_name t) r" "distinct (map m_rowkey (m_rows t))"
    using assms(1) by (auto simp: table_ok_def indexes_def)
  have keys: "m_rowkey ` set rs = m_rowkey ` set (m_rows t)"
    using update_rows_spec [OF ok(1) _ u] by (metis list.set_map map_ok_simps empty_iff set_empty2)
  have rp: "(\<forall>r \<in> set rs. in_step (fold apply_ev es rep) r) \<and>
      (\<forall>k. k \<notin> m_rowkey ` set (m_rows t) \<longrightarrow> fold apply_ev es rep k = rep k)"
    using assms(3) ok by (intro update_rows_replay [OF _ _ u]) (auto simp: sync_def)
  show "sync (fold apply_ev evs rep) (m_rows t')"
    using assms(2,3) u rp keys by (auto simp: add_column_NOLOCK_def sync_def Let_def split: if_splits)
  show "list_all grows evs"
    using assms(2) u update_rows_grows [OF u] by (auto simp: add_column_NOLOCK_def Let_def split: if_splits)
qed

lemma add_columns_replay:
  assumes "table_ok t" "add_columns_loop now cs t = (t', evs)" "sync rep (m_rows t)"
  shows "sync (fold apply_ev evs rep) (m_rows t') \<and> list_all grows evs"
  using assms
proof (induction cs arbitrary: t t' evs rep)
  case (Cons c cs)
  obtain t1 e1 where 1: "add_column_NOLOCK now c t = (t1, e1)" by (cases "add_column_NOLOCK now c t")
  obtain t2 e2 where 2: "add_columns_loop now cs t1 = (t2, e2)" by (cases "add_columns_loop now cs t1")
  note a = add_column_replay [OF Cons.prems(1) 1 Cons.prems(3)]
  show ?case
    using Cons.IH [OF add_column_ok(1) [OF Cons.prems(1) 1] 2 a(1)] a(2) Cons.prems(2) 1 2 by auto
qed simp

section \<open>Updating a row\<close>

text \<open>
  The body of \<open>update_row\<close> up to the publication: the table it leaves and the events it
  collected.
\<close>

definition update_row_step ::
  "tm \<Rightarrow> string \<Rightarrow> (string, string) stdmap \<Rightarrow> DataTable \<Rightarrow> DataTable \<Rightarrow> TableEvent list \<Rightarrow> bool" where
  "update_row_step now k up t t' evs \<longleftrightarrow>
     (\<exists>t1 e1 t2 e2 i r r' e3.
        (if nolock_has_row k t then (t1, e1) = (t, []) else (t1, e1) = nolock_add_row k t) \<and>
        add_columns_loop now (filter (\<lambda>n. \<not> row_reserved n) (map fst up)) t1 = (t2, e2) \<and>
        map_find (m_row_index t2) k = Some i \<and> i < length (m_rows t2) \<and> m_rows t2 ! i = r \<and>
        m_rowkey r = k \<and> update_fields now up r = (r', e3) \<and>
        t' = t2\<lparr>m_rows := (m_rows t2)[i := r']\<rparr> \<and> evs = e1 @ e2 @ e3)"

lemma update_row_step:
  assumes "table_ok t"
  obtains t' evs where "update_row_step now k up t t' evs"
    "update_row now live k up t = (if evs \<noteq> [] then publish live evs t' else (t', [], None))"
proof -
  obtain t1 e1 where 1: "(if nolock_has_row k t then (t, []) else nolock_add_row k t) = (t1, e1)"
    by (cases "if nolock_has_row k t then (t, []) else nolock_add_row k t")
  have t1: "table_ok t1" "k \<in> m_rowkey ` set (m_rows t1)"
    using 1 assms add_row_ok(1,2) [OF assms, of k t1 e1] nolock_has_row_iff [OF assms, of k]
    by (auto split: if_splits) (force simp: new_DataRow_def)
  obtain t2 e2 where 2: "add_columns_loop now (filter (\<lambda>n. \<not> row_reserved n) (map fst up)) t1 = (t2, e2)"
    by (cases "add_columns_loop now (filter (\<lambda>n. \<not> row_reserved n) (map fst up)) t1")
  note a = add_columns_loop_ok [OF t1(1) 2]
  have "k \<in> m_rowkey ` set (m_rows t2)"
    using a t1(2) by (metis list.set_map)
  then obtain i where i: "map_find (m_row_index t2) k = Some i"
    using nolock_has_row_iff [OF conjunct1 [OF a], of k] unfolding nolock_has_row_def by blast
  have same: "t2\<lparr>m_row_index := map_insert k 0 (m_row_index t2)\<rparr> = t2"
    using stdmap.ins_bound [OF _ i] a by (auto simp: table_ok_def indexes_def)
  note ri = row_index_find [OF conjunct1 [OF a] i]
  obtain r' e3 where 3: "update_fields now up (m_rows t2 ! i) = (r', e3)"
    by (cases "update_fields now up (m_rows t2 ! i)")
  have "update_row_step now k up t (t2\<lparr>m_rows := (m_rows t2)[i := r']\<rparr>) (e1 @ e2 @ e3)"
    unfolding update_row_step_def using 1 2 3 i ri by (auto split: if_splits)
  moreover have "update_row now live k up t =
      (if e1 @ e2 @ e3 \<noteq> [] then publish live (e1 @ e2 @ e3) (t2\<lparr>m_rows := (m_rows t2)[i := r']\<rparr>)
       else (t2\<lparr>m_rows := (m_rows t2)[i := r']\<rparr>, [], None))"
    unfolding update_row_def 1 prod.case 2 Let_def same i option.case
    using 3 ri by (simp add: nth_opt_def)
  ultimately show thesis using that by blast
qed

lemma rows_view_update:
  assumes "distinct (map m_rowkey rs)" "i < length rs" "m_rowkey r' = m_rowkey (rs ! i)"
  shows "rows_view (rs[i := r']) = (rows_view rs)(m_rowkey r' \<mapsto> map_find (m_fields r'))"
  using assms
proof (induction rs arbitrary: i)
  case (Cons r rs)
  show ?case
  proof (cases i)
    case 0
    then show ?thesis using Cons.prems by (simp add: fun_eq_iff)
  next
    case (Suc j)
    then have "m_rowkey r \<noteq> m_rowkey r'"
      using Cons.prems by auto
    then show ?thesis
      using Cons.IH [of j] Cons.prems Suc by (auto simp: fun_eq_iff)
  qed
qed simp

lemma map_rowkey_update:
  "i < length rs \<Longrightarrow> m_rowkey r' = m_rowkey (rs ! i) \<Longrightarrow> map m_rowkey (rs[i := r']) = map m_rowkey rs"
  by (simp add: map_update list_update_same_conv)

lemma set_update_key:
  assumes "distinct (map f xs)" "i < length xs" "f y = f (xs ! i)" "x \<in> set (xs[i := y])"
  shows "x = y \<or> x \<in> set xs \<and> f x \<noteq> f y"
proof -
  have "distinct xs" "inj_on f (set xs)"
    using assms(1) by (simp_all add: distinct_map)
  then have "x = y \<or> x \<in> set xs \<and> x \<noteq> xs ! i"
    using assms(2,4) by (simp add: set_update_distinct)
  then show ?thesis
    using \<open>inj_on f (set xs)\<close> assms(2,3) by (metis inj_on_contraD nth_mem)
qed

lemma sync_new_row:
  assumes "sync rep rs" "k \<notin> m_rowkey ` set rs"
  shows "sync rep (rs @ [new_DataRow k tn])"
  using assms by (auto simp: sync_def in_step_def new_DataRow_def fun_eq_iff)

text \<open>What one update of a row does to the table, and that its events describe it.\<close>

lemma update_row_step_ok:
  assumes "table_ok t" "map_ok up" "update_row_step now k up t t' evs"
  shows "table_ok t'" "m_table_name t' = m_table_name t"
    and "sync rep (m_rows t) \<Longrightarrow> sync (fold apply_ev evs rep) (m_rows t')"
    and "list_all grows evs"
    and "m_rowkey ` set (m_rows t') = insert k (m_rowkey ` set (m_rows t))"
    and "\<And>n v. user_fields up n = Some v \<Longrightarrow> \<exists>f. view t' k = Some f \<and> f n = Some v"
proof -
  obtain t1 e1 t2 e2 i r r' e3 where
    1: "if nolock_has_row k t then (t1, e1) = (t, []) else (t1, e1) = nolock_add_row k t" and
    2: "add_columns_loop now (filter (\<lambda>n. \<not> row_reserved n) (map fst up)) t1 = (t2, e2)" and
    i: "map_find (m_row_index t2) k = Some i" "i < length (m_rows t2)" "m_rows t2 ! i = r" "m_rowkey r = k" and
    3: "update_fields now up r = (r', e3)" and
    t': "t' = t2\<lparr>m_rows := (m_rows t2)[i := r']\<rparr>" "evs = e1 @ e2 @ e3"
    using assms(3) unfolding update_row_step_def by blast
  have ok1: "table_ok t1" "m_table_name t1 = m_table_name t"
    "m_rowkey ` set (m_rows t1) = insert k (m_rowkey ` set (m_rows t))" "list_all grows e1"
    and s1: "sync rep (m_rows t) \<Longrightarrow> sync (fold apply_ev e1 rep) (m_rows t1)" for rep
  proof -
    note n = nolock_has_row_iff [OF assms(1), of k]
    have "table_ok t1 \<and> m_table_name t1 = m_table_name t \<and> list_all grows e1 \<and>
        m_rowkey ` set (m_rows t1) = insert k (m_rowkey ` set (m_rows t)) \<and>
        (\<forall>rep. sync rep (m_rows t) \<longrightarrow> sync (fold apply_ev e1 rep) (m_rows t1))"
    proof (cases "nolock_has_row k t")
      case True
      then show ?thesis using 1 assms(1) n by auto
    next
      case False
      then have "nolock_add_row k t = (t1, e1)" using 1 by simp
      note ar = add_row_ok [OF assms(1) False this]
      have "m_rowkey (new_DataRow k (m_table_name t)) = k" by (simp add: new_DataRow_def)
      then show ?thesis using ar n False sync_new_row by auto
    qed
    then show "table_ok t1" "m_table_name t1 = m_table_name t"
      "m_rowkey ` set (m_rows t1) = insert k (m_rowkey ` set (m_rows t))" "list_all grows e1"
      "sync rep (m_rows t) \<Longrightarrow> sync (fold apply_ev e1 rep) (m_rows t1)" for rep
      by blast+
  qed
  note a = add_columns_loop_ok [OF ok1(1) 2]
  note s2 = add_columns_replay [OF ok1(1) 2]
  have ok2: "row_ok (m_table_name t2) r" "distinct (map m_rowkey (m_rows t2))"
    using a i by (auto simp: table_ok_def indexes_def)
  note u = update_fields_spec [OF ok2(1) assms(2) 3]
  have keys: "map m_rowkey (m_rows t') = map m_rowkey (m_rows t2)"
    using i u(2) by (simp add: t' map_rowkey_update)
  show "table_ok t'"
    using a keys u(1) i by (auto simp: table_ok_def t'(1) dest!: set_update_subset_insert [THEN subsetD])
  show "m_table_name t' = m_table_name t" "list_all grows evs"
    using a ok1 s2 sync_view [of "m_rows t1"] update_fields_grows [OF 3]
    by (auto simp: t' table_ok_def indexes_def)
  have "m_rowkey ` set (m_rows t') = m_rowkey ` set (m_rows t1)"
    using keys a by (metis list.set_map)
  then show "m_rowkey ` set (m_rows t') = insert k (m_rowkey ` set (m_rows t))"
    using ok1(3) by simp
  show "sync (fold apply_ev evs rep) (m_rows t')" if "sync rep (m_rows t)"
  proof -
    let ?rep = "fold apply_ev e2 (fold apply_ev e1 rep)"
    have s: "sync ?rep (m_rows t2)"
      using s1 [OF that] s2 by blast
    have step: "in_step ?rep r" using s i by (auto simp: sync_def)
    note f = update_fields_replay [OF ok2(1) assms(2) 3 step]
    have "in_step (fold apply_ev e3 ?rep) x" if "x \<in> set (m_rows t')" for x
    proof -
      have "x = r' \<or> x \<in> set (m_rows t2) \<and> m_rowkey x \<noteq> m_rowkey r'"
        using set_update_key [OF ok2(2) i(2), of r' x] that i u(2) by (simp add: t'(1))
      then show ?thesis
        using f s u(2) in_step_cong [of "fold apply_ev e3 ?rep" x ?rep] by (auto simp: sync_def)
    qed
    moreover have "fold apply_ev e3 ?rep x = None" if "x \<notin> m_rowkey ` set (m_rows t')" for x
    proof -
      have "x \<notin> m_rowkey ` set (m_rows t2)" using that keys by (metis list.set_map)
      moreover have "r \<in> set (m_rows t2)" using i(2,3) by auto
      ultimately show ?thesis using s f(2) [of x] by (auto simp: sync_def)
    qed
    ultimately show ?thesis by (simp add: sync_def t'(2))
  qed
  show "\<exists>f. view t' k = Some f \<and> f n = Some v" if "user_fields up n = Some v" for n v
  proof -
    have "view t' k = Some (map_find (m_fields r'))"
      using rows_view_update [OF ok2(2) i(2)] i u(2) by (simp add: view_def t')
    moreover have "n \<noteq> id_row_last" using that by (auto simp: user_fields_def row_reserved_def)
    ultimately show ?thesis using u(3) [of n] that by (simp add: over_def)
  qed
qed

end
