(* ===== verification/Table_Replay.thy ===== *)
theory Table_Replay
  imports Table_Laws
begin

text \<open>
  What a subscriber can reconstruct.  \<open>apply_msg\<close> reads a table message the way its layout
  says (the number of rows in the body, the rows by name, the row key in each) and updates a
  copy of the table with it.  The messages of an update turn a copy of the old table into a
  copy of the new one, and the messages of a snapshot build the table from nothing.
\<close>

section \<open>Reading table messages\<close>

definition field_text :: "txContainer \<Rightarrow> string \<Rightarrow> string option" where
  "field_text c n = map_option field_value (find_field c n)"

definition apply_row :: "txContainer \<Rightarrow> replica \<Rightarrow> replica" where
  "apply_row c rep =
     (case field_text c id_row_key of
        None \<Rightarrow> rep
      | Some k \<Rightarrow> rep(k \<mapsto> over (field_text c) (row_of rep k)))"

definition apply_rows :: "txContainer \<Rightarrow> nat \<Rightarrow> replica \<Rightarrow> replica" where
  "apply_rows body n rep =
     fold (\<lambda>i rep. case find_child body (id_row_prefix @ dec i) of None \<Rightarrow> rep | Some c \<Rightarrow> apply_row c rep)
       [0..<n] rep"

definition apply_msg :: "txContainer \<Rightarrow> replica \<Rightarrow> replica" where
  "apply_msg m rep =
     (if cont_name m = id_tableupdate then
        case find_child m id_body of
          None \<Rightarrow> rep
        | Some body \<Rightarrow>
            (case field_text body id_rows of
               None \<Rightarrow> rep
             | Some n \<Rightarrow> apply_rows body (dec_value 0 n) rep)
      else if cont_name m = id_tableclear then Map.empty
      else if cont_name m = id_tablerowdel then
        (case find_field_q m [id_head, id_row_key] of
           None \<Rightarrow> rep | Some f \<Rightarrow> rep(field_value f := None))
      else rep)"

section \<open>Update messages\<close>

lemma wf_put_child_body [wf_intros]:
  assumes "wf_cont c"
  shows "wf_cont (put_child_then n (put_field k v) c)"
  using assms by (intro wf_put_child_then wf_put_field) simp_all

lemma wf_add_update: "wf_cont m \<Longrightarrow> wf_cont (fst (add_update c v m))"
  unfolding add_update_def fst_conv by (intro wf_put_child_then wf_put_field) simp_all

lemma wf_update_init: "wf_cont m \<Longrightarrow> wf_cont (update_init_msg tn k m)"
  unfolding update_init_msg_def
  by (intro wf_put_child_then wf_put_field wf_put_field_q wf_set_cont_name) simp_all

lemma multi_update_loop_eq:
  "multi_update_loop tn k fs front m = Inr (front @ [fold (\<lambda>(c, v) m. fst (add_update c v m)) fs m])"
  by (induction tn k fs front m rule: multi_update_loop.induct) (simp_all add: add_update_def)

text \<open>A message with one row: its body, the row count and the row.\<close>

definition one_row :: "txContainer \<Rightarrow> txContainer \<Rightarrow> bool" where
  "one_row m r \<longleftrightarrow> wf_cont m \<and> cont_name m = id_tableupdate \<and>
     (\<exists>b. find_child m id_body = Some b \<and> field_text b id_rows = Some ''1'' \<and> find_child b row_0 = Some r)"

lemma field_text_put_field:
  "wf_cont c \<Longrightarrow> field_text (put_field n v c) = (field_text c)(n \<mapsto> v)"
  by (auto simp: field_text_def find_field_put_field fun_eq_iff)

lemma field_text_put_child_then [simp]:
  "wf_cont c \<Longrightarrow> field_text (put_child_then n g c) = field_text c"
  by (simp add: field_text_def fun_eq_iff)

lemma find_child_put_field_q:
  "wf_cont c \<Longrightarrow> n \<noteq> k \<Longrightarrow> find_child (put_field_q [k, j] v c) n = find_child c n"
  by (simp add: find_child_put_child_then)

lemma one_row_init:
  "one_row (update_init_msg tn k (new_container '''')) (put_field id_row_key k (new_container row_0))"
proof -
  let ?m = "put_field_q QN_msgtype id_tableupdate (put_field_q QN_tablename tn (set_cont_name id_tableupdate (new_container '''')))"
  have wf: "wf_cont ?m"
    by (intro wf_put_field_q wf_set_cont_name) simp
  have new: "set_cont_name id_tableupdate (new_container '''') = new_container id_tableupdate"
    by (simp add: new_container_def)
  have "find_child ?m id_body = None"
    unfolding new by (subst find_child_put_field_q; (simp add: wf_put_field_q del: put_field_q_simps)?)+
  then have "find_child (update_init_msg tn k (new_container '''')) id_body =
      Some (put_child_then row_0 (put_field id_row_key k) (put_field id_rows ''1'' (new_container id_body)))"
    using wf by (simp add: update_init_msg_def find_child_put_child_then del: put_field_q_simps)
  moreover have "cont_name (update_init_msg tn k (new_container '''')) = id_tableupdate"
    by (simp add: update_init_msg_def new)
  ultimately show ?thesis
    unfolding one_row_def using wf_update_init [of "new_container ''''"]
    by (simp add: wf_put_field find_child_put_child_then field_text_put_field)
qed

lemma one_row_add:
  assumes "one_row m r"
  shows "one_row (fst (add_update c v m)) (put_field c v r)"
proof -
  obtain b where b: "find_child m id_body = Some b" "field_text b id_rows = Some ''1''" "find_child b row_0 = Some r"
    and m: "wf_cont m" "cont_name m = id_tableupdate"
    using assms by (auto simp: one_row_def)
  have wb: "wf_cont b"
    using wf_find_child [OF m(1) b(1)] .
  have "find_child (fst (add_update c v m)) id_body = Some (put_child_then row_0 (put_field c v) b)"
    using m b by (simp add: add_update_def find_child_put_child_then)
  then show ?thesis
    unfolding one_row_def using wf_add_update [OF m(1)] m(2) b wb
    by (simp add: find_child_put_child_then) (simp add: add_update_def)
qed

lemma one_row_adds:
  "one_row m r \<Longrightarrow>
   one_row (fold (\<lambda>(c, v) m. fst (add_update c v m)) fs m) (fold (\<lambda>(c, v) r. put_field c v r) fs r)"
  by (induction fs arbitrary: m r) (auto intro: one_row_add)

lemma wf_fold_put_field: "wf_cont r \<Longrightarrow> wf_cont (fold (\<lambda>(c, v) r. put_field c v r) fs r)"
  by (induction fs arbitrary: r) (auto intro: wf_put_field)

lemma field_text_fold_put:
  "wf_cont r \<Longrightarrow> map_ok fs \<Longrightarrow>
   field_text (fold (\<lambda>(c, v) r. put_field c v r) fs r) = over (map_find fs) (field_text r)"
proof (induction fs arbitrary: r)
  case (Cons f fs)
  obtain c v where f: "f = (c, v)" by (cases f)
  have c: "map_find fs c = None"
    using Cons.prems(2) f by (intro map_find_below [of fs c]) auto
  show ?case
    using Cons f c by (auto simp: wf_put_field field_text_put_field over_def fun_eq_iff split: option.splits)
qed (simp add: over_def fun_eq_iff)

lemma apply_one_row:
  assumes "one_row m r"
  shows "apply_msg m rep = apply_row r rep"
proof -
  have "dec 0 = ''0''" "dec_value 0 ''1'' = 1"
    by code_simp+
  then show ?thesis
    using assms by (auto simp: one_row_def apply_msg_def apply_rows_def row_0_def)
qed

lemma update_msg_replay:
  assumes "map_ok fs" "map_find fs id_row_key = None"
  shows "\<exists>m. RowMultiUpdate_serialise tn k fs msgs = Inr (msgs @ [m]) \<and>
    (\<forall>rep. apply_msg m rep = apply_ev (RowMultiUpdate tn k fs) rep)"
proof -
  let ?init = "put_field id_row_key k (new_container row_0)"
  let ?r = "fold (\<lambda>(c, v) r. put_field c v r) fs ?init"
  let ?m = "fold (\<lambda>(c, v) m. fst (add_update c v m)) fs (update_init_msg tn k (new_container ''''))"
  have one: "one_row ?m ?r"
    by (rule one_row_adds [OF one_row_init])
  have r0: "field_text ?init = [id_row_key \<mapsto> k]"
    by (simp add: field_text_put_field) (simp add: field_text_def fun_eq_iff)
  have ft: "field_text ?r = over (map_find fs) [id_row_key \<mapsto> k]"
    using field_text_fold_put [OF _ assms(1), of ?init] r0 by (simp add: wf_put_field)
  then have "field_text ?r id_row_key = Some k"
    using assms(2) by (simp add: over_def)
  moreover have "over (field_text ?r) f = over (map_find fs) (f(id_row_key \<mapsto> k))" for f
    by (auto simp: ft over_def fun_eq_iff split: option.splits)
  ultimately have "apply_msg ?m rep = apply_ev (RowMultiUpdate tn k fs) rep" for rep
    by (simp add: apply_one_row [OF one] apply_row_def)
  then show ?thesis
    by (auto simp: RowMultiUpdate_serialise_def multi_update_loop_eq)
qed

section \<open>Publishing\<close>

fun ev_ok :: "TableEvent \<Rightarrow> bool" where
  "ev_ok (RowMultiUpdate tn k fs) \<longleftrightarrow> map_ok fs \<and> map_find fs id_row_key = None"
| "ev_ok (RowRemoved tn k) \<longleftrightarrow> False"
| "ev_ok (PCMDEvent tn k col meta) \<longleftrightarrow> False"
| "ev_ok e \<longleftrightarrow> True"

lemma clear_msg_replay: "apply_msg (clear_init_msg tn (new_container '''')) rep = Map.empty"
proof -
  have "cont_name (clear_init_msg tn (new_container '''')) = id_tableclear"
    by (simp add: clear_init_msg_def new_container_def)
  then show ?thesis by (simp add: apply_msg_def)
qed

lemma serialise_replay:
  assumes "list_all ev_ok evs"
  shows "\<exists>ms. foldR serialise_event evs msgs = Inr (msgs @ ms) \<and>
    (\<forall>rep. fold apply_msg ms rep = fold apply_ev evs rep)"
  using assms
proof (induction evs arbitrary: msgs)
  case (Cons e evs)
  obtain m1 where m1: "serialise_event e msgs = Inr (msgs @ m1)" "\<And>rep. fold apply_msg m1 rep = apply_ev e rep"
  proof (cases e)
    case (RowMultiUpdate tn k fs)
    then obtain m where "RowMultiUpdate_serialise tn k fs msgs = Inr (msgs @ [m])"
      "\<forall>rep. apply_msg m rep = apply_ev e rep"
      using update_msg_replay [of fs tn k msgs] Cons.prems by auto
    then show thesis using that [of "[m]"] RowMultiUpdate by simp
  next
    case (TableCleared tn)
    then show thesis
      using that [of "[clear_init_msg tn (new_container '''')]"]
      by (simp add: TableCleared_serialise_def clear_msg_replay)
  qed (use Cons.prems that [of "[]"] in auto)
  obtain ms where "foldR serialise_event evs (msgs @ m1) = Inr ((msgs @ m1) @ ms)"
    "\<forall>rep. fold apply_msg ms rep = fold apply_ev evs rep"
    using Cons.IH [of "msgs @ m1"] Cons.prems by auto
  then show ?case
    using m1 by (intro exI [of _ "m1 @ ms"]) simp
qed simp

text \<open>The messages go to every live subscriber, in order.\<close>

definition sent_to :: "SID list \<Rightarrow> txContainer list \<Rightarrow> sends" where
  "sent_to subs msgs = concat (map (\<lambda>m. map (\<lambda>s. (s, m)) subs) msgs)"

lemma publish_replay:
  assumes "list_all ev_ok evs"
  shows "\<exists>ms. publish live evs t = (t, sent_to (copy_subscribers live t) ms, None) \<and>
    (\<forall>rep. fold apply_msg ms rep = fold apply_ev evs rep)"
proof -
  obtain ms where ms: "foldR serialise_event evs [] = Inr ms"
    "\<forall>rep. fold apply_msg ms rep = fold apply_ev evs rep"
    using serialise_replay [OF assms, of "[]"] by auto
  then show ?thesis
    by (intro exI [of _ ms])
      (auto simp: publish_def nolock_publish_update_def Let_def sent_to_def split: prod.splits)
qed

lemma update_fields_ev_ok:
  assumes "row_ok tn r" "map_ok up" "update_fields now up r = (r', evs)"
  shows "list_all ev_ok evs"
  using update_fields_spec(4,5) [OF assms] by (cases "changes up (m_fields r)") auto

lemma update_rows_ev_ok:
  "\<forall>r \<in> set rs. row_ok tn r \<Longrightarrow> map_ok up \<Longrightarrow> update_rows now up rs = (rs', evs) \<Longrightarrow> list_all ev_ok evs"
  by (induction rs arbitrary: rs' evs) (auto split: prod.splits dest: update_fields_ev_ok)

lemma add_column_ev_ok:
  assumes "table_ok t" "add_column_NOLOCK now c t = (t', evs)"
  shows "list_all ev_ok evs"
proof -
  obtain rs es where u: "update_rows now [(c, '''')] (m_rows t) = (rs, es)"
    by (cases "update_rows now [(c, '''')] (m_rows t)")
  have "list_all ev_ok es"
    using update_rows_ev_ok [OF _ _ u, of "m_table_name t"] assms(1) by (simp add: table_ok_def)
  then show ?thesis
    using assms(2) u by (auto simp: add_column_NOLOCK_def Let_def split: if_splits)
qed

lemma add_columns_ev_ok:
  "table_ok t \<Longrightarrow> add_columns_loop now cs t = (t', evs) \<Longrightarrow> list_all ev_ok evs"
proof (induction cs arbitrary: t t' evs)
  case (Cons c cs)
  obtain t1 e1 where 1: "add_column_NOLOCK now c t = (t1, e1)" by (cases "add_column_NOLOCK now c t")
  obtain t2 e2 where 2: "add_columns_loop now cs t1 = (t2, e2)" by (cases "add_columns_loop now cs t1")
  show ?case
    using add_column_ok(1) [OF Cons.prems(1) 1] add_column_ev_ok [OF Cons.prems(1) 1] Cons.IH [OF _ 2]
      Cons.prems(2) 1 2 by auto
qed simp

lemma update_row_step_ev_ok:
  assumes "table_ok t" "map_ok up" "update_row_step now k up t t' evs"
  shows "list_all ev_ok evs"
proof -
  obtain t1 e1 t2 e2 i r r' e3 where
    1: "if nolock_has_row k t then (t1, e1) = (t, []) else (t1, e1) = nolock_add_row k t" and
    2: "add_columns_loop now (filter (\<lambda>n. \<not> row_reserved n) (map fst up)) t1 = (t2, e2)" and
    i: "i < length (m_rows t2)" "m_rows t2 ! i = r" and
    3: "update_fields now up r = (r', e3)" and evs: "evs = e1 @ e2 @ e3"
    using assms(3) unfolding update_row_step_def by blast
  have ok1: "table_ok t1" "list_all ev_ok e1"
    using 1 assms(1) add_row_ok(1,4) [OF assms(1), of k t1 e1] by (auto split: if_splits)
  have "row_ok (m_table_name t2) r"
    using add_columns_loop_ok [OF ok1(1) 2] i by (auto simp: table_ok_def)
  then show ?thesis
    using evs ok1 add_columns_ev_ok [OF ok1(1) 2] update_fields_ev_ok [OF _ assms(2) 3] by simp
qed

text \<open>
  The update of a row as a whole: it raises nothing, keeps the invariant, and the messages it
  sends carry a copy of the table from the old to the new state.
\<close>

lemma update_row_replay:
  assumes "table_ok t" "map_ok up" "update_row now live k up t = (t', out, e)"
  shows "table_ok t'" "e = None"
    and "\<exists>ms. out = sent_to (copy_subscribers live t') ms \<and> sync (fold apply_msg ms (view t)) (m_rows t') \<and>
      dom (view t) \<subseteq> dom (fold apply_msg ms (view t))"
    and "m_rowkey ` set (m_rows t') = insert k (m_rowkey ` set (m_rows t))"
    and "\<And>n v. user_fields up n = Some v \<Longrightarrow> \<exists>f. view t' k = Some f \<and> f n = Some v"
proof -
  obtain t1 evs where s: "update_row_step now k up t t1 evs"
    and u: "update_row now live k up t = (if evs \<noteq> [] then publish live evs t1 else (t1, [], None))"
    using update_row_step [OF assms(1)] by blast
  obtain ms where p: "publish live evs t1 = (t1, sent_to (copy_subscribers live t1) ms, None)"
    "\<And>rep. fold apply_msg ms rep = fold apply_ev evs rep"
    using publish_replay [OF update_row_step_ev_ok [OF assms(1,2) s], of live t1] by blast
  have t': "t' = t1" "e = None" "out = (if evs \<noteq> [] then sent_to (copy_subscribers live t1) ms else [])"
    using assms(3) u p(1) by (auto split: if_splits)
  note a = update_row_step_ok [OF assms(1,2) s]
  show "table_ok t'" "e = None" "m_rowkey ` set (m_rows t') = insert k (m_rowkey ` set (m_rows t))"
    using a t' by simp_all
  show "\<exists>f. view t' k = Some f \<and> f n = Some v" if "user_fields up n = Some v" for n v
    using a(6) [OF that] t' by simp
  define ms' where "ms' = (if evs \<noteq> [] then ms else [])"
  have "fold apply_msg ms' rep = fold apply_ev evs rep" for rep
    using p(2) by (simp add: ms'_def)
  moreover have "out = sent_to (copy_subscribers live t') ms'"
    using t' by (simp add: ms'_def sent_to_def)
  moreover have "sync (view t) (m_rows t)"
    using assms(1) sync_view by (simp add: view_def table_ok_def indexes_def)
  ultimately show "\<exists>ms. out = sent_to (copy_subscribers live t') ms \<and> sync (fold apply_msg ms (view t)) (m_rows t') \<and>
      dom (view t) \<subseteq> dom (fold apply_msg ms (view t))"
    using a(3,4) t'(1) dom_apply_ev by (intro exI [of _ ms']) simp
qed

end
