(* ===== verification/Table_Snapshot.thy ===== *)
theory Table_Snapshot
  imports Table_Replay
begin

text \<open>
  The snapshot a new subscriber receives: the rows packed into messages no larger than the
  protocol allows, each row once and in order, so that replaying the messages builds the
  table.
\<close>

section \<open>Counting children\<close>

lemma length_map_insert:
  "map_ok m \<Longrightarrow> length (map_insert k v m) = (if map_find m k = None then Suc (length m) else length m)"
  by (induction k v m rule: map_insert.induct) (auto simp: map_find_below)

lemma count_child_put_field [simp]: "count_child (put_field n v c) = count_child c"
  by (cases c) (simp add: count_child_def put_field_def split: option.split)

lemma count_child_put_child_then:
  assumes "wf_cont c"
  shows "count_child (put_child_then n g c) =
    (if find_child c n = None then Suc (count_child c) else count_child c)"
proof -
  obtain nm its fm cm where c: "c = TxContainer nm its fm cm" by (cases c)
  have ok: "map_ok cm" using map_ok_wf(2) [OF assms] c by simp
  show ?thesis
  proof (cases "child_ptr c n")
    case None
    then show ?thesis
      using c ok length_map_insert [OF ok, of n "length its"]
      by (simp add: put_child_then_def put_child_def count_child_def find_child_def child_ptr_def new_container_def)
  next
    case (Some i)
    obtain d where "nth_opt (m_items c) i = Some (ItemCont d)"
      using wf_child_ptr [OF assms Some] by blast
    then have "find_child c n \<noteq> None"
      using Some by (simp add: find_child_def child_at_def)
    then show ?thesis
      using Some c by (simp add: put_child_then_def put_child_def count_child_def)
  qed
qed

section \<open>A batch\<close>

definition meta_ok :: "DataTable \<Rightarrow> bool" where
  "meta_ok t \<longleftrightarrow> (\<forall>k mm. map_find (m_pcmd t) k = Some mm \<longrightarrow> list_all (\<lambda>(n, c). wf_cont c) mm)"

lemma wf_fold_copy:
  "wf_cont r \<Longrightarrow> list_all (\<lambda>(n, c). wf_cont c) mm \<Longrightarrow>
   wf_cont (fold (\<lambda>(n, c) r. fst (put_child_copy c r)) mm r) \<and>
   field_text (fold (\<lambda>(n, c) r. fst (put_child_copy c r)) mm r) = field_text r \<and>
   cont_name (fold (\<lambda>(n, c) r. fst (put_child_copy c r)) mm r) = cont_name r"
  by (induction mm arbitrary: r) (auto simp: wf_put_child_copy field_text_def fun_eq_iff)

lemma cont_name_fold_put [simp]: "cont_name (fold (\<lambda>(c, v) r. put_field c v r) fs r) = cont_name r"
  by (induction fs arbitrary: r) auto

definition metas_wf :: "(string, txContainer) stdmap option \<Rightarrow> bool" where
  "metas_wf meta \<longleftrightarrow> (\<forall>mm. meta = Some mm \<longrightarrow> list_all (\<lambda>(n, c). wf_cont c) mm)"

lemma fill_row_ok:
  assumes "wf_cont c" "metas_wf meta" "map_ok (m_fields r)"
  shows "wf_cont (fill_row r meta c)" "cont_name (fill_row r meta c) = cont_name c"
    "field_text (fill_row r meta c) = over (map_find (m_fields r)) (field_text c)"
  using assms wf_fold_put_field [OF assms(1)] field_text_fold_put [OF assms(1,3)]
  by (auto simp: fill_row_def metas_wf_def Let_def wf_fold_copy split: option.splits)

lemma cont_name_fill_row [simp]: "cont_name (fill_row r meta c) = cont_name c"
proof -
  have "cont_name (fold (\<lambda>(n, c) r. fst (put_child_copy c r)) mm x) = cont_name x"
    for mm :: "(string, txContainer) stdmap" and x
    by (induction mm arbitrary: x) auto
  then show ?thesis by (simp add: fill_row_def Let_def split: option.split)
qed

text \<open>What a partly filled message holds: the rows so far under their numbers, and their count.\<close>

definition batch_ok :: "txContainer \<Rightarrow> DataRow list \<Rightarrow> bool" where
  "batch_ok msg rs \<longleftrightarrow> wf_cont msg \<and> cont_name msg = id_tableupdate \<and> find_child msg id_head \<noteq> None \<and>
     (\<exists>b. find_child msg id_body = Some b \<and> field_text b id_rows = Some (dec (length rs)) \<and>
        count_child b = length rs \<and>
        (\<forall>j. map_option field_text (find_child b (id_row_prefix @ dec j)) =
           (if j < length rs then Some (map_find (m_fields (rs ! j))) else None)))"

lemma batch_ok_empty: "batch_ok (snap_set_table_name tn snap_empty_msg) []"
proof -
  have body: "find_child (snap_set_table_name tn snap_empty_msg) id_body =
      Some (put_field id_rows ''0'' (new_container id_body))"
    by (simp add: snap_set_table_name_def snap_empty_msg_def find_child_put_child_then
        wf_put_child_body wf_put_field_q [of _ "[_, _]", simplified])
  have head: "find_child (snap_set_table_name tn snap_empty_msg) id_head \<noteq> None"
    by (simp add: snap_set_table_name_def snap_empty_msg_def find_child_put_child_then
        wf_put_child_body wf_put_field_q [of _ "[_, _]", simplified])
  have wf: "wf_cont (snap_set_table_name tn snap_empty_msg)"
    unfolding snap_set_table_name_def snap_empty_msg_def by (intro wf_put_field_q wf_new)
  have "dec 0 = ''0''" by code_simp
  moreover have "count_child (new_container id_body) = 0" by (simp add: new_container_def count_child_def)
  moreover have "cont_name (snap_set_table_name tn snap_empty_msg) = id_tableupdate"
    by (simp add: snap_set_table_name_def snap_empty_msg_def new_container_def)
  ultimately show ?thesis
    unfolding batch_ok_def using body head wf by (simp add: field_text_put_field)
qed

lemma to_str_dec: "to_str (int n) = dec n"
  by (simp add: to_str_def dec_int_def)

lemma cont_name_add_row [simp]: "cont_name (snap_add_row r meta msg) = cont_name msg"
  by (simp add: snap_add_row_def)

lemma batch_ok_add:
  assumes "batch_ok msg rs" "row_ok tn r" "metas_wf meta"
  shows "batch_ok (snap_add_row r meta msg) (rs @ [r])"
proof -
  obtain b where msg: "wf_cont msg" "cont_name msg = id_tableupdate" "find_child msg id_head \<noteq> None"
    and b: "find_child msg id_body = Some b" "count_child b = length rs"
    and rows: "\<And>j. map_option field_text (find_child b (id_row_prefix @ dec j)) =
      (if j < length rs then Some (map_find (m_fields (rs ! j))) else None)"
    using assms(1) by (auto simp: batch_ok_def)
  let ?row = "id_row_prefix @ dec (length rs)"
  let ?b = "put_child_then ?row (fill_row r meta) b"
  let ?g = "\<lambda>body. let nrows = count_child body in
    put_field id_rows (to_str (int (nrows + 1))) (put_child_then (id_row_prefix @ dec nrows) (fill_row r meta) body)"
  have fr: "map_ok (m_fields r)" using assms(2) by (simp add: row_ok_def)
  have wb: "wf_cont b" using wf_find_child [OF msg(1) b(1)] .
  have wf_g: "wf_cont (put_child_then n (fill_row r meta) d)" if "wf_cont d" for n d
    using that fill_row_ok(1) [OF _ assms(3) fr] by (intro wf_put_child_then) simp_all
  have wf: "wf_cont (snap_add_row r meta msg)"
    unfolding snap_add_row_def using msg(1) wf_g
    by (intro wf_put_child_then) (simp_all add: Let_def wf_put_field)
  have fresh: "find_child b ?row = None"
    using rows [of "length rs"] by simp
  have body: "find_child (snap_add_row r meta msg) id_body = Some (put_field id_rows (dec (length rs + 1)) ?b)"
    unfolding snap_add_row_def Let_def to_str_dec using msg(1) b by (simp add: find_child_put_child_then)
  have head: "find_child (snap_add_row r meta msg) id_head \<noteq> None"
    unfolding snap_add_row_def using msg by (simp add: find_child_put_child_then)
  have new: "field_text (fill_row r meta (new_container ?row)) = map_find (m_fields r)"
    using fill_row_ok(3) [OF _ assms(3) fr, of "new_container ?row"]
    by (simp add: over_def field_text_def fun_eq_iff split: option.split)
  have "map_option field_text (find_child (put_field id_rows (dec (length rs + 1)) ?b) (id_row_prefix @ dec j)) =
      (if j < length (rs @ [r]) then Some (map_find (m_fields ((rs @ [r]) ! j))) else None)" for j
    using rows [of j] fresh new wb wf_g [OF wb]
    by (auto simp: find_child_put_child_then nth_append)
  then show ?thesis
    unfolding batch_ok_def using wf msg(2) head body wb wf_g [OF wb] fresh b(2)
    by (simp add: field_text_put_field count_child_put_child_then)
qed

lemma batch_ok_rows:
  assumes "\<forall>r \<in> set rs. row_ok tn r" "meta_ok t" "batch_ok msg pre"
  shows "batch_ok (fold (\<lambda>r msg. snap_add_row r (map_find (m_pcmd t) (m_rowkey r)) msg) rs msg) (pre @ rs)"
  using assms
proof (induction rs arbitrary: pre msg)
  case (Cons r rs)
  have "metas_wf (map_find (m_pcmd t) (m_rowkey r))"
    using Cons.prems(2) by (auto simp: metas_wf_def meta_ok_def)
  then have "batch_ok (snap_add_row r (map_find (m_pcmd t) (m_rowkey r)) msg) (pre @ [r])"
    using Cons.prems by (intro batch_ok_add [of _ _ tn]) auto
  from Cons.IH [OF _ Cons.prems(2) this] Cons.prems(1) show ?case by simp
qed simp

lemma snapshot_batch_ok:
  "\<forall>r \<in> set rs. row_ok tn r \<Longrightarrow> meta_ok t \<Longrightarrow> batch_ok (snapshot_batch t rs) rs"
  using batch_ok_rows [OF _ _ batch_ok_empty] by (simp add: snapshot_batch_def)

section \<open>Replaying a batch\<close>

definition apply_drow :: "DataRow \<Rightarrow> replica \<Rightarrow> replica" where
  "apply_drow r rep = rep(m_rowkey r \<mapsto> over (map_find (m_fields r)) (row_of rep (m_rowkey r)))"

lemma apply_rows_drow:
  assumes "\<And>j. j < length rs \<Longrightarrow>
      map_option field_text (find_child b (id_row_prefix @ dec j)) = Some (map_find (m_fields (rs ! j)))"
    and "\<forall>r \<in> set rs. row_ok tn r"
  shows "n \<le> length rs \<Longrightarrow> apply_rows b n rep = fold apply_drow (take n rs) rep"
proof (induction n)
  case (Suc n)
  obtain c where c: "find_child b (id_row_prefix @ dec n) = Some c" "field_text c = map_find (m_fields (rs ! n))"
    using assms(1) [of n] Suc.prems by auto
  have "row_ok tn (rs ! n)" using assms(2) Suc.prems by simp
  then have "apply_row c = apply_drow (rs ! n)"
    using c(2) by (intro ext) (simp add: apply_row_def apply_drow_def row_ok_def)
  then show ?case
    using Suc c by (simp add: apply_rows_def take_Suc_conv_app_nth)
qed (simp add: apply_rows_def)

lemma batch_replay:
  assumes "batch_ok msg rs" "\<forall>r \<in> set rs. row_ok tn r"
  shows "apply_msg msg rep = fold apply_drow rs rep"
proof -
  obtain b where b: "cont_name msg = id_tableupdate" "find_child msg id_body = Some b"
    "field_text b id_rows = Some (dec (length rs))"
    "\<And>j. j < length rs \<Longrightarrow>
      map_option field_text (find_child b (id_row_prefix @ dec j)) = Some (map_find (m_fields (rs ! j)))"
    using assms(1) unfolding batch_ok_def by (metis (no_types, lifting))
  show ?thesis
    using b(1-3) apply_rows_drow [OF b(4) assms(2) order_refl]
    by (simp add: apply_msg_def dec_value_dec)
qed

lemma fold_apply_drow:
  "distinct (map m_rowkey rs) \<Longrightarrow> \<forall>r \<in> set rs. rep (m_rowkey r) = None \<Longrightarrow>
   fold apply_drow rs rep = rep ++ rows_view rs"
proof (induction rs arbitrary: rep)
  case (Cons r rs)
  let ?rep = "rep(m_rowkey r \<mapsto> map_find (m_fields r))"
  have 1: "apply_drow r rep = ?rep"
    using Cons.prems(2) by (simp add: apply_drow_def row_of_def over_def fun_eq_iff split: option.split)
  have 2: "rows_view rs (m_rowkey r) = None"
    using Cons.prems(1) by (intro rows_view_none) simp
  have "\<forall>x \<in> set rs. ?rep (m_rowkey x) = None"
    using Cons.prems by (auto simp: image_iff)
  then have 3: "fold apply_drow rs ?rep = ?rep ++ rows_view rs"
    using Cons.prems(1) by (intro Cons.IH) simp_all
  have 4: "?rep ++ rows_view rs = rep ++ rows_view (r # rs)"
    using 2 by (intro ext) (simp add: map_add_def split: option.split)
  show ?case
    unfolding fold_simps 1 3 4 ..
qed simp

section \<open>The batching loop\<close>

text \<open>The messages are batches that together are the rows, in order, and all fit.\<close>

lemma snapshot_loop_ok:
  "snapshot_loop t bs rows msgs = Inr (msgs', bs') \<Longrightarrow> 1 \<le> bs \<Longrightarrow>
   1 \<le> bs' \<and> (\<exists>parts. concat parts = rows \<and> msgs' = msgs @ map (snapshot_batch t) parts \<and>
     length parts \<le> length rows \<and>
     list_all (\<lambda>p. check_enc_size (snapshot_batch t p) room_for_snap_fields) parts)"
proof (induction t bs rows msgs rule: snapshot_loop.induct)
  case (1 t bs rows msgs)
  let ?p = "take (nat bs) rows" and ?q = "drop (nat bs) rows"
  consider "rows = []" | "rows \<noteq> []" "check_enc_size (snapshot_batch t ?p) room_for_snap_fields"
    | "rows \<noteq> []" "\<not> check_enc_size (snapshot_batch t ?p) room_for_snap_fields" "bs \<noteq> 1"
    using "1.prems"(1) by (cases "rows = []"; cases "check_enc_size (snapshot_batch t ?p) room_for_snap_fields";
        cases "bs = 1") (auto simp: snapshot_loop.simps [of t bs rows] snapshot_loop.simps [of t 1 rows] Let_def)
  then show ?case
  proof cases
    case 1
    then show ?thesis
      using \<open>snapshot_loop t bs rows msgs = _\<close> \<open>1 \<le> bs\<close>
      by (simp add: snapshot_loop.simps)
  next
    case 2
    then have "snapshot_loop t bs ?q (msgs @ [snapshot_batch t ?p]) = Inr (msgs', bs')"
      using "1.prems" by (simp add: snapshot_loop.simps [of t bs rows msgs] Let_def)
    then obtain parts where p: "1 \<le> bs'" "concat parts = ?q" "msgs' = (msgs @ [snapshot_batch t ?p]) @ map (snapshot_batch t) parts"
      "length parts \<le> length ?q" "list_all (\<lambda>p. check_enc_size (snapshot_batch t p) room_for_snap_fields) parts"
      using "1.IH"(1) [OF 2(1) refl 2(2)] "1.prems"(2) by auto
    have "length ?q < length rows"
      using 2(1) "1.prems"(2) by simp
    then show ?thesis
      using p 2 by (intro conjI exI [of _ "?p # parts"]) auto
  next
    case 3
    then have "snapshot_loop t (max 1 (bs div 2)) rows msgs = Inr (msgs', bs')"
      using "1.prems" by (simp add: snapshot_loop.simps [of t bs rows msgs] Let_def)
    then show ?thesis
      using "1.IH"(2) [OF 3(1) refl 3(2,3)] by simp
  qed
qed

section \<open>Labels and sizes\<close>

text \<open>How much an encoded container can grow by an operation.\<close>

lemma enc_items_append: "enc_items (xs @ ys) = enc_items xs @ enc_items ys"
proof (induction xs)
  case (Cons x xs)
  then show ?case by (cases x) simp_all
qed simp

lemma enc_cont_items: "enc_cont c = SEQ_START # enc_items (m_items c) @ [SEQ_END]"
  by (cases c) simp

lemma enc_items_upd:
  assumes "\<And>x. length (enc_items [f x]) \<le> length (enc_items [x]) + k"
  shows "length (enc_items (upd_at i f xs)) \<le> length (enc_items xs) + k"
proof (cases "i < length xs")
  case True
  then have xs: "xs = take i xs @ [xs ! i] @ drop (Suc i) xs"
    by (simp add: id_take_nth_drop)
  have "enc_items (upd_at i f xs) = enc_items (take i xs) @ enc_items [f (xs ! i)] @ enc_items (drop (Suc i) xs)"
    using True by (simp add: upd_at_def upd_conv_take_nth_drop enc_items_append [symmetric] del: enc_items.simps)
  moreover have "enc_items xs = enc_items (take i xs) @ enc_items [xs ! i] @ enc_items (drop (Suc i) xs)"
    by (subst xs) (simp only: enc_items_append)
  ultimately show ?thesis
    using assms [of "xs ! i"] by simp
qed (simp add: upd_at_def)

lemma enc_put_field:
  "length (enc_cont (put_field n v c)) \<le> length (enc_cont c) + (length n + length (esc v) + 2)"
proof (cases "field_ptr c n")
  case None
  then show ?thesis
    by (cases c) (simp add: put_field_def enc_items_append)
next
  case (Some i)
  obtain nm its fm cm where c: "c = TxContainer nm its fm cm" by (cases c)
  have "length (enc_items (upd_at i (set_item_value v) its)) \<le> length (enc_items its) + length (esc v)"
  proof (rule enc_items_upd)
    fix x show "length (enc_items [set_item_value v x]) \<le> length (enc_items [x]) + length (esc v)"
      by (cases x) simp_all
  qed
  then show ?thesis
    using Some c by (simp add: put_field_def)
qed

lemma enc_put_child_then:
  assumes "child_ptr c n = Some i" "\<And>d. length (enc_cont (g d)) \<le> length (enc_cont d) + k"
    "\<And>d. cont_name (g d) = cont_name d"
  shows "length (enc_cont (put_child_then n g c)) \<le> length (enc_cont c) + k"
proof -
  obtain nm its fm cm where c: "c = TxContainer nm its fm cm" by (cases c)
  have "length (enc_items (upd_at i (on_child_item g) its)) \<le> length (enc_items its) + k"
  proof (rule enc_items_upd)
    fix x show "length (enc_items [on_child_item g x]) \<le> length (enc_items [x]) + k"
      using assms(2,3) by (cases x) simp_all
  qed
  then show ?thesis
    using assms(1) c by (simp add: put_child_then_def put_child_def)
qed

lemma esc_dec: "esc (dec n) = dec n"
proof (rule esc_plain)
  show "\<forall>c \<in> set (dec n). \<not> isSpecialChar c"
    using dec_digits [of n] by (auto simp: list_all_iff is_digit_def isSpecialChar_def)
qed

lemma child_ptr_put_child_then: "child_ptr c n \<noteq> None \<Longrightarrow> child_ptr (put_child_then m g c) n \<noteq> None"
  by (cases "child_ptr c m"; cases c)
    (auto simp: put_child_then_def put_child_def child_ptr_def new_container_def set_map_insert
      map_find_dom [symmetric] simp del: not_None_eq)

lemma put_field_q_last: "put_field_q [n] v = put_field n v"
  by (rule ext) simp

text \<open>The labelled message of a batch that passed the check still fits.\<close>

lemma label_fits:
  assumes "batch_ok m rs" "check_enc_size m room_for_snap_fields"
    and "length (dec i) \<le> 18" "length (dec n) \<le> 18"
  shows "check_enc_size (put_field_q QN_head_snapn (to_str (int n)) (put_field_q QN_head_snapi (to_str (int i)) m)) 0"
proof -
  have "find_child m id_head \<noteq> None"
    using assms(1) by (simp add: batch_ok_def)
  then obtain p where p: "child_ptr m id_head = Some p"
    by (cases "child_ptr m id_head") (simp_all add: find_child_def)
  let ?m1 = "put_child_then id_head (put_field id_snapi (dec i)) m"
  let ?m2 = "put_child_then id_head (put_field id_snapn (dec n)) ?m1"
  have 1: "length (enc_cont ?m1) \<le> length (enc_cont m) + (length id_snapi + length (esc (dec i)) + 2)"
    by (rule enc_put_child_then [OF p enc_put_field]) simp
  obtain p' where p': "child_ptr ?m1 id_head = Some p'"
    using child_ptr_put_child_then [of m id_head id_head "put_field id_snapi (dec i)"] p by auto
  have 2: "length (enc_cont ?m2) \<le> length (enc_cont ?m1) + (length id_snapn + length (esc (dec n)) + 2)"
    by (rule enc_put_child_then [OF p' enc_put_field]) simp
  have "cont_name ?m2 = cont_name m" by simp
  then have "length (enc_body ?m2) \<le> length (enc_body m) + 50"
    using 1 2 assms(3,4) by (simp add: enc_body_def esc_dec)
  then show ?thesis
    using assms(2) by (simp add: check_enc_size_def calc_encoded_size_body to_str_dec put_field_q_last)
qed

text \<open>The labels do not disturb the rows.\<close>

lemma label_batch:
  assumes "batch_ok m rs"
  shows "batch_ok (put_field_q [id_head, k] v m) rs"
proof -
  obtain b where m: "wf_cont m" "cont_name m = id_tableupdate" "find_child m id_head \<noteq> None"
    and b: "find_child m id_body = Some b" "field_text b id_rows = Some (dec (length rs))" "count_child b = length rs"
    "\<forall>j. map_option field_text (find_child b (id_row_prefix @ dec j)) =
      (if j < length rs then Some (map_find (m_fields (rs ! j))) else None)"
    using assms by (auto simp: batch_ok_def)
  have "find_child (put_field_q [id_head, k] v m) id_body = Some b"
    "find_child (put_field_q [id_head, k] v m) id_head \<noteq> None"
    using m(1) b(1) by (simp_all add: find_child_put_child_then)
  then show ?thesis
    unfolding batch_ok_def using b m wf_put_field_q [OF m(1), of "[id_head, k]" v]
    by (simp del: put_field_q_simps)
qed

lemma snap_label_batches:
  assumes "list_all2 batch_ok msgs parts"
  shows "list_all2 batch_ok (snap_label msgs) parts"
  using assms by (auto simp: snap_label_def list_all2_conv_all_nth nth_enumerate_eq label_batch
      simp del: put_field_q_simps)

lemma replay_batches:
  assumes "list_all2 batch_ok msgs parts" "\<forall>r \<in> set (concat parts). row_ok tn r"
  shows "fold apply_msg msgs rep = fold apply_drow (concat parts) rep"
  using assms
proof (induction msgs parts arbitrary: rep rule: list_all2_induct)
  case (Cons m msgs p parts)
  then show ?case
    using batch_replay [of m p tn rep] by auto
qed simp

lemma batches_ok:
  "meta_ok t \<Longrightarrow> \<forall>r \<in> set (concat parts). row_ok tn r \<Longrightarrow> list_all2 batch_ok (map (snapshot_batch t) parts) parts"
  by (induction parts) (auto intro: snapshot_batch_ok)

text \<open>A snapshot that does not fail: all of it.\<close>

lemma send_snapshot_ok:
  assumes "table_ok t" "meta_ok t" "nolock_send_snapshopt s t = (t', out, None)"
  shows "table_ok t'" "view t' = view t"
    and "\<exists>ms. out = map (Pair s) ms \<and> fold apply_msg ms Map.empty = view t \<and>
      (length (m_rows t) < 10 ^ 18 \<longrightarrow> list_all (\<lambda>m. check_enc_size m 0) ms)"
proof -
  obtain msgs bs where l: "snapshot_loop t (m_batchsize t) (m_rows t) [] = Inr (msgs, bs)"
    and t': "t' = t\<lparr>m_batchsize := bs\<rparr>" "out = map (Pair s) (snap_label msgs)"
    using assms(3) by (auto simp: nolock_send_snapshopt_def split: sum.splits)
  obtain parts where p: "1 \<le> bs" "concat parts = m_rows t" "msgs = map (snapshot_batch t) parts"
    "length parts \<le> length (m_rows t)"
    "list_all (\<lambda>p. check_enc_size (snapshot_batch t p) room_for_snap_fields) parts"
    using snapshot_loop_ok [OF l] assms(1) by (auto simp: table_ok_def)
  show "table_ok t'" "view t' = view t"
    using assms(1) p(1) t' by (simp_all add: table_ok_def view_def)
  have rows: "\<forall>r \<in> set (concat parts). row_ok (m_table_name t) r" "distinct (map m_rowkey (concat parts))"
    using assms(1) p(2) by (simp_all add: table_ok_def indexes_def)
  have b: "list_all2 batch_ok msgs parts"
    using batches_ok [OF assms(2) rows(1)] p(3) by simp
  have "fold apply_msg (snap_label msgs) Map.empty = rows_view (concat parts)"
    using replay_batches [OF snap_label_batches [OF b] rows(1), of Map.empty] fold_apply_drow [OF rows(2), of Map.empty]
    by simp
  moreover have "check_enc_size m 0" if small: "length (m_rows t) < 10 ^ 18" and m: "m \<in> set (snap_label msgs)" for m
  proof -
    obtain i where i: "i < length msgs"
      "m = put_field_q QN_head_snapn (to_str (int (length msgs))) (put_field_q QN_head_snapi (to_str (int i)) (msgs ! i))"
      using m by (auto simp: snap_label_def in_set_conv_nth nth_enumerate_eq simp del: put_field_q_simps)
    have n: "length msgs < 10 ^ 18" using p(3,4) small by simp
    have "length (dec (length msgs)) \<le> 18" "length (dec i) \<le> 18"
      using n i(1) length_dec_le [of "length msgs" 17] length_dec_le [of i 17] by simp_all
    moreover have "batch_ok (msgs ! i) (parts ! i)"
      using b i(1) by (rule list_all2_nthD)
    moreover have "check_enc_size (msgs ! i) room_for_snap_fields"
      using p(3,5) i(1) by (simp add: list_all_length)
    ultimately show ?thesis
      unfolding i(2) by (intro label_fits)
  qed
  ultimately show "\<exists>ms. out = map (Pair s) ms \<and> fold apply_msg ms Map.empty = view t \<and>
      (length (m_rows t) < 10 ^ 18 \<longrightarrow> list_all (\<lambda>m. check_enc_size m 0) ms)"
    using t'(2) p(2) by (intro exI [of _ "snap_label msgs"]) (auto simp: view_def list_all_iff)
qed

text \<open>A snapshot fails only when a single row is too large for a message, and then sends nothing.\<close>

lemma snapshot_loop_error:
  "snapshot_loop t bs rows msgs = Inl e \<Longrightarrow> 1 \<le> bs \<Longrightarrow>
   e = RuntimeError ''failed to encode snapshot'' \<and>
   (\<exists>r \<in> set rows. \<not> check_enc_size (snapshot_batch t [r]) room_for_snap_fields)"
proof (induction t bs rows msgs rule: snapshot_loop.induct)
  case (1 t bs rows msgs)
  let ?p = "take (nat bs) rows"
  have ne: "rows \<noteq> []"
    using "1.prems"(1) by (auto simp: snapshot_loop.simps)
  show ?case
  proof (cases "check_enc_size (snapshot_batch t ?p) room_for_snap_fields")
    case True
    then have "snapshot_loop t bs (drop (nat bs) rows) (msgs @ [snapshot_batch t ?p]) = Inl e"
      using "1.prems" ne by (simp add: snapshot_loop.simps [of t bs rows msgs] Let_def)
    then show ?thesis
      using "1.IH"(1) [OF ne refl True] "1.prems"(2) by (auto dest: in_set_dropD)
  next
    case False
    show ?thesis
    proof (cases "bs = 1")
      case True
      then have "e = RuntimeError ''failed to encode snapshot''"
        using "1.prems"(1) ne False by (simp add: snapshot_loop.simps [of t 1 rows msgs] Let_def)
      then show ?thesis
        using True False ne by (cases rows) auto
    next
      case nb: False
      then have "snapshot_loop t (max 1 (bs div 2)) rows msgs = Inl e"
        using "1.prems"(1) ne False by (simp add: snapshot_loop.simps [of t bs rows msgs] Let_def)
      then show ?thesis
        using "1.IH"(2) [OF ne refl False nb] by simp
    qed
  qed
qed

section \<open>Rows that cannot be sent\<close>

lemma length_esc_ge: "length s \<le> length (esc s)"
  by (induction s) (auto simp: esc1_def)

lemma enc_item_field: "item_field its n = Some f \<Longrightarrow> length (field_value f) \<le> length (enc_items its)"
  using length_esc_ge [of "field_value f"]
  by (induction its n rule: item_field.induct) (auto split: if_splits)

lemma enc_item_child: "item_child its n = Some d \<Longrightarrow> length (enc_cont d) \<le> length (enc_items its)"
  by (induction its n rule: item_child.induct) (auto split: if_splits)

lemma enc_find_field: "wf_cont c \<Longrightarrow> field_text c n = Some v \<Longrightarrow> length v \<le> length (enc_cont c)"
  using enc_item_field [of "m_items c" n] by (auto simp: field_text_def find_field_items enc_cont_items)

lemma enc_find_child: "wf_cont c \<Longrightarrow> find_child c n = Some d \<Longrightarrow> length (enc_cont d) \<le> length (enc_cont c)"
  using enc_item_child [of "m_items c" n d] by (simp add: find_child_items enc_cont_items)

text \<open>A message is at least as long as every value in its rows.\<close>

lemma batch_size_ge:
  assumes "batch_ok m rs" "j < length rs" "map_find (m_fields (rs ! j)) n = Some v"
  shows "length v + 14 \<le> calc_encoded_size m"
proof -
  obtain b c where m: "wf_cont m" "find_child m id_body = Some b"
    "find_child b (id_row_prefix @ dec j) = Some c" "field_text c = map_find (m_fields (rs ! j))"
    using assms(1,2) unfolding batch_ok_def by (force dest: spec [of _ j])
  have wf: "wf_cont b" "wf_cont c"
    using m wf_find_child by blast+
  have "length v \<le> length (enc_cont c)"
    using enc_find_field [OF wf(2)] m(4) assms(3) by simp
  also have "\<dots> \<le> length (enc_cont b)" using enc_find_child [OF wf(1) m(3)] .
  also have "\<dots> \<le> length (enc_cont m)" using enc_find_child [OF m(1,2)] .
  finally show ?thesis by (simp add: calc_encoded_size_body enc_body_def)
qed

end
