(* ===== verification/Monitor_Model.thy ===== *)
theory Monitor_Model
  imports Data_Table
begin

text \<open>
  The monitor (\<^verbatim>\<open>libexio/exio/Monitor.h\<close>, \<^verbatim>\<open>libexio/Monitor.cc\<close>): the collection of
  tables by name.  Operations return the monitor, what they sent, and an exception that left
  them.  \<open>live\<close>, \<open>now\<close> and the list of sessions are parameters, as for the tables.
\<close>

record Monitor =
  m_tables :: "(string, DataTable) stdmap"

type_synonym moutcome = "Monitor \<times> sends \<times> exn option"

definition new_Monitor :: Monitor where
  "new_Monitor = \<lparr>m_tables = []\<rparr>"

definition set_table :: "string \<Rightarrow> DataTable \<Rightarrow> Monitor \<Rightarrow> Monitor" where
  "set_table name t m = m\<lparr>m_tables := map_assign name t (m_tables m)\<rparr>"

text \<open>A call on a table found in the collection, through its pointer.\<close>

definition on_table :: "string \<Rightarrow> (DataTable \<Rightarrow> outcome) \<Rightarrow> Monitor \<Rightarrow> moutcome" where
  "on_table name f m =
     (case map_find (m_tables m) name of
        None \<Rightarrow> (m, [], None)
      | Some t \<Rightarrow> (case f t of (t', out, e) \<Rightarrow> (set_table name t' m, out, e)))"

section \<open>Subscriptions\<close>

definition unsubscribe_all :: "SID \<Rightarrow> Monitor \<Rightarrow> Monitor" where
  "unsubscribe_all sid m = m\<lparr>m_tables := map (\<lambda>(n, t). (n, del_subscriber sid t)) (m_tables m)\<rparr>"

text \<open>An exception of one table is logged and the loop goes on.\<close>

fun subscribe_tables :: "SID \<Rightarrow> (string, DataTable) stdmap \<Rightarrow> (string, DataTable) stdmap \<times> sends" where
  "subscribe_tables sid [] = ([], [])"
| "subscribe_tables sid ((n, t) # ts) =
     (let (t', out, e) = add_subscriber sid t; (ts', out') = subscribe_tables sid ts
      in ((n, t') # ts', out @ out'))"

definition subscribe_all :: "SID \<Rightarrow> Monitor \<Rightarrow> Monitor \<times> sends" where
  "subscribe_all sid m =
     (let (ts, out) = subscribe_tables sid (m_tables m) in (m\<lparr>m_tables := ts\<rparr>, out))"

fun add_subscribers :: "SID list \<Rightarrow> DataTable \<Rightarrow> outcome" where
  "add_subscribers [] t = (t, [], None)"
| "add_subscribers (s # ss) t =
     (case add_subscriber s t of
        (t1, out, Some e) \<Rightarrow> (t1, out, Some e)
      | (t1, out, None) \<Rightarrow>
          (case add_subscribers ss t1 of (t2, out2, e) \<Rightarrow> (t2, out @ out2, e)))"

text \<open>The new table is registered after every session has been subscribed to it.\<close>

definition create_table_NOLOCK :: "SID list \<Rightarrow> string \<Rightarrow> Monitor \<Rightarrow> moutcome" where
  "create_table_NOLOCK sessions table_name m =
     (case add_subscribers sessions (new_DataTable table_name) of
        (t, out, Some e) \<Rightarrow> (m, out, Some e)
      | (t, out, None) \<Rightarrow> (set_table table_name t m, out, None))"

text \<open>The pattern of the updating operations: find the table or create it, then call it.\<close>

definition find_or_create ::
  "SID list \<Rightarrow> string \<Rightarrow> (DataTable \<Rightarrow> outcome) \<Rightarrow> Monitor \<Rightarrow> moutcome" where
  "find_or_create sessions table_name f m =
     (if map_find (m_tables m) table_name = None then
        case create_table_NOLOCK sessions table_name m of
          (m1, out, Some e) \<Rightarrow> (m1, out, Some e)
        | (m1, out, None) \<Rightarrow>
            (case on_table table_name f m1 of (m2, out2, e) \<Rightarrow> (m2, out @ out2, e))
      else on_table table_name f m)"

section \<open>Updates\<close>

definition mon_add_columns ::
  "tm \<Rightarrow> (SID \<Rightarrow> bool) \<Rightarrow> SID list \<Rightarrow> string \<Rightarrow> string list \<Rightarrow> Monitor \<Rightarrow> moutcome" where
  "mon_add_columns now live sessions table_name cols m =
     find_or_create sessions table_name (add_columns now live cols) m"

definition update_table ::
  "tm \<Rightarrow> (SID \<Rightarrow> bool) \<Rightarrow> SID list \<Rightarrow> string \<Rightarrow> string \<Rightarrow> (string, string) stdmap \<Rightarrow> Monitor \<Rightarrow> moutcome"
where
  "update_table now live sessions table_name row_key up m =
     find_or_create sessions table_name (update_row now live row_key up) m"

definition mon_update_meta ::
  "(SID \<Rightarrow> bool) \<Rightarrow> SID list \<Rightarrow> string \<Rightarrow> string \<Rightarrow> string \<Rightarrow> txContainer \<Rightarrow> Monitor \<Rightarrow> moutcome" where
  "mon_update_meta live sessions table_name row_key column meta m =
     find_or_create sessions table_name (update_meta live row_key column meta) m"

definition table_column_attr ::
  "SID list \<Rightarrow> string \<Rightarrow> string \<Rightarrow> txContainer \<Rightarrow> Monitor \<Rightarrow> moutcome" where
  "table_column_attr sessions table_name column attr m =
     find_or_create sessions table_name (\<lambda>t. (add_column_attr column attr t, [], None)) m"

text \<open>Loops over all tables that stop at the first exception.\<close>

fun each_table :: "(DataTable \<Rightarrow> outcome) \<Rightarrow> (string, DataTable) stdmap \<Rightarrow>
  (string, DataTable) stdmap \<times> sends \<times> exn option" where
  "each_table f [] = ([], [], None)"
| "each_table f ((n, t) # ts) =
     (case f t of
        (t', out, Some e) \<Rightarrow> ((n, t') # ts, out, Some e)
      | (t', out, None) \<Rightarrow>
          (case each_table f ts of (ts', out', e) \<Rightarrow> ((n, t') # ts', out @ out', e)))"

definition clear_all_tables :: "(SID \<Rightarrow> bool) \<Rightarrow> Monitor \<Rightarrow> moutcome" where
  "clear_all_tables live m =
     (case each_table (clear_table live) (m_tables m) of
        (ts, out, e) \<Rightarrow> (m\<lparr>m_tables := ts\<rparr>, out, e))"

definition broadcast_snapshot_all :: "(SID \<Rightarrow> bool) \<Rightarrow> Monitor \<Rightarrow> moutcome" where
  "broadcast_snapshot_all live m =
     (case each_table (snapshot live) (m_tables m) of
        (ts, out, e) \<Rightarrow> (m\<lparr>m_tables := ts\<rparr>, out, e))"

definition broadcast_snapshot :: "(SID \<Rightarrow> bool) \<Rightarrow> string \<Rightarrow> Monitor \<Rightarrow> moutcome" where
  "broadcast_snapshot live tablename m = on_table tablename (snapshot live) m"

definition mon_clear_table :: "(SID \<Rightarrow> bool) \<Rightarrow> string \<Rightarrow> Monitor \<Rightarrow> moutcome" where
  "mon_clear_table live tablename m = on_table tablename (clear_table live) m"

definition mon_delete_row :: "(SID \<Rightarrow> bool) \<Rightarrow> string \<Rightarrow> string \<Rightarrow> Monitor \<Rightarrow> moutcome" where
  "mon_delete_row live tablename rowkey m = on_table tablename (delete_row live rowkey) m"

section \<open>Queries\<close>

definition mon_tables :: "Monitor \<Rightarrow> string list" where
  "mon_tables m = map fst (m_tables m)"

definition table_exists :: "string \<Rightarrow> Monitor \<Rightarrow> bool" where
  "table_exists table_name m \<longleftrightarrow> map_find (m_tables m) table_name \<noteq> None"

definition mon_table_subscribers :: "string \<Rightarrow> SID list \<Rightarrow> Monitor \<Rightarrow> SID list" where
  "mon_table_subscribers table_name l m =
     (case map_find (m_tables m) table_name of None \<Rightarrow> l | Some t \<Rightarrow> l @ table_subscribers t)"

definition mon_has_row :: "string \<Rightarrow> string \<Rightarrow> Monitor \<Rightarrow> bool" where
  "mon_has_row tablename rowkey m =
     (case map_find (m_tables m) tablename of None \<Rightarrow> False | Some t \<Rightarrow> has_row rowkey t)"

definition has_table :: "string \<Rightarrow> Monitor \<Rightarrow> bool" where
  "has_table tablename m \<longleftrightarrow> map_find (m_tables m) tablename \<noteq> None"

definition mon_copy_table ::
  "string \<Rightarrow> (string, (string, string) stdmap) stdmap \<Rightarrow> Monitor \<Rightarrow> (string, (string, string) stdmap) stdmap"
where
  "mon_copy_table tablename dest m =
     (case map_find (m_tables m) tablename of None \<Rightarrow> dest | Some t \<Rightarrow> table_copy_table dest t)"

definition mon_copy_table2 ::
  "string \<Rightarrow> string list \<Rightarrow> string list list \<Rightarrow> Monitor \<Rightarrow> string list \<times> string list list" where
  "mon_copy_table2 tablename cols rows m =
     (case map_find (m_tables m) tablename of
        None \<Rightarrow> (cols, rows) | Some t \<Rightarrow> table_copy_table2 rows t)"

definition mon_copy_row ::
  "string \<Rightarrow> string \<Rightarrow> (string, string) stdmap \<Rightarrow> Monitor \<Rightarrow> (string, string) stdmap res" where
  "mon_copy_row tablename rowkey dest m =
     (case map_find (m_tables m) tablename of
        None \<Rightarrow> Inr dest | Some t \<Rightarrow> table_copy_row rowkey dest t)"

definition mon_table_size :: "string \<Rightarrow> Monitor \<Rightarrow> nat" where
  "mon_table_size tablename m =
     (case map_find (m_tables m) tablename of None \<Rightarrow> 0 | Some t \<Rightarrow> table_size t)"

definition mon_copy_field ::
  "string \<Rightarrow> string \<Rightarrow> string \<Rightarrow> string \<Rightarrow> Monitor \<Rightarrow> (string \<times> bool) res" where
  "mon_copy_field tablename rowkey fn dest m =
     (case map_find (m_tables m) tablename of
        None \<Rightarrow> Inr (dest, False) | Some t \<Rightarrow> table_copy_field rowkey fn dest t)"

definition mon_copy_rowkeys :: "string \<Rightarrow> string list \<Rightarrow> Monitor \<Rightarrow> string list" where
  "mon_copy_rowkeys tablename dest m =
     (case map_find (m_tables m) tablename of None \<Rightarrow> dest | Some t \<Rightarrow> table_copy_rowkeys dest t)"

end
