(* ===== verification/Monitor_Laws.thy ===== *)
theory Monitor_Laws
  imports Table_Snapshot Monitor_Model
begin

text \<open>
  The invariant of tables and of the monitor: every operation keeps it, sends only to
  subscribers that are alive or to the sessions it was given, adds no other subscribers, and
  raises no undefined access.
\<close>

section \<open>Every operation keeps the invariant\<close>

lemma publish_table [simp]: "fst (publish live evs t) = t"
  by (simp add: publish_def split: sum.split)

lemma table_ok_irrelevant [simp]:
  "table_ok (t\<lparr>m_subscribers := s\<rparr>) = table_ok t"
  "table_ok (t\<lparr>m_column_attrs := a\<rparr>) = table_ok t"
  "table_ok (t\<lparr>m_pcmd := p\<rparr>) = table_ok t"
  "1 \<le> b \<Longrightarrow> table_ok t \<Longrightarrow> table_ok (t\<lparr>m_batchsize := b\<rparr>)"
  by (simp_all add: table_ok_def)

lemma table_ok_add_columns:
  assumes "table_ok t"
  shows "table_ok (fst (add_columns now live cs t))"
proof -
  obtain t' evs where a: "add_columns_loop now cs t = (t', evs)"
    by (cases "add_columns_loop now cs t")
  then show ?thesis
    using add_columns_loop_ok [OF assms a] by (simp add: add_columns_def)
qed

lemma table_ok_update_row:
  assumes "table_ok t" "map_ok up"
  shows "table_ok (fst (update_row now live k up t))"
proof -
  obtain t' out e where u: "update_row now live k up t = (t', out, e)"
    by (cases "update_row now live k up t")
  then show ?thesis using update_row_replay(1) [OF assms u] by simp
qed

lemma table_ok_clear: "table_ok t \<Longrightarrow> table_ok (fst (clear_table live t))"
  by (simp add: clear_table_def table_ok_def)

lemma delete_row_table:
  assumes "table_ok t" "map_find (m_row_index t) k = Some i"
  shows "fst (delete_row live k t) =
    t\<lparr>m_rows := take i (m_rows t) @ drop (i + 1) (m_rows t),
      m_row_index := map (\<lambda>(k, j). (k, if j > i then j - 1 else j)) (map_erase k (m_row_index t))\<rparr>"
  using assms by (simp add: delete_row_def)

lemma table_ok_delete_row:
  assumes "table_ok t"
  shows "table_ok (fst (delete_row live k t))"
proof (cases "map_find (m_row_index t) k")
  case None
  then show ?thesis using assms by (simp add: delete_row_def)
next
  case (Some i)
  have "indexes (map (\<lambda>(k, j). (k, if j > i then j - 1 else j)) (map_erase k (m_row_index t)))
      (map m_rowkey (take i (m_rows t) @ drop (i + 1) (m_rows t)))"
    using indexes_delete [OF _ Some, of "map m_rowkey (m_rows t)"] assms
    by (simp add: table_ok_def take_map drop_map)
  then show ?thesis
    using assms unfolding delete_row_table [OF assms Some]
    by (auto simp: table_ok_def dest: in_set_takeD in_set_dropD)
qed

lemma table_ok_column_attr: "table_ok t \<Longrightarrow> table_ok (add_column_attr c a t)"
  by (simp add: add_column_attr_def split: option.split)

lemma table_ok_update_meta: "table_ok t \<Longrightarrow> table_ok (fst (update_meta live k c meta t))"
  by (simp add: update_meta_def Let_def)

lemma table_ok_send_snapshot: "table_ok t \<Longrightarrow> table_ok (fst (nolock_send_snapshopt s t))"
  using snapshot_loop_ok [of t "m_batchsize t" "m_rows t" "[]"]
  by (auto simp: nolock_send_snapshopt_def table_ok_def split: sum.splits)

lemma table_ok_snapshot_subs: "table_ok t \<Longrightarrow> table_ok (fst (snapshot_subs ss t))"
proof (induction ss arbitrary: t)
  case (Cons s ss)
  obtain t1 out e where 1: "nolock_send_snapshopt s t = (t1, out, e)"
    by (cases "nolock_send_snapshopt s t")
  then have "table_ok t1" using table_ok_send_snapshot [OF Cons.prems, of s] by simp
  then show ?case using Cons.IH [of t1] 1 by (auto split: prod.splits option.splits)
qed simp

lemma table_ok_snapshot: "table_ok t \<Longrightarrow> table_ok (fst (snapshot live t))"
  by (simp add: snapshot_def table_ok_snapshot_subs)

lemma table_ok_add_subscriber: "table_ok t \<Longrightarrow> table_ok (fst (add_subscriber s t))"
  using table_ok_send_snapshot [of "t\<lparr>m_subscribers := m_subscribers t @ [s]\<rparr>" s]
  by (auto simp: add_subscriber_def Let_def split: prod.splits)

lemma table_ok_add_subscribers: "table_ok t \<Longrightarrow> table_ok (fst (add_subscribers ss t))"
proof (induction ss arbitrary: t)
  case (Cons s ss)
  obtain t1 out e where 1: "add_subscriber s t = (t1, out, e)"
    by (cases "add_subscriber s t")
  then have "table_ok t1" using table_ok_add_subscriber [OF Cons.prems, of s] by simp
  then show ?case using Cons.IH [of t1] 1 by (auto split: prod.splits option.splits)
qed simp

lemma table_ok_del_subscriber: "table_ok t \<Longrightarrow> table_ok (del_subscriber s t)"
  by (simp add: del_subscriber_def)

lemmas table_ok_ops = table_ok_add_columns table_ok_update_row table_ok_clear table_ok_delete_row
  table_ok_column_attr table_ok_update_meta table_ok_snapshot table_ok_add_subscriber
  table_ok_del_subscriber

section \<open>The monitor\<close>

definition mon_ok :: "Monitor \<Rightarrow> bool" where
  "mon_ok m \<longleftrightarrow> map_ok (m_tables m) \<and> (\<forall>(n, t) \<in> set (m_tables m). table_ok t)"

lemma set_map_assign_pairs: "set (map_assign k v m) \<subseteq> insert (k, v) (set m)"
  by (induction k v m rule: map_assign.induct) auto

lemma map_find_mem: "map_find m k = Some v \<Longrightarrow> (k, v) \<in> set m"
  by (simp add: map_find_def map_of_SomeD)

lemma mon_ok_set: "mon_ok m \<Longrightarrow> table_ok t \<Longrightarrow> mon_ok (set_table n t m)"
  using set_map_assign_pairs [of n t "m_tables m"]
  by (auto simp: mon_ok_def set_table_def map_ok_assign)

lemma mon_ok_find: "mon_ok m \<Longrightarrow> map_find (m_tables m) n = Some t \<Longrightarrow> table_ok t"
  by (auto simp: mon_ok_def dest: map_find_mem)

lemma mon_ok_on_table:
  assumes "mon_ok m" "\<And>t. table_ok t \<Longrightarrow> table_ok (fst (f t))"
  shows "mon_ok (fst (on_table n f m))"
proof (cases "map_find (m_tables m) n")
  case None
  with assms show ?thesis by (simp add: on_table_def)
next
  case (Some t)
  obtain t' out e where f: "f t = (t', out, e)" by (cases "f t")
  have "table_ok t'" using assms(2) [OF mon_ok_find [OF assms(1) Some]] f by simp
  with assms(1) Some f show ?thesis by (simp add: on_table_def mon_ok_set)
qed

lemma mon_ok_create: "mon_ok m \<Longrightarrow> mon_ok (fst (create_table_NOLOCK ss n m))"
  using table_ok_add_subscribers [OF table_ok_new, of ss n]
  by (auto simp: create_table_NOLOCK_def intro: mon_ok_set split: prod.splits option.splits)

lemma mon_ok_find_or_create:
  assumes "mon_ok m" "\<And>t. table_ok t \<Longrightarrow> table_ok (fst (f t))"
  shows "mon_ok (fst (find_or_create ss n f m))"
proof -
  obtain m1 out e where c: "create_table_NOLOCK ss n m = (m1, out, e)"
    by (cases "create_table_NOLOCK ss n m")
  then have "mon_ok m1" using mon_ok_create [OF assms(1), of ss n] by simp
  then have "mon_ok (fst (on_table n f m1))" using mon_ok_on_table assms(2) by blast
  then show ?thesis
    using mon_ok_on_table [OF assms] c \<open>mon_ok m1\<close>
    by (auto simp: find_or_create_def split: prod.splits option.splits)
qed

lemma each_table_ok:
  assumes f: "\<And>t. table_ok t \<Longrightarrow> table_ok (fst (f t))"
  shows "\<forall>(n, t) \<in> set ts. table_ok t \<Longrightarrow>
    map fst (fst (each_table f ts)) = map fst ts \<and> (\<forall>(n, t) \<in> set (fst (each_table f ts)). table_ok t)"
proof (induction ts)
  case (Cons p ts)
  obtain n t where p: "p = (n, t)" by (cases p)
  obtain t' out e where t': "f t = (t', out, e)" by (cases "f t")
  have "table_ok t'" using f [of t] Cons.prems p t' by simp
  obtain ts' out' e' where r: "each_table f ts = (ts', out', e')" by (cases "each_table f ts")
  show ?case using Cons p t' r \<open>table_ok t'\<close> by (cases e) auto
qed simp

lemma map_ok_same_keys: "map fst m = map fst m' \<Longrightarrow> map_ok m = map_ok m'"
  by (simp add: map_ok_def)

lemma mon_ok_each:
  assumes "mon_ok m" "\<And>t. table_ok t \<Longrightarrow> table_ok (fst (f t))"
  shows "mon_ok (m\<lparr>m_tables := fst (each_table f (m_tables m))\<rparr>)"
proof -
  have ts: "\<forall>(n, t) \<in> set (m_tables m). table_ok t" using assms(1) by (simp add: mon_ok_def)
  note e = each_table_ok [of f, OF assms(2) ts]
  show ?thesis
    using e map_ok_same_keys [OF conjunct1 [OF e]] assms(1) by (simp add: mon_ok_def)
qed

lemma subscribe_tables_ok:
  "\<forall>(n, t) \<in> set ts. table_ok t \<Longrightarrow>
   map fst (fst (subscribe_tables s ts)) = map fst ts \<and>
   (\<forall>(n, t) \<in> set (fst (subscribe_tables s ts)). table_ok t)"
proof (induction s ts rule: subscribe_tables.induct)
  case (2 s n t ts)
  obtain t' out e where a: "add_subscriber s t = (t', out, e)" by (cases "add_subscriber s t")
  have "table_ok t'" using table_ok_add_subscriber [of t s] 2(2) a by simp
  then show ?case using 2 a by (auto split: prod.splits)
qed simp

lemma mon_ok_subscribe_all: "mon_ok m \<Longrightarrow> mon_ok (fst (subscribe_all s m))"
proof -
  assume m: "mon_ok m"
  then have "\<forall>(n, t) \<in> set (m_tables m). table_ok t" by (simp add: mon_ok_def)
  note e = subscribe_tables_ok [OF this, of s]
  show ?thesis
    using e map_ok_same_keys [OF conjunct1 [OF e]] m
    by (simp add: mon_ok_def subscribe_all_def case_prod_beta)
qed

lemma mon_ok_unsubscribe_all: "mon_ok m \<Longrightarrow> mon_ok (unsubscribe_all s m)"
  by (auto simp: mon_ok_def unsubscribe_all_def map_ok_map_values table_ok_del_subscriber)

section \<open>What operations send and raise\<close>

text \<open>
  \<open>S\<close> are the sessions an operation was given.  It sends to them and to subscribers that are
  alive, and the subscribers it adds are among them.
\<close>

definition behaved :: "(SID \<Rightarrow> bool) \<Rightarrow> SID set \<Rightarrow> DataTable \<Rightarrow> outcome \<Rightarrow> bool" where
  "behaved live S t r \<longleftrightarrow> (case r of (t', out, e) \<Rightarrow>
     set (m_subscribers t') \<subseteq> set (m_subscribers t) \<union> S \<and> fst ` set out \<subseteq> Collect live \<union> S \<and>
     (\<forall>x. e = Some x \<longrightarrow> \<not> undefined_access x))"

lemma serialise_event_total: "\<exists>ms. serialise_event ev msgs = Inr ms"
  by (cases "(ev, msgs)" rule: serialise_event.cases) (auto simp: RowMultiUpdate_serialise_def multi_update_loop_eq)

lemma serialise_total: "\<exists>ms. foldR serialise_event evs msgs = Inr ms"
proof (induction evs arbitrary: msgs)
  case (Cons ev evs)
  obtain ms where "serialise_event ev msgs = Inr ms" using serialise_event_total by blast
  then show ?case using Cons by simp
qed simp

lemma behaved_publish:
  assumes "m_subscribers t' = m_subscribers t"
  shows "behaved live S t (publish live evs t')"
proof -
  obtain ms where "foldR serialise_event evs [] = Inr ms" using serialise_total by blast
  then show ?thesis
    using assms by (auto simp: behaved_def publish_def nolock_publish_update_def Let_def copy_subscribers_def)
qed

lemma behaved_quiet: "m_subscribers t' = m_subscribers t \<Longrightarrow> behaved live S t (t', [], None)"
  by (simp add: behaved_def)

lemma subs_add_columns: "m_subscribers (fst (add_columns_loop now cs t)) = m_subscribers t"
proof (induction cs arbitrary: t)
  case (Cons c cs)
  have "m_subscribers (fst (add_column_NOLOCK now c t)) = m_subscribers t"
    by (simp add: add_column_NOLOCK_def Let_def split: prod.splits)
  then show ?case using Cons by (simp add: case_prod_beta)
qed simp

lemma behaved_add_columns: "behaved live S t (add_columns now live cs t)"
  using subs_add_columns [of now cs t]
  by (auto simp: add_columns_def behaved_publish behaved_quiet split: prod.split)

lemma behaved_update_row:
  assumes "table_ok t"
  shows "behaved live S t (update_row now live k up t)"
proof -
  obtain t' evs where u: "update_row_step now k up t t' evs"
    "update_row now live k up t = (if evs \<noteq> [] then publish live evs t' else (t', [], None))"
    using update_row_step [OF assms] by blast
  obtain t1 e1 t2 e2 i r' where
    1: "if nolock_has_row k t then (t1, e1) = (t, []) else (t1, e1) = nolock_add_row k t" and
    2: "add_columns_loop now (filter (\<lambda>n. \<not> row_reserved n) (map fst up)) t1 = (t2, e2)" and
    3: "t' = t2\<lparr>m_rows := (m_rows t2)[i := r']\<rparr>"
    using u(1) unfolding update_row_step_def by blast
  have "m_subscribers t' = m_subscribers t"
    using 1 3 arg_cong [OF 2, of fst] subs_add_columns [of now "filter (\<lambda>n. \<not> row_reserved n) (map fst up)" t1]
    by (auto simp: nolock_add_row_def Let_def split: if_splits)
  then show ?thesis
    using u(2) by (simp add: behaved_publish behaved_quiet)
qed

lemma behaved_clear: "behaved live S t (clear_table live t)"
  by (simp add: clear_table_def behaved_publish)

lemma behaved_delete: "behaved live S t (delete_row live k t)"
  by (auto simp: delete_row_def behaved_publish behaved_quiet split: option.split)

lemma behaved_meta: "behaved live S t (update_meta live k c meta t)"
  by (simp add: update_meta_def Let_def behaved_publish)

lemma behaved_attr: "behaved live S t (add_column_attr c a t, [], None)"
  by (simp add: behaved_quiet add_column_attr_def split: option.split)

lemma send_snapshot_shape:
  assumes "table_ok t" "nolock_send_snapshopt s t = (t', out, e)"
  shows "m_subscribers t' = m_subscribers t" "fst ` set out \<subseteq> {s}" "\<forall>x. e = Some x \<longrightarrow> \<not> undefined_access x"
  using assms snapshot_loop_error [of t "m_batchsize t" "m_rows t" "[]"]
  by (auto simp: nolock_send_snapshopt_def table_ok_def split: sum.splits)

lemma behaved_snapshot_subs:
  assumes "table_ok t" "\<forall>s \<in> set ss. live s"
  shows "behaved live S t (snapshot_subs ss t)"
  using assms
proof (induction ss arbitrary: t)
  case (Cons s ss)
  obtain t1 out e where 1: "nolock_send_snapshopt s t = (t1, out, e)" by (cases "nolock_send_snapshopt s t")
  note s = send_snapshot_shape [OF Cons.prems(1) 1]
  have "table_ok t1" using table_ok_send_snapshot [OF Cons.prems(1), of s] 1 by simp
  then have "behaved live S t1 (snapshot_subs ss t1)" using Cons by simp
  then show ?case
    using 1 s Cons.prems(2) by (cases e) (auto simp: behaved_def image_Un split: prod.splits)
qed (simp add: behaved_def)

lemma behaved_snapshot: "table_ok t \<Longrightarrow> behaved live S t (snapshot live t)"
  by (simp add: snapshot_def copy_subscribers_def behaved_snapshot_subs)

lemma behaved_add_subscriber:
  assumes "table_ok t" "s \<in> S"
  shows "behaved live S t (add_subscriber s t)"
proof -
  let ?t = "t\<lparr>m_subscribers := m_subscribers t @ [s]\<rparr>"
  obtain t1 out e where 1: "nolock_send_snapshopt s ?t = (t1, out, e)" by (cases "nolock_send_snapshopt s ?t")
  note s = send_snapshot_shape [OF _ 1]
  show ?thesis
    using 1 s assms by (auto simp: add_subscriber_def behaved_def Let_def)
qed

lemma behaved_add_subscribers:
  assumes "table_ok t" "set ss \<subseteq> S"
  shows "behaved live S t (add_subscribers ss t)"
  using assms
proof (induction ss arbitrary: t)
  case (Cons s ss)
  obtain t1 out e where 1: "add_subscriber s t = (t1, out, e)" by (cases "add_subscriber s t")
  have "behaved live S t (t1, out, e)" using behaved_add_subscriber [of t s S live] 1 Cons.prems by simp
  moreover have "table_ok t1" using table_ok_add_subscriber [OF Cons.prems(1), of s] 1 by simp
  then have "behaved live S t1 (add_subscribers ss t1)" using Cons by simp
  ultimately show ?case
    using 1 by (cases e) (auto simp: behaved_def image_Un split: prod.splits)
qed (simp add: behaved_def)

lemmas behaved_ops = behaved_add_columns behaved_update_row behaved_clear behaved_delete behaved_meta
  behaved_attr behaved_snapshot

section \<open>What the monitor sends and raises\<close>

definition subs_of :: "Monitor \<Rightarrow> SID set" where
  "subs_of m = (\<Union>(n, t) \<in> set (m_tables m). set (m_subscribers t))"

text \<open>The same law for the monitor, with its invariant.\<close>

definition mon_behaved :: "(SID \<Rightarrow> bool) \<Rightarrow> SID set \<Rightarrow> Monitor \<Rightarrow> moutcome \<Rightarrow> bool" where
  "mon_behaved live S m r \<longleftrightarrow> (case r of (m', out, e) \<Rightarrow>
     mon_ok m' \<and> subs_of m' \<subseteq> subs_of m \<union> S \<and> fst ` set out \<subseteq> Collect live \<union> S \<and>
     (\<forall>x. e = Some x \<longrightarrow> \<not> undefined_access x))"

lemma subs_of_set: "subs_of (set_table n t m) \<subseteq> subs_of m \<union> set (m_subscribers t)"
  using set_map_assign_pairs [of n t "m_tables m"] by (fastforce simp: subs_of_def set_table_def)

lemma subs_of_find: "map_find (m_tables m) n = Some t \<Longrightarrow> set (m_subscribers t) \<subseteq> subs_of m"
  by (force simp: subs_of_def dest: map_find_mem)

lemma mon_behaved_on_table:
  assumes "mon_ok m" "\<And>t. table_ok t \<Longrightarrow> table_ok (fst (f t))" "\<And>t. table_ok t \<Longrightarrow> behaved live S t (f t)"
  shows "mon_behaved live S m (on_table n f m)"
proof (cases "map_find (m_tables m) n")
  case None
  with assms(1) show ?thesis by (simp add: on_table_def mon_behaved_def)
next
  case (Some t)
  obtain t' out e where f: "f t = (t', out, e)" by (cases "f t")
  have t: "table_ok t" by (rule mon_ok_find [OF assms(1) Some])
  have "behaved live S t (t', out, e)" "table_ok t'" using assms(2,3) [OF t] f by simp_all
  then show ?thesis
    using Some f subs_of_set [of n t' m] subs_of_find [OF Some] mon_ok_set [OF assms(1)]
    by (auto simp: on_table_def mon_behaved_def behaved_def)
qed

lemma mon_behaved_create:
  assumes "mon_ok m" "set ss \<subseteq> S"
  shows "mon_behaved live S m (create_table_NOLOCK ss n m)"
proof -
  obtain t out e where a: "add_subscribers ss (new_DataTable n) = (t, out, e)"
    by (cases "add_subscribers ss (new_DataTable n)")
  have "behaved live S (new_DataTable n) (t, out, e)" "table_ok t"
    using behaved_add_subscribers [OF table_ok_new assms(2), of live n]
      table_ok_add_subscribers [OF table_ok_new, of ss n] a by simp_all
  moreover have "m_subscribers (new_DataTable n) = []" by (simp add: new_DataTable_def)
  ultimately show ?thesis
    using a subs_of_set [of n t m] mon_ok_set [OF assms(1)] assms(1)
    by (cases e) (auto simp: create_table_NOLOCK_def mon_behaved_def behaved_def)
qed

lemma mon_behaved_find_or_create:
  assumes "mon_ok m" "set ss \<subseteq> S" "\<And>t. table_ok t \<Longrightarrow> table_ok (fst (f t))"
    "\<And>t. table_ok t \<Longrightarrow> behaved live S t (f t)"
  shows "mon_behaved live S m (find_or_create ss n f m)"
proof -
  obtain m1 out e where c: "create_table_NOLOCK ss n m = (m1, out, e)"
    by (cases "create_table_NOLOCK ss n m")
  have 1: "mon_behaved live S m (m1, out, e)" using mon_behaved_create [OF assms(1,2)] c by metis
  then have "mon_ok m1" by (simp add: mon_behaved_def)
  then have "mon_behaved live S m1 (on_table n f m1)" by (intro mon_behaved_on_table assms)
  moreover have "mon_behaved live S m (on_table n f m)" by (intro mon_behaved_on_table assms)
  ultimately show ?thesis
    using c 1 by (cases e) (auto simp: find_or_create_def mon_behaved_def image_Un split: prod.splits)
qed

lemma behaved_each:
  assumes f: "\<And>t. table_ok t \<Longrightarrow> table_ok (fst (f t))" "\<And>t. table_ok t \<Longrightarrow> behaved live S t (f t)"
  shows "\<forall>(n, t) \<in> set ts. table_ok t \<Longrightarrow> each_table f ts = (ts', out, e) \<Longrightarrow>
    (\<Union>(n, t) \<in> set ts'. set (m_subscribers t)) \<subseteq> (\<Union>(n, t) \<in> set ts. set (m_subscribers t)) \<union> S \<and>
    fst ` set out \<subseteq> Collect live \<union> S \<and> (\<forall>x. e = Some x \<longrightarrow> \<not> undefined_access x)"
proof (induction ts arbitrary: ts' out e)
  case (Cons p ts)
  obtain n t where p: "p = (n, t)" by (cases p)
  obtain t1 o1 e1 where 1: "f t = (t1, o1, e1)" by (cases "f t")
  obtain ts2 o2 e2 where 2: "each_table f ts = (ts2, o2, e2)" by (cases "each_table f ts")
  have "behaved live S t (t1, o1, e1)" using f(2) [of t] Cons.prems(1) p 1 by simp
  then show ?case
    using Cons.IH [OF _ 2] Cons.prems p 1 2 by (cases e1) (fastforce simp: behaved_def image_Un)+
qed simp

lemma mon_behaved_each:
  assumes "mon_ok m" "\<And>t. table_ok t \<Longrightarrow> table_ok (fst (f t))" "\<And>t. table_ok t \<Longrightarrow> behaved live S t (f t)"
  shows "mon_behaved live S m (case each_table f (m_tables m) of (ts, out, e) \<Rightarrow> (m\<lparr>m_tables := ts\<rparr>, out, e))"
proof -
  obtain ts out e where e: "each_table f (m_tables m) = (ts, out, e)" by (cases "each_table f (m_tables m)")
  have "\<forall>(n, t) \<in> set (m_tables m). table_ok t" using assms(1) by (simp add: mon_ok_def)
  note b = behaved_each [OF assms(2,3) this e]
  have "mon_ok (m\<lparr>m_tables := ts\<rparr>)" using mon_ok_each [of m f, OF assms(1,2)] e by simp
  then show ?thesis
    using b e by (simp add: mon_behaved_def subs_of_def)
qed

lemma behaved_subscribe:
  "\<forall>(n, t) \<in> set ts. table_ok t \<Longrightarrow> subscribe_tables s ts = (ts', out) \<Longrightarrow>
    (\<Union>(n, t) \<in> set ts'. set (m_subscribers t)) \<subseteq> insert s (\<Union>(n, t) \<in> set ts. set (m_subscribers t)) \<and>
    fst ` set out \<subseteq> {s}"
proof (induction ts arbitrary: ts' out)
  case (Cons p ts)
  obtain n t where p: "p = (n, t)" by (cases p)
  obtain t1 o1 e1 where 1: "add_subscriber s t = (t1, o1, e1)" by (cases "add_subscriber s t")
  obtain ts2 o2 where 2: "subscribe_tables s ts = (ts2, o2)" by (cases "subscribe_tables s ts")
  have "behaved (\<lambda>_. False) {s} t (t1, o1, e1)"
    using behaved_add_subscriber [of t s "{s}" "\<lambda>_. False"] Cons.prems(1) p 1 by simp
  then show ?case
    using Cons.IH [OF _ 2] Cons.prems p 1 2 by (fastforce simp: behaved_def image_Un)
qed simp

lemma mon_behaved_subscribe_all:
  assumes "mon_ok m"
  shows "mon_behaved live {s} m (case subscribe_all s m of (m', out) \<Rightarrow> (m', out, None))"
proof -
  obtain ts out where s: "subscribe_tables s (m_tables m) = (ts, out)" by (cases "subscribe_tables s (m_tables m)")
  have "\<forall>(n, t) \<in> set (m_tables m). table_ok t" using assms by (simp add: mon_ok_def)
  from behaved_subscribe [OF this s] show ?thesis
    using mon_ok_subscribe_all [OF assms, of s] s by (auto simp: mon_behaved_def subs_of_def subscribe_all_def)
qed

lemma mon_behaved_ops:
  assumes "mon_ok m" "set ss \<subseteq> S"
  shows "map_ok up \<Longrightarrow> mon_behaved live S m (update_table now live ss n k up m)"
    "mon_behaved live S m (mon_add_columns now live ss n cs m)"
    "mon_behaved live S m (mon_update_meta live ss n k c meta m)"
    "mon_behaved live S m (table_column_attr ss n c a m)"
    "mon_behaved live S m (mon_clear_table live n m)"
    "mon_behaved live S m (mon_delete_row live n k m)"
    "mon_behaved live S m (broadcast_snapshot live n m)"
    "mon_behaved live S m (broadcast_snapshot_all live m)"
    "mon_behaved live S m (clear_all_tables live m)"
  unfolding update_table_def mon_add_columns_def mon_update_meta_def table_column_attr_def
    mon_clear_table_def mon_delete_row_def broadcast_snapshot_def broadcast_snapshot_all_def clear_all_tables_def
  by (intro mon_behaved_find_or_create mon_behaved_on_table mon_behaved_each table_ok_ops behaved_ops assms;
      simp add: table_ok_column_attr)+

end
