(* ===== verification/Table_Theorems.thy ===== *)
theory Table_Theorems
  imports Monitor_Laws
begin

text \<open>
  The properties of tables and of the monitor, with applications at concrete tables.
\<close>

section \<open>The monitor\<close>



definition sample_tm :: tm where
  "sample_tm = \<lparr>tm_year = 115, tm_mon = 0, tm_mday = 31, tm_hour = 9, tm_min = 5, tm_sec = 7\<rparr>"


section \<open>Updates and their subscribers\<close>

text \<open>
  C7. Publishing an update.  An update of a row raises nothing; afterwards every field given
  can be read back; and the messages sent, the same ones in the same order to every live
  subscriber, turn a copy of the old table into a copy of the new one.  (An update that gives
  a new row no field of its own publishes nothing, hence the side condition.)
\<close>

theorem update_row_publishes:
  assumes "table_ok t" "map_ok up" "has_row k t \<or> (\<exists>n v. user_fields up n = Some v)"
  shows "\<exists>t' ms. update_row now live k up t = (t', sent_to (copy_subscribers live t') ms, None) \<and>
    table_ok t' \<and> fold apply_msg ms (view t) = view t' \<and>
    (\<forall>n v. user_fields up n = Some v \<longrightarrow> get_row_field k n t' = Inr v)"
proof -
  obtain t' out e where u: "update_row now live k up t = (t', out, e)"
    by (cases "update_row now live k up t")
  note r = update_row_replay [OF assms(1,2) u]
  obtain ms where ms: "out = sent_to (copy_subscribers live t') ms"
    "sync (fold apply_msg ms (view t)) (m_rows t')" "dom (view t) \<subseteq> dom (fold apply_msg ms (view t))"
    using r(3) by blast
  have d: "distinct (map m_rowkey (m_rows t'))" "distinct (map m_rowkey (m_rows t))"
    using r(1) assms(1) by (simp_all add: table_ok_def indexes_def)
  have "fold apply_msg ms (view t) (m_rowkey x) \<noteq> None" if x: "x \<in> set (m_rows t')" for x
  proof (cases "m_rowkey x \<in> m_rowkey ` set (m_rows t)")
    case True
    then have "m_rowkey x \<in> dom (view t)"
      using rows_view_nth [OF d(2)] by (auto simp: view_def)
    then show ?thesis using ms(3) by blast
  next
    case False
    then have k: "m_rowkey x = k" using r(4) x by blast
    then have "\<not> has_row k t" using False nolock_has_row_iff [OF assms(1)] by (simp add: has_row_def)
    then obtain n v where nv: "user_fields up n = Some v" using assms(3) by blast
    then obtain f where f: "view t' k = Some f" "f n = Some v" using r(5) by blast
    have "f = map_find (m_fields x)"
      using rows_view_nth [OF d(1) x] k f(1) by (simp add: view_def)
    moreover have "n \<noteq> id_row_key" using nv by (auto simp: user_fields_def row_reserved_def)
    ultimately have "map_find (m_fields x) \<noteq> [id_row_key \<mapsto> m_rowkey x]"
      using f(2) by (metis fun_upd_apply option.distinct(1))
    then show ?thesis using ms(2) x by (auto simp: sync_def in_step_def)
  qed
  then have "fold apply_msg ms (view t) = view t'"
    using sync_complete [OF ms(2) d(1)] by (simp add: view_def)
  moreover have "get_row_field k n t' = Inr v" if "user_fields up n = Some v" for n v
    using r(5) [OF that] by (auto simp: get_row_field_view [OF r(1)])
  ultimately show ?thesis
    using u r(1,2) ms(1) by blast
qed

definition sample_table :: DataTable where
  "sample_table = fst (update_row sample_tm (\<lambda>s. False) ''a'' [(''p'', ''1'')] (new_DataTable ''T''))"

lemma sample_table_batch: "m_batchsize sample_table = 500"
  by code_simp

lemma sample_table_ok: "table_ok sample_table"
  unfolding sample_table_def by (intro table_ok_update_row) simp_all

theorem update_row_publishes_witness:
  "\<exists>t' ms. update_row sample_tm (\<lambda>s. s = 3) ''b'' [(''p'', ''2''), (''q'', ''7'')] sample_table =
       (t', sent_to (copy_subscribers (\<lambda>s. s = 3) t') ms, None) \<and>
     fold apply_msg ms (view sample_table) = view t' \<and> get_row_field ''b'' ''q'' t' = Inr ''7''"
proof -
  have up: "map_ok [(''p'', ''2''), (''q'', ''7'')]" by code_simp
  have "user_fields [(''p'', ''2''), (''q'', ''7'')] ''q'' = Some ''7''" by code_simp
  with update_row_publishes [OF sample_table_ok up, of "''b''" sample_tm "\<lambda>s. s = 3"] show ?thesis
    by blast
qed

text \<open>
  Idle updates.  An update of an existing row whose given fields are all known columns
  with the values they already have changes nothing and sends nothing.
\<close>

theorem idle_update:
  assumes "table_ok t" "map_ok up" "map_find (m_row_index t) k = Some i"
    and "\<forall>n \<in> set (map fst up). \<not> row_reserved n \<longrightarrow> n \<in> set (m_columns t)"
    and "\<forall>n v. user_fields up n = Some v \<longrightarrow> get_row_field k n t = Inr v"
  shows "update_row now live k up t = (t, [], None)"
proof -
  have loop: "set cs \<subseteq> set (m_columns t) \<Longrightarrow> add_columns_loop now cs t = (t, [])" for cs
  proof (induction cs)
    case (Cons c cs)
    have "indexes (m_column_index t) (m_columns t)" using assms(1) by (simp add: table_ok_def)
    then have "map_find (m_column_index t) c \<noteq> None"
      using Cons.prems indexes_none [of "m_column_index t" "m_columns t" c] by simp
    then show ?case using Cons by (auto simp: add_column_NOLOCK_def)
  qed simp
  have "set (filter (\<lambda>n. \<not> row_reserved n) (map fst up)) \<subseteq> set (m_columns t)"
    using assms(4) by auto
  note cols = loop [OF this]
  note i = row_index_find [OF assms(1,3)]
  have row: "row_ok (m_table_name t) (m_rows t ! i)"
    using assms(1) i by (simp add: table_ok_def)
  have "\<not> changes up (m_fields (m_rows t ! i))"
  proof -
    have "map_find (m_fields (m_rows t ! i)) n = Some v" if "user_fields up n = Some v" for n v
      using assms(5) that get_row_field_view [OF assms(1), of k n] view_lookup [OF assms(1), of k] assms(3)
      by (cases "map_find (m_fields (m_rows t ! i)) n") auto
    then show ?thesis by (auto simp: changes_def)
  qed
  then have upd: "update_fields now up (m_rows t ! i) = (m_rows t ! i, [])"
    using update_fields_spec(4) [OF row assms(2)] by (cases "update_fields now up (m_rows t ! i)") auto
  have ins: "map_insert k 0 (m_row_index t) = m_row_index t"
    using stdmap.ins_bound [OF _ assms(3)] assms(1) by (simp add: table_ok_def indexes_def)
  show ?thesis
    using assms(3) i upd ins cols by (simp add: update_row_def nolock_has_row_def nth_opt_def)
qed

theorem idle_update_witness:
  "update_row sample_tm (\<lambda>s. True) ''a'' [(''p'', ''1'')] sample_table = (sample_table, [], None)"
proof -
  have i: "map_find (m_row_index sample_table) ''a'' = Some 0" by code_simp
  have c: "set (m_columns sample_table) = {''p''}" by code_simp
  have g: "get_row_field ''a'' ''p'' sample_table = Inr ''1''" by code_simp
  show ?thesis
    by (rule idle_update [OF sample_table_ok _ i])
      (use c g in \<open>auto simp: user_fields_def split: if_splits\<close>)
qed

text \<open>
  Deleting a row.  The row is gone and every other row can still be looked up, although
  all positions behind it have moved; a row that is not there changes nothing.
\<close>

theorem delete_row_view:
  assumes "table_ok t"
  shows "table_ok (fst (delete_row live k t)) \<and> view (fst (delete_row live k t)) = (view t)(k := None)"
proof
  show "table_ok (fst (delete_row live k t))" using table_ok_delete_row [OF assms] .
  show "view (fst (delete_row live k t)) = (view t)(k := None)"
  proof (cases "map_find (m_row_index t) k")
    case None
    then show ?thesis
      using view_lookup [OF assms, of k] by (simp add: delete_row_def fun_upd_idem)
  next
    case (Some i)
    note i = row_index_find [OF assms Some]
    let ?a = "take i (m_rows t)" and ?r = "m_rows t ! i" and ?b = "drop (i + 1) (m_rows t)"
    have rows: "m_rows t = ?a @ ?r # ?b" using id_take_nth_drop [OF i(1)] by simp
    have d: "distinct (map m_rowkey (?a @ ?r # ?b))"
      using assms rows by (simp add: table_ok_def indexes_def)
    then have d2: "distinct (map m_rowkey (?a @ ?b))" by auto
    have none: "rows_view ?a k = None" "rows_view ?b k = None"
      using d i(2) by (auto intro!: rows_view_none)
    have "rows_view (?a @ ?b) = (rows_view (?a @ ?r # ?b))(k := None)"
      unfolding rows_view_append [OF d] rows_view_append [OF d2]
      using none i(2) by (auto simp: fun_eq_iff map_add_def split: option.splits)
    then show ?thesis
      using rows delete_row_table [OF assms Some, of live] by (simp add: view_def)
  qed
qed

theorem delete_row_view_witness:
  "view (fst (delete_row (\<lambda>s. True) ''a'' sample_table)) = (view sample_table)(''a'' := None)"
  using delete_row_view [OF sample_table_ok] by blast



section \<open>Snapshots and subscriptions\<close>

text \<open>
  C6. Subscribing.  When a subscription succeeds the session is on the subscriber list, and
  what was sent to it is the table description followed by snapshot messages that, applied to
  an empty copy, give the table; each of these messages is within the size limit of the
  protocol, labels included.
\<close>

theorem subscribe_builds_copy:
  assumes "table_ok t" "meta_ok t" "add_subscriber s t = (t', out, None)" "length (m_rows t) < 10 ^ 18"
  shows "\<exists>ms. out = (s, table_descr t') # map (Pair s) ms \<and> s \<in> set (m_subscribers t') \<and>
    fold apply_msg ms Map.empty = view t' \<and> view t' = view t \<and> list_all (\<lambda>m. check_enc_size m 0) ms"
proof -
  let ?t = "t\<lparr>m_subscribers := m_subscribers t @ [s]\<rparr>"
  obtain out' where n: "nolock_send_snapshopt s ?t = (t', out', None)" "out = (s, table_descr ?t) # out'"
    using assms(3) by (auto simp: add_subscriber_def Let_def split: prod.splits)
  have ok: "table_ok ?t" "meta_ok ?t" "view ?t = view t" "m_rows ?t = m_rows t"
    using assms(1,2) by (simp_all add: meta_ok_def view_def)
  note s = send_snapshot_ok [OF ok(1,2) n(1)]
  have t': "\<exists>b. t' = ?t\<lparr>m_batchsize := b\<rparr>"
    using n(1) by (auto simp: nolock_send_snapshopt_def split: sum.splits)
  then have "table_descr t' = table_descr ?t" "s \<in> set (m_subscribers t')"
    by (auto simp: table_descr_def descr_columns_def)
  then show ?thesis
    using s n(2) ok assms(4) by auto
qed

definition small_table :: DataTable where
  "small_table = (new_DataTable ''T'')\<lparr>m_rows := [\<lparr>m_rowkey = ''a'', m_row_table = ''T'',
     m_fields = [(''RowKey'', ''a''), (''p'', ''1'')]\<rparr>], m_row_index := [(''a'', 0)]\<rparr>"

lemma small_table_ok: "table_ok small_table" "meta_ok small_table"
proof -
  have "map_ok [(''RowKey'', ''a''), (''p'', ''1'')]" by code_simp
  then show "table_ok small_table"
    by (simp add: table_ok_def row_ok_def small_table_def new_DataTable_def indexes_def)
  show "meta_ok small_table"
    by (simp add: meta_ok_def small_table_def new_DataTable_def)
qed

lemma small_subscribes: "snd (snd (add_subscriber 5 small_table)) = None"
proof -
  let ?t = "small_table\<lparr>m_subscribers := m_subscribers small_table @ [5]\<rparr>"
  have b: "m_batchsize ?t = 500" "m_rows ?t \<noteq> []" "length (m_rows ?t) \<le> 500"
    by (simp_all add: small_table_def new_DataTable_def)
  have "length (enc_body (snapshot_batch ?t (m_rows ?t))) \<le> 200"
    by code_simp
  then have "check_enc_size (snapshot_batch ?t (take 500 (m_rows ?t))) room_for_snap_fields"
    using b(3) by (simp add: check_enc_size_def calc_encoded_size_body)
  then have "snapshot_loop ?t 500 (m_rows ?t) [] =
      snapshot_loop ?t 500 (drop 500 (m_rows ?t)) [snapshot_batch ?t (take 500 (m_rows ?t))]"
    using b(2) by (subst snapshot_loop.simps) (simp add: Let_def)
  also have "\<dots> = Inr ([snapshot_batch ?t (take 500 (m_rows ?t))], 500)"
    using b(3) by (subst snapshot_loop.simps) simp
  finally show ?thesis
    using b(1) by (simp add: add_subscriber_def nolock_send_snapshopt_def Let_def)
qed

theorem subscribe_builds_copy_witness:
  "\<exists>t' ms. add_subscriber 5 small_table = (t', (5, table_descr t') # map (Pair 5) ms, None) \<and>
    fold apply_msg ms Map.empty = view small_table"
proof -
  obtain t' out e where a: "add_subscriber 5 small_table = (t', out, e)"
    by (cases "add_subscriber 5 small_table")
  have "e = None" using a small_subscribes by simp
  moreover have "length (m_rows small_table) < 10 ^ 18" by (simp add: small_table_def)
  ultimately show ?thesis
    using subscribe_builds_copy [OF small_table_ok, of 5 t' out] a by auto
qed

text \<open>
  When a snapshot fails.  It fails only with \<open>failed to encode snapshot\<close>, only if some
  single row is too large for a message, and then nothing of it was sent and the table is
  unchanged.
\<close>

theorem snapshot_failure:
  assumes "table_ok t" "nolock_send_snapshopt s t = (t', out, Some e)"
  shows "t' = t \<and> out = [] \<and> e = RuntimeError ''failed to encode snapshot'' \<and>
    (\<exists>r \<in> set (m_rows t). \<not> check_enc_size (snapshot_batch t [r]) room_for_snap_fields)"
proof -
  have l: "snapshot_loop t (m_batchsize t) (m_rows t) [] = Inl e" "t' = t" "out = []"
    using assms(2) by (auto simp: nolock_send_snapshopt_def split: sum.splits)
  then show ?thesis
    using snapshot_loop_error [OF l(1)] assms(1) by (simp add: table_ok_def)
qed


definition big_row :: DataRow where
  "big_row = \<lparr>m_rowkey = ''a'', m_row_table = ''T'',
     m_fields = [(''RowKey'', ''a''), (''p'', replicate 100000 (CHR ''x''))]\<rparr>"

definition big_table :: DataTable where
  "big_table = (new_DataTable ''T'')\<lparr>m_rows := [big_row], m_row_index := [(''a'', 0)], m_batchsize := 1\<rparr>"

lemma big_table_ok: "table_ok big_table" "row_ok ''T'' big_row"
proof -
  have "map_ok [(''RowKey'', ()), (''p'', ())]" by code_simp
  then show r: "row_ok ''T'' big_row"
    by (simp add: row_ok_def big_row_def)
  then show "table_ok big_table"
    by (simp add: table_ok_def big_table_def new_DataTable_def indexes_def) (simp add: big_row_def)
qed

theorem snapshot_failure_witness:
  "\<exists>e. nolock_send_snapshopt 5 big_table = (big_table, [], Some e) \<and>
     (\<exists>r \<in> set (m_rows big_table). \<not> check_enc_size (snapshot_batch big_table [r]) room_for_snap_fields)"
proof -
  have "meta_ok big_table" by (simp add: meta_ok_def big_table_def new_DataTable_def)
  then have "batch_ok (snapshot_batch big_table [big_row]) [big_row]"
    using big_table_ok(2) by (intro snapshot_batch_ok) auto
  from batch_size_ge [OF this, of 0 "''p''"]
  have "\<not> check_enc_size (snapshot_batch big_table [big_row]) room_for_snap_fields"
    by (simp add: check_enc_size_def big_row_def)
  then have "snapshot_loop big_table (m_batchsize big_table) (m_rows big_table) [] =
      Inl (RuntimeError ''failed to encode snapshot'')"
    by (subst snapshot_loop.simps) (simp add: Let_def big_table_def)
  then have "nolock_send_snapshopt 5 big_table = (big_table, [], Some (RuntimeError ''failed to encode snapshot''))"
    by (simp add: nolock_send_snapshopt_def)
  with snapshot_failure [OF big_table_ok(1) this] show ?thesis by blast
qed

end
