(* ===== verification/Read_Buffer.thy ===== *)
theory Read_Buffer
  imports Sam_Buffer
begin

text \<open>
  The inbound buffer of a connection (\<^verbatim>\<open>libexio/exio/ReactorReadBuffer.h\<close>,
  \<^verbatim>\<open>libexio/ReactorReadBuffer.cc\<close>).  Bytes are written at \<open>wp\<close>, read at \<open>rp\<close>; the write
  position counts from the start of the array and not from the read position, so the two
  agree only after \<open>shift_pending_to_array_start\<close>.  The allocator is the parameter \<open>lim\<close>.
  The capacity is a signed 64-bit integer; its half is computed in floating point, which is
  exact below \<open>2 ^ 53\<close>.
\<close>

record ReactorReadBuffer =
  m_buf_cap :: int
  m_array :: string
  m_bytesavail :: nat
  m_rp :: nat

definition new_ReactorReadBuffer :: "int \<Rightarrow> ReactorReadBuffer" where
  "new_ReactorReadBuffer capacity =
     \<lparr>m_buf_cap = capacity, m_array = replicate (nat capacity) (CHR 0x00), m_bytesavail = 0, m_rp = 0\<rparr>"

definition zero_buffer :: "ReactorReadBuffer \<Rightarrow> ReactorReadBuffer" where
  "zero_buffer b =
     b\<lparr>m_array := replicate (nat (m_buf_cap b)) (CHR 0x00), m_bytesavail := 0, m_rp := 0\<rparr>"

definition capacity :: "ReactorReadBuffer \<Rightarrow> nat" where
  "capacity b = nat (m_buf_cap b)"

text \<open>\<^verbatim>\<open>size_t\<close> subtraction wraps.\<close>

definition sub64 :: "nat \<Rightarrow> nat \<Rightarrow> nat" where
  "sub64 a b = nat ((int a - int b) mod 2 ^ 64)"

lemma sub64_le [simp]: "b \<le> a \<Longrightarrow> a < 2 ^ 64 \<Longrightarrow> sub64 a b = a - b"
  by (simp add: sub64_def nat_diff_distrib')

lemma sub64_less: "0 < b \<Longrightarrow> b \<le> a \<Longrightarrow> sub64 a b < a"
proof -
  assume "0 < b" "b \<le> a"
  have "(int a - int b) mod 2 ^ 64 \<le> int a - int b"
    using \<open>b \<le> a\<close> by (intro zmod_le_nonneg_dividend) simp
  then show ?thesis using \<open>0 < b\<close> \<open>b \<le> a\<close> unfolding sub64_def by linarith
qed

definition space_remain :: "ReactorReadBuffer \<Rightarrow> nat" where
  "space_remain b = sub64 (capacity b) (m_bytesavail b)"

definition incr_bytesavail :: "nat \<Rightarrow> ReactorReadBuffer \<Rightarrow> ReactorReadBuffer" where
  "incr_bytesavail n b = b\<lparr>m_bytesavail := (m_bytesavail b + n) mod 2 ^ 64\<rparr>"

text \<open>\<^verbatim>\<open>memcpy(buf.wp(), src, n)\<close>, undefined when it would leave the array.\<close>

definition write_wp :: "string \<Rightarrow> ReactorReadBuffer \<Rightarrow> ReactorReadBuffer res" where
  "write_wp src b =
     (let i = m_bytesavail b in
      if i + length src \<le> length (m_array b)
      then Inr (b\<lparr>m_array := take i (m_array b) @ src @ drop (i + length src) (m_array b)\<rparr>)
      else Inl (UndefinedAccess ''write outside the read buffer''))"

text \<open>The bytes from \<open>rp\<close> on that a callback is given, undefined when they leave the array.\<close>

definition read_rp :: "ReactorReadBuffer \<Rightarrow> string res" where
  "read_rp b =
     (if m_rp b + m_bytesavail b \<le> length (m_array b)
      then Inr (take (m_bytesavail b) (drop (m_rp b) (m_array b)))
      else Inl (UndefinedAccess ''read outside the read buffer''))"

definition consume :: "nat \<Rightarrow> ReactorReadBuffer \<Rightarrow> ReactorReadBuffer" where
  "consume n b =
     b\<lparr>m_rp := (m_rp b + n) mod 2 ^ 64, m_bytesavail := sub64 (m_bytesavail b) n\<rparr>"

definition shift_pending_to_array_start :: "ReactorReadBuffer \<Rightarrow> ReactorReadBuffer res" where
  "shift_pending_to_array_start b =
     (if m_bytesavail b > 0 \<and> m_rp b \<noteq> 0 then
        bindR (read_rp b) (\<lambda>s.
        Inr (b\<lparr>m_array := s @ drop (m_bytesavail b) (m_array b), m_rp := 0\<rparr>))
      else Inr (b\<lparr>m_rp := 0\<rparr>))"

definition grow :: "nat \<Rightarrow> ReactorReadBuffer \<Rightarrow> (ReactorReadBuffer \<times> nat) res" where
  "grow lim b =
     (let half = m_buf_cap b div 2;
          extra = (if half = 0 then 1 else half);
          new_cap = m_buf_cap b + extra
      in if new_cap \<ge> 2 ^ 63 then Inl (UndefinedAccess ''signed overflow'')
         else if new_cap < m_buf_cap b \<or> new_cap \<le> 0
         then Inl (RuntimeError ''Failed to allocate extra bytes for socket buffer growth'')
         else if nat new_cap > lim
         then Inl (RuntimeError ''Failed to allocate bytes for socket buffer growth'')
         else Inr (b\<lparr>m_buf_cap := new_cap,
                     m_array := m_array b @ replicate (nat extra) (CHR 0x00)\<rparr>, nat extra))"

section \<open>Invariant and contents\<close>

text \<open>
  A buffer in use has its cursors inside the array; \<open>contents\<close> are the bytes received and not
  yet consumed.
\<close>

definition rbuf_ok :: "ReactorReadBuffer \<Rightarrow> bool" where
  "rbuf_ok b \<longleftrightarrow> int (length (m_array b)) = m_buf_cap b \<and> m_rp b + m_bytesavail b \<le> length (m_array b) \<and>
     m_buf_cap b < 2 ^ 63"

definition contents :: "ReactorReadBuffer \<Rightarrow> string" where
  "contents b = take (m_bytesavail b) (drop (m_rp b) (m_array b))"

lemma rbuf_ok_new [simp]: "0 \<le> c \<Longrightarrow> c < 2 ^ 63 \<Longrightarrow> rbuf_ok (new_ReactorReadBuffer c)"
  by (simp add: rbuf_ok_def new_ReactorReadBuffer_def)

lemma contents_new [simp]: "contents (new_ReactorReadBuffer c) = []"
  by (simp add: contents_def new_ReactorReadBuffer_def)

lemma length_contents: "rbuf_ok b \<Longrightarrow> length (contents b) = m_bytesavail b"
  by (auto simp: rbuf_ok_def contents_def)

lemma read_rp_ok [simp]: "rbuf_ok b \<Longrightarrow> read_rp b = Inr (contents b)"
  by (simp add: rbuf_ok_def read_rp_def contents_def)

lemma rbuf_small: "rbuf_ok b \<Longrightarrow> length (m_array b) < 2 ^ 63 \<and> m_bytesavail b < 2 ^ 63 \<and> m_rp b < 2 ^ 63"
  by (auto simp: rbuf_ok_def)

lemma consume_ok:
  assumes "rbuf_ok b" "n \<le> m_bytesavail b"
  shows "rbuf_ok (consume n b)" "contents (consume n b) = drop n (contents b)"
    "m_bytesavail (consume n b) = m_bytesavail b - n"
proof -
  have "m_rp b + n < 2 ^ 64" "m_bytesavail b < 2 ^ 64"
    using rbuf_small [OF assms(1)] assms by (auto simp: rbuf_ok_def)
  then show "rbuf_ok (consume n b)" "contents (consume n b) = drop n (contents b)"
    "m_bytesavail (consume n b) = m_bytesavail b - n"
    using assms by (simp_all add: rbuf_ok_def consume_def contents_def drop_take add.commute)
qed

lemma shift_ok:
  assumes "rbuf_ok b"
  obtains b' where "shift_pending_to_array_start b = Inr b'" "rbuf_ok b'" "m_rp b' = 0"
    "contents b' = contents b" "m_buf_cap b' = m_buf_cap b"
proof
  let ?b = "if m_bytesavail b > 0 \<and> m_rp b \<noteq> 0
    then b\<lparr>m_array := contents b @ drop (m_bytesavail b) (m_array b), m_rp := 0\<rparr> else b\<lparr>m_rp := 0\<rparr>"
  show "shift_pending_to_array_start b = Inr ?b"
    using assms by (simp add: shift_pending_to_array_start_def)
  show "rbuf_ok ?b" "m_rp ?b = 0" "m_buf_cap ?b = m_buf_cap b"
    using assms length_contents [OF assms] by (auto simp: rbuf_ok_def)
  show "contents ?b = contents b"
    using length_contents [OF assms] by (auto simp: contents_def)
qed

lemma grow_ok:
  assumes "rbuf_ok b" "grow lim b = Inr (b', n)"
  shows "rbuf_ok b'" "contents b' = contents b" "m_rp b' = m_rp b" "m_bytesavail b' = m_bytesavail b"
    "length (m_array b) < length (m_array b')"
proof -
  have g: "m_buf_cap b' < 2 ^ 63" "0 < n" "m_buf_cap b' = m_buf_cap b + int n"
    "m_array b' = m_array b @ replicate n (CHR 0x00)" "m_rp b' = m_rp b" "m_bytesavail b' = m_bytesavail b"
    using assms by (auto simp: grow_def Let_def rbuf_ok_def split: if_splits)
  then show "rbuf_ok b'" "contents b' = contents b" "m_rp b' = m_rp b" "m_bytesavail b' = m_bytesavail b"
    "length (m_array b) < length (m_array b')"
    using assms(1) by (simp_all add: rbuf_ok_def contents_def)
qed

text \<open>Growth succeeds while half as much again stays within what the allocator grants.\<close>

lemma grow_defined:
  assumes "rbuf_ok b" "3 * length (m_array b) + 2 \<le> 2 * lim" "lim < 2 ^ 63"
  obtains b' n where "grow lim b = Inr (b', n)"
proof -
  have "grow lim b \<noteq> Inl e" for e
    using assms by (auto simp: grow_def Let_def rbuf_ok_def split: if_splits)
  then show ?thesis
    using that by (cases "grow lim b") auto
qed

lemma write_ok:
  assumes "rbuf_ok b" "m_rp b = 0" "length s \<le> space_remain b"
  obtains b' where "write_wp s b = Inr b'" "rbuf_ok (incr_bytesavail (length s) b')"
    "contents (incr_bytesavail (length s) b') = contents b @ s" "m_rp (incr_bytesavail (length s) b') = 0"
proof -
  have l: "m_bytesavail b + length s \<le> length (m_array b)" "m_bytesavail b + length s < 2 ^ 64"
    using assms rbuf_small [OF assms(1)] by (auto simp: rbuf_ok_def space_remain_def capacity_def)
  then show ?thesis
    using assms that
    by (simp add: write_wp_def Let_def rbuf_ok_def contents_def incr_bytesavail_def)
qed

end
