(* ===== verification/Client_Model.thy ===== *)
theory Client_Model
  imports Read_Buffer
begin

unbundle bit_operations_syntax

text \<open>
  A connection (\<^verbatim>\<open>libexio/exio/Client.h\<close>, \<^verbatim>\<open>libexio/Client.cc\<close>): the classes
  \<^verbatim>\<open>ReactorClient\<close> and \<^verbatim>\<open>Client\<close> as one record.  The operating system is outside: what
  \<^verbatim>\<open>read\<close> returns is an argument of \<open>handle_input\<close>, how much \<^verbatim>\<open>send\<close> accepts an argument
  of \<open>handle_output\<close>, and the calls \<^verbatim>\<open>send\<close>, \<^verbatim>\<open>shutdown\<close>, \<^verbatim>\<open>close\<close> and the two
  notifications of the reactor are recorded in \<open>io_log\<close>.  The time is the argument \<open>now\<close>,
  the allocator the argument \<open>lim\<close>.  \<^verbatim>\<open>m_cb\<close> is true while callbacks are allowed; the
  callback object is the rest \<open>'e\<close> of the state in \<open>do_work\<close>.
\<close>

section \<open>Data\<close>

abbreviation EXIO_CLIENT_CHUNK_SIZE :: nat where
  "EXIO_CLIENT_CHUNK_SIZE \<equiv> 1024"

type_synonym flags = "32 word"

definition IO_default :: flags where "IO_default = 0x0"

definition IO_close :: flags where "IO_close = 0x1"

definition IO_read_again :: flags where "IO_read_again = 0x2"

definition eWantDelete :: flags where "eWantDelete = 0x04"

definition eShutdownDone :: flags where "eShutdownDone = 0x08"

definition POLLIN :: flags where "POLLIN = 0x001"

definition POLLOUT :: flags where "POLLOUT = 0x004"

text \<open>A message waiting to be sent; \<open>raw_ptr\<close> is relative to the memory region.\<close>

record RawMsg =
  raw_mem :: "string option"
  raw_ptr :: nat
  raw_size :: nat

definition null_RawMsg :: RawMsg where
  "null_RawMsg = \<lparr>raw_mem = None, raw_ptr = 0, raw_size = 0\<rparr>"

definition new_RawMsg :: "string \<Rightarrow> RawMsg" where
  "new_RawMsg src = \<lparr>raw_mem = Some src, raw_ptr = 0, raw_size = length src\<rparr>"

definition eat :: "nat \<Rightarrow> RawMsg \<Rightarrow> RawMsg" where
  "eat s r = r\<lparr>raw_ptr := raw_ptr r + s, raw_size := sub64 (raw_size r) s\<rparr>"

record DataChunk =
  chunk_buf :: string
  chunk_size :: nat
  chunk_start :: nat

definition null_DataChunk :: DataChunk where
  "null_DataChunk = \<lparr>chunk_buf = [], chunk_size = 0, chunk_start = 0\<rparr>"

record DataFifo =
  fifo_items :: "DataChunk list"
  fifo_itemcount :: nat
  fifo_pending :: nat

record OutboundQueue =
  out_items :: "RawMsg list"
  out_itemcount :: nat
  acceptmore :: bool
  out_pending :: nat

datatype io_event = Sent string | ShutdownWR | CloseFd | Invalidate | RequestAttn

record Client =
  m_io_closed :: bool
  m_bytes_out :: nat
  m_bytes_in :: nat
  m_last_write :: int
  m_last_read :: int
  m_attn_flags :: flags
  m_tdestroy :: int
  m_runstate :: char
  m_datafifo :: DataFifo
  m_out_q :: OutboundQueue
  m_cb :: bool
  m_out_pend_max :: nat
  m_rbuf :: ReactorReadBuffer
  io_log :: "io_event list"

definition new_DataFifo :: DataFifo where
  "new_DataFifo = \<lparr>fifo_items = [], fifo_itemcount = 0, fifo_pending = 0\<rparr>"

definition new_OutboundQueue :: OutboundQueue where
  "new_OutboundQueue = \<lparr>out_items = [], out_itemcount = 0, acceptmore = True, out_pending = 0\<rparr>"

definition new_Client :: "int \<Rightarrow> Client" where
  "new_Client now =
     \<lparr>m_io_closed = False, m_bytes_out = 0, m_bytes_in = 0, m_last_write = now, m_last_read = now,
      m_attn_flags = 0, m_tdestroy = 0, m_runstate = CHR ''N'',
      m_datafifo = new_DataFifo, m_out_q = new_OutboundQueue, m_cb = True,
      m_out_pend_max = 100 * 1024 * 1024, m_rbuf = new_ReactorReadBuffer 4096, io_log = []\<rparr>"

definition io_open :: "Client \<Rightarrow> bool" where
  "io_open c \<longleftrightarrow> \<not> m_io_closed c"

definition log_io :: "io_event \<Rightarrow> Client \<Rightarrow> Client" where
  "log_io ev c = c\<lparr>io_log := io_log c @ [ev]\<rparr>"

section \<open>Run state\<close>

definition attn_flag :: "Client \<Rightarrow> flags" where
  "attn_flag c = m_attn_flags c"

definition has_work :: "Client \<Rightarrow> bool" where
  "has_work c \<longleftrightarrow> fifo_itemcount (m_datafifo c) \<noteq> 0 \<or> fifo_items (m_datafifo c) \<noteq> []"

definition set_run_state :: "Client \<Rightarrow> Client" where
  "set_run_state c = c\<lparr>m_runstate := CHR ''R''\<rparr>"

definition get_run_state :: "Client \<Rightarrow> char" where
  "get_run_state c = m_runstate c"

text \<open>Both updates return the old and the new state.\<close>

definition update_run_state_for_reactor :: "Client \<Rightarrow> Client \<times> char \<times> char" where
  "update_run_state_for_reactor c =
     (let c' = (if has_work c \<and> m_runstate c = CHR ''N'' then c\<lparr>m_runstate := CHR ''Q''\<rparr> else c)
      in (c', m_runstate c, m_runstate c'))"

definition update_run_state_for_worker :: "Client \<Rightarrow> Client \<times> char \<times> char" where
  "update_run_state_for_worker c =
     (let c' = (if \<not> has_work c then c\<lparr>m_runstate := CHR ''N''\<rparr> else c)
      in (c', m_runstate c, m_runstate c'))"

section \<open>Closing\<close>

definition do_shutdown_SHUT_WR :: "Client \<Rightarrow> Client" where
  "do_shutdown_SHUT_WR c =
     (if \<not> m_io_closed c then
        if m_attn_flags c AND eShutdownDone \<noteq> 0 then c
        else log_io ShutdownWR (c\<lparr>m_attn_flags := m_attn_flags c OR eShutdownDone\<rparr>)
      else c)"

definition push_chunk :: "DataChunk \<Rightarrow> Client \<Rightarrow> Client" where
  "push_chunk chunk c =
     c\<lparr>m_datafifo := (m_datafifo c)\<lparr>fifo_items := fifo_items (m_datafifo c) @ [chunk],
                                      fifo_itemcount := fifo_itemcount (m_datafifo c) + 1\<rparr>\<rparr>"

definition handle_close :: "Client \<Rightarrow> Client" where
  "handle_close c =
     (if io_open c then push_chunk null_DataChunk (log_io CloseFd (c\<lparr>m_io_closed := True\<rparr>)) else c)"

definition destroy_cycle :: "int \<Rightarrow> Client \<Rightarrow> Client \<times> bool" where
  "destroy_cycle t c =
     (if t > m_tdestroy c \<and> t - m_tdestroy c \<ge> 1 \<or> t < m_tdestroy c then
        let c = c\<lparr>m_tdestroy := t\<rparr> in
        if \<not> m_io_closed c then (handle_close c, False) else (c, True)
      else (c, False))"

definition release :: "int \<Rightarrow> Client \<Rightarrow> Client" where
  "release now c =
     (let c = do_shutdown_SHUT_WR (c\<lparr>m_cb := False\<rparr>)
      in log_io RequestAttn (c\<lparr>m_attn_flags := m_attn_flags c OR eWantDelete, m_tdestroy := now\<rparr>))"

definition shutdown_outq :: "Client \<Rightarrow> Client" where
  "shutdown_outq c =
     c\<lparr>m_out_q := \<lparr>out_items = [], out_itemcount = 0, acceptmore = False, out_pending = 0\<rparr>\<rparr>"

definition clear_fifo :: "Client \<Rightarrow> Client" where
  "clear_fifo c = c\<lparr>m_datafifo := \<lparr>fifo_items = [], fifo_itemcount = 0, fifo_pending = 0\<rparr>\<rparr>"

text \<open>The destructor; it clears the items of the inbound queue and leaves its counters.\<close>

definition destroy_Client :: "Client \<Rightarrow> Client" where
  "destroy_Client c =
     (let c = shutdown_outq (c\<lparr>m_cb := False\<rparr>)
      in c\<lparr>m_datafifo := (m_datafifo c)\<lparr>fifo_items := []\<rparr>\<rparr>)"

section \<open>Sending\<close>

definition push_out :: "RawMsg \<Rightarrow> nat \<Rightarrow> Client \<Rightarrow> Client" where
  "push_out r n c =
     c\<lparr>m_out_q := (m_out_q c)\<lparr>out_items := out_items (m_out_q c) @ [r],
                                out_itemcount := out_itemcount (m_out_q c) + 1,
                                out_pending := (out_pending (m_out_q c) + n) mod 2 ^ 64\<rparr>\<rparr>"

definition no_more :: "Client \<Rightarrow> Client" where
  "no_more c = c\<lparr>m_out_q := (m_out_q c)\<lparr>acceptmore := False\<rparr>\<rparr>"

definition queue :: "string \<Rightarrow> bool \<Rightarrow> Client \<Rightarrow> Client \<times> int" where
  "queue buf closesocket c =
     (if \<not> acceptmore (m_out_q c) then (c, -2)
      else if buf \<noteq> [] \<and> length buf > sub64 (m_out_pend_max c) (out_pending (m_out_q c))
      then (do_shutdown_SHUT_WR (no_more c), -1)
      else
        let c1 = (if buf \<noteq> [] then push_out (new_RawMsg buf) (length buf) c else c);
            c2 = (if closesocket then push_out null_RawMsg 0 (no_more c1) else c1)
        in (if buf \<noteq> [] \<or> closesocket then log_io Invalidate c2 else c2, 0))"

definition pending_out :: "Client \<Rightarrow> nat" where
  "pending_out c = out_pending (m_out_q c)"

definition events :: "Client \<Rightarrow> flags" where
  "events c =
     (if io_open c then
        if out_itemcount (m_out_q c) \<noteq> 0 \<or> out_items (m_out_q c) \<noteq> [] then POLLIN OR POLLOUT else POLLIN
      else 0)"

text \<open>
  What \<^verbatim>\<open>send\<close> does: the socket has room for some bytes, none meaning \<^verbatim>\<open>EAGAIN\<close>, or the
  call fails with another error.
\<close>

datatype send_result = Room nat | SendFails

definition raw_bytes :: "RawMsg \<Rightarrow> string" where
  "raw_bytes r = (case raw_mem r of None \<Rightarrow> [] | Some mem \<Rightarrow> take (raw_size r) (drop (raw_ptr r) mem))"

definition pop_out :: "Client \<Rightarrow> Client" where
  "pop_out c =
     c\<lparr>m_out_q := (m_out_q c)\<lparr>out_items := tl (out_items (m_out_q c)),
                                out_itemcount := sub64 (out_itemcount (m_out_q c)) 1\<rparr>\<rparr>"

text \<open>What follows a \<^verbatim>\<open>send\<close> that took the first \<open>n\<close> bytes of the front message.\<close>

definition after_send :: "int \<Rightarrow> nat \<Rightarrow> RawMsg \<Rightarrow> Client \<Rightarrow> Client" where
  "after_send now n next c =
     (let next' = eat n next;
          q = m_out_q c;
          c = log_io (Sent (take n (raw_bytes next)))
                (c\<lparr>m_bytes_out := (m_bytes_out c + n) mod 2 ^ 64, m_last_write := now,
                   m_out_q := q\<lparr>out_items := next' # tl (out_items q),
                                out_pending := (if out_pending q > n then out_pending q - n else 0)\<rparr>\<rparr>)
      in if raw_size next' = 0 then pop_out c else c)"

text \<open>One turn of the loop of \<^verbatim>\<open>handle_output\<close>; \<open>None\<close> when the loop goes on.\<close>

definition output_turn :: "int \<Rightarrow> send_result \<Rightarrow> Client \<Rightarrow> (Client \<times> flags option) res" where
  "output_turn now r c =
     (case out_items (m_out_q c) of
        [] \<Rightarrow>
          if out_itemcount (m_out_q c) \<noteq> 0 then Inl (UndefinedAccess ''front of an empty list'')
          else Inr (c\<lparr>m_out_q := (m_out_q c)\<lparr>out_itemcount := 0\<rparr>\<rparr>, Some IO_default)
      | next # _ \<Rightarrow>
          if next = null_RawMsg then Inr (do_shutdown_SHUT_WR (pop_out c), Some IO_close)
          else
            (case r of
               Room n \<Rightarrow>
                 if n = 0 then Inr (c, Some IO_default)
                 else Inr (after_send now (min n (raw_size next)) next c, None)
             | SendFails \<Rightarrow> Inr (c, Some IO_close)))"

text \<open>The loop, over the results of the successive calls; a further call finds no room.\<close>

fun handle_output :: "int \<Rightarrow> send_result list \<Rightarrow> Client \<Rightarrow> (Client \<times> flags) res" where
  "handle_output now [] c =
     bindR (output_turn now (Room 0) c) (\<lambda>(c', st).
     Inr (c', case st of Some st \<Rightarrow> st | None \<Rightarrow> IO_default))"
| "handle_output now (r # rs) c =
     bindR (output_turn now r c) (\<lambda>(c', st).
     case st of Some st \<Rightarrow> Inr (c', st) | None \<Rightarrow> handle_output now rs c')"

section \<open>Receiving\<close>

text \<open>What \<^verbatim>\<open>read\<close> finds: the bytes in the socket, none at the end of file, or an error.\<close>

datatype read_result = ReadBytes string | ReadFails

definition handle_input :: "int \<Rightarrow> read_result \<Rightarrow> Client \<Rightarrow> Client \<times> flags" where
  "handle_input now r c =
     (if \<not> io_open c then (c, IO_default)
      else
        case r of
          ReadFails \<Rightarrow> (c, IO_close)
        | ReadBytes avail \<Rightarrow>
            let bytes = take EXIO_CLIENT_CHUNK_SIZE avail; n = length bytes in
            if n = 0 then (c, IO_close)
            else (push_chunk \<lparr>chunk_buf = bytes, chunk_size = n, chunk_start = 0\<rparr>
                    (c\<lparr>m_bytes_in := (m_bytes_in c + n) mod 2 ^ 64, m_last_read := now\<rparr>),
                  if n = EXIO_CLIENT_CHUNK_SIZE then IO_read_again else IO_default))"

text \<open>The loop that grows the buffer until a chunk fits; an exception leaves what has grown.\<close>

function grow_until :: "nat \<Rightarrow> nat \<Rightarrow> ReactorReadBuffer \<Rightarrow> ReactorReadBuffer \<times> exn option" where
  "grow_until lim need b =
     (if space_remain b < need then
        case grow lim b of Inl e \<Rightarrow> (b, Some e) | Inr (b', extra) \<Rightarrow> grow_until lim need b'
      else (b, None))"
  by pat_completeness auto
termination
  by (relation "measure (\<lambda>(lim, need, b). nat (int lim - m_buf_cap b))")
    (auto simp: grow_def Let_def split: if_splits)

declare grow_until.simps [simp del]

text \<open>
  The loop that copies the chunks into the buffer, up to the sentinel: the rest of the queue,
  its count, the buffer, whether the sentinel was met, and an exception that left the loop.
\<close>

fun drain_fifo ::
  "nat \<Rightarrow> DataChunk list \<Rightarrow> nat \<Rightarrow> ReactorReadBuffer \<Rightarrow>
   DataChunk list \<times> nat \<times> ReactorReadBuffer \<times> bool \<times> exn option" where
  "drain_fifo lim items 0 b = (items, 0, b, False, None)"
| "drain_fifo lim [] (Suc n) b = ([], Suc n, b, False, Some (UndefinedAccess ''front of an empty list''))"
| "drain_fifo lim (front # items) (Suc n) b =
     (if chunk_size front = 0 then (items, n, b, True, None)
      else
        case grow_until lim (chunk_size front) b of
          (b1, Some e) \<Rightarrow> (front # items, Suc n, b1, False, Some e)
        | (b1, None) \<Rightarrow>
            (case write_wp (take (chunk_size front) (drop (chunk_start front) (chunk_buf front))) b1 of
               Inl e \<Rightarrow> (front # items, Suc n, b1, False, Some e)
             | Inr b2 \<Rightarrow> drain_fifo lim items n (incr_bytesavail (chunk_size front) b2)))"

text \<open>
  The loop that passes the bytes to \<^verbatim>\<open>process_input\<close>.  An exception of the callback counts as
  nothing consumed.  The callback cannot reach the buffer, which is passed separately; it can
  queue output and disable callbacks.
\<close>

type_synonym 'e process_input_cb = "Client \<times> 'e \<Rightarrow> string \<Rightarrow> (Client \<times> 'e) \<times> nat res"

type_synonym 'e process_close_cb = "Client \<times> 'e \<Rightarrow> (Client \<times> 'e) \<times> unit res"

definition consumed_of :: "nat res \<Rightarrow> nat" where
  "consumed_of r = (case r of Inl e \<Rightarrow> 0 | Inr n \<Rightarrow> n)"

text \<open>What is not caught.\<close>

definition uncaught :: "'a res \<Rightarrow> exn option" where
  "uncaught r = (case r of Inl e \<Rightarrow> if undefined_access e then Some e else None | Inr x \<Rightarrow> None)"

lemma uncaught_simps [simp]:
  "uncaught (Inr x) = None" "\<not> undefined_access e \<Longrightarrow> uncaught (Inl e) = None"
  by (simp_all add: uncaught_def)

function deliver ::
  "'e process_input_cb \<Rightarrow> ReactorReadBuffer \<Rightarrow> Client \<times> 'e \<Rightarrow> (ReactorReadBuffer \<times> Client \<times> 'e) \<times> exn option"
where
  "deliver pi b s =
     (if m_bytesavail b = 0 \<or> \<not> m_cb (fst s) then ((b, s), None)
      else
        case read_rp b of
          Inl e \<Rightarrow> ((b, s), Some e)
        | Inr bytes \<Rightarrow>
            let (s', r) = pi s bytes; consumed = consumed_of r in
            if uncaught r \<noteq> None then ((b, s'), uncaught r)
            else if consumed = 0 then ((b, s'), None)
            else if consumed > m_bytesavail b
            then ((b, s'), Some (UndefinedAccess ''consumed more than available''))
            else deliver pi (consume consumed b) s')"
  by pat_completeness auto
termination
  by (relation "measure (\<lambda>(pi, b, s). m_bytesavail b)") (auto simp: consume_def intro: sub64_less)

declare deliver.simps [simp del]

definition do_work ::
  "nat \<Rightarrow> 'e process_input_cb \<Rightarrow> 'e process_close_cb \<Rightarrow> Client \<times> 'e \<Rightarrow> (Client \<times> 'e) \<times> exn option" where
  "do_work lim pi pc s =
     (let c = fst s in
      if \<not> m_cb c then ((clear_fifo c, snd s), None)
      else
        case drain_fifo lim (fifo_items (m_datafifo c)) (fifo_itemcount (m_datafifo c)) (m_rbuf c) of
          (items, n, b, closing, err) \<Rightarrow>
            let c1 = c\<lparr>m_datafifo := (m_datafifo c)\<lparr>fifo_items := items, fifo_itemcount := n\<rparr>, m_rbuf := b\<rparr> in
            case err of
              Some e \<Rightarrow> ((c1, snd s), Some e)
            | None \<Rightarrow>
                (case deliver pi b (c1, snd s) of
                   ((b1, c2, env), Some e) \<Rightarrow> ((c2\<lparr>m_rbuf := b1\<rparr>, env), Some e)
                 | ((b1, c2, env), None) \<Rightarrow>
                     (case shift_pending_to_array_start b1 of
                        Inl e \<Rightarrow> ((c2\<lparr>m_rbuf := b1\<rparr>, env), Some e)
                      | Inr b2 \<Rightarrow>
                          let c3 = c2\<lparr>m_rbuf := b2\<rparr> in
                          if \<not> closing then ((c3, env), None)
                          else
                            let ((c4, env'), r) = (if m_cb c3 then pc (c3, env) else ((c3, env), Inr ())) in
                            if uncaught r \<noteq> None then ((c4, env'), uncaught r)
                            else ((clear_fifo (c4\<lparr>m_cb := False\<rparr>), env'), None))))"

end
