(* ===== verification/Client_Laws.thy ===== *)
theory Client_Laws
  imports Client_Model
begin

text \<open>
  The outbound side of a connection: what has been sent and what is queued are together the
  bytes accepted by \<open>queue\<close>, the socket is shut down and closed at most once, and nothing is
  sent on a closed socket.  \<open>run\<close> is the relation of the runs of a connection, with the bytes
  accepted during the run; the inbound side is left open in it, since only the worker thread
  changes it.
\<close>

section \<open>Messages in the queue\<close>

definition raw_ok :: "RawMsg \<Rightarrow> bool" where
  "raw_ok r \<longleftrightarrow> (\<exists>mem. raw_mem r = Some mem \<and> raw_ptr r + raw_size r = length mem \<and> 0 < raw_size r)"

lemma raw_ok_new [simp]: "s \<noteq> [] \<Longrightarrow> raw_ok (new_RawMsg s)"
  by (simp add: raw_ok_def new_RawMsg_def)

lemma raw_bytes_simps [simp]: "raw_bytes null_RawMsg = []" "raw_bytes (new_RawMsg s) = s"
  by (simp_all add: raw_bytes_def null_RawMsg_def new_RawMsg_def)

lemma raw_sizes [simp]: "raw_size null_RawMsg = 0" "raw_size (new_RawMsg s) = length s"
  by (simp_all add: null_RawMsg_def new_RawMsg_def)

lemma length_raw_bytes: "raw_ok r \<or> r = null_RawMsg \<Longrightarrow> length (raw_bytes r) = raw_size r"
  by (auto simp: raw_ok_def raw_bytes_def null_RawMsg_def)

lemma raw_ok_not_null: "raw_ok r \<Longrightarrow> r \<noteq> null_RawMsg"
  by (auto simp: raw_ok_def null_RawMsg_def)

lemma eat_ok:
  assumes "raw_ok r" "n \<le> raw_size r" "raw_size r < 2 ^ 64"
  shows "raw_size (eat n r) = raw_size r - n" "raw_bytes (eat n r) = drop n (raw_bytes r)"
    "n < raw_size r \<Longrightarrow> raw_ok (eat n r)"
  using assms by (auto simp: raw_ok_def eat_def raw_bytes_def drop_take add.commute)

section \<open>The outbound queue\<close>

definition data_items :: "Client \<Rightarrow> RawMsg list" where
  "data_items c = filter (\<lambda>r. r \<noteq> null_RawMsg) (out_items (m_out_q c))"

definition unsent :: "Client \<Rightarrow> string" where
  "unsent c = concat (map raw_bytes (out_items (m_out_q c)))"

fun sent_bytes :: "io_event list \<Rightarrow> string" where
  "sent_bytes [] = []"
| "sent_bytes (Sent s # l) = s @ sent_bytes l"
| "sent_bytes (_ # l) = sent_bytes l"

lemma sent_bytes_append [simp]: "sent_bytes (a @ b) = sent_bytes a @ sent_bytes b"
  by (induction a rule: sent_bytes.induct) simp_all

text \<open>
  The queue holds messages with bytes left, after which there can be the closing sentinel,
  which is there only when nothing more is accepted.
\<close>

definition out_ok :: "OutboundQueue \<Rightarrow> nat \<Rightarrow> bool" where
  "out_ok q mx \<longleftrightarrow> out_itemcount q = length (out_items q) \<and>
     out_pending q = sum_list (map raw_size (out_items q)) \<and> out_pending q \<le> mx \<and> mx < 2 ^ 63 \<and>
     (\<exists>ds. list_all raw_ok ds \<and>
        (out_items q = ds \<or> out_items q = ds @ [null_RawMsg] \<and> \<not> acceptmore q))"

lemma sum_list_raw_ok: "list_all raw_ok ds \<Longrightarrow> length ds \<le> sum_list (map raw_size ds)"
  by (induction ds) (auto simp: raw_ok_def)

lemma out_ok_new [simp]: "mx < 2 ^ 63 \<Longrightarrow> out_ok new_OutboundQueue mx"
  by (simp add: out_ok_def new_OutboundQueue_def)

lemma out_ok_no_more: "out_ok q mx \<Longrightarrow> out_ok (q\<lparr>acceptmore := False\<rparr>) mx"
  by (auto simp: out_ok_def)

lemma length_unsent: "out_ok (m_out_q c) mx \<Longrightarrow> length (unsent c) = out_pending (m_out_q c)"
proof -
  assume "out_ok (m_out_q c) mx"
  then have "\<forall>r \<in> set (out_items (m_out_q c)). length (raw_bytes r) = raw_size r"
    by (auto simp: out_ok_def list_all_iff intro: length_raw_bytes)
  then have "map length (map raw_bytes (out_items (m_out_q c))) = map raw_size (out_items (m_out_q c))"
    by simp
  then show ?thesis
    using \<open>out_ok (m_out_q c) mx\<close> by (simp add: unsent_def length_concat out_ok_def del: map_map)
qed

section \<open>Operations on the queue\<close>

lemma log_io_simps [simp]:
  "m_out_q (log_io e c) = m_out_q c" "m_out_pend_max (log_io e c) = m_out_pend_max c"
  "m_attn_flags (log_io e c) = m_attn_flags c" "m_io_closed (log_io e c) = m_io_closed c"
  "io_log (log_io e c) = io_log c @ [e]" "m_datafifo (log_io e c) = m_datafifo c"
  "m_rbuf (log_io e c) = m_rbuf c" "m_cb (log_io e c) = m_cb c" "m_runstate (log_io e c) = m_runstate c"
  by (simp_all add: log_io_def)

lemma shutdown_simps [simp]:
  "m_out_q (do_shutdown_SHUT_WR c) = m_out_q c"
  "m_out_pend_max (do_shutdown_SHUT_WR c) = m_out_pend_max c"
  "m_io_closed (do_shutdown_SHUT_WR c) = m_io_closed c"
  "sent_bytes (io_log (do_shutdown_SHUT_WR c)) = sent_bytes (io_log c)"
  "m_datafifo (do_shutdown_SHUT_WR c) = m_datafifo c"
  "m_rbuf (do_shutdown_SHUT_WR c) = m_rbuf c" "m_cb (do_shutdown_SHUT_WR c) = m_cb c"
  "m_runstate (do_shutdown_SHUT_WR c) = m_runstate c"
  by (simp_all add: do_shutdown_SHUT_WR_def)

lemma push_chunk_simps [simp]:
  "m_out_q (push_chunk k c) = m_out_q c" "m_out_pend_max (push_chunk k c) = m_out_pend_max c"
  "m_attn_flags (push_chunk k c) = m_attn_flags c" "m_io_closed (push_chunk k c) = m_io_closed c"
  "io_log (push_chunk k c) = io_log c" "m_rbuf (push_chunk k c) = m_rbuf c"
  "m_cb (push_chunk k c) = m_cb c" "m_runstate (push_chunk k c) = m_runstate c"
  by (simp_all add: push_chunk_def)

lemma no_more_simps [simp]:
  "m_out_q (no_more c) = (m_out_q c)\<lparr>acceptmore := False\<rparr>" "m_out_pend_max (no_more c) = m_out_pend_max c"
  "io_log (no_more c) = io_log c" "m_io_closed (no_more c) = m_io_closed c"
  "m_attn_flags (no_more c) = m_attn_flags c" "m_datafifo (no_more c) = m_datafifo c"
  "m_rbuf (no_more c) = m_rbuf c" "m_cb (no_more c) = m_cb c" "m_runstate (no_more c) = m_runstate c"
  by (simp_all add: no_more_def)

lemma push_out_simps [simp]:
  "m_out_pend_max (push_out r n c) = m_out_pend_max c" "io_log (push_out r n c) = io_log c"
  "m_io_closed (push_out r n c) = m_io_closed c" "m_attn_flags (push_out r n c) = m_attn_flags c"
  "m_datafifo (push_out r n c) = m_datafifo c" "m_rbuf (push_out r n c) = m_rbuf c"
  "m_cb (push_out r n c) = m_cb c" "m_runstate (push_out r n c) = m_runstate c"
  "out_items (m_out_q (push_out r n c)) = out_items (m_out_q c) @ [r]"
  "acceptmore (m_out_q (push_out r n c)) = acceptmore (m_out_q c)"
  by (simp_all add: push_out_def)

lemma push_out_ok:
  assumes "out_ok (m_out_q c) mx" "acceptmore (m_out_q c)" "raw_ok r"
    "raw_size r \<le> mx - out_pending (m_out_q c)"
  shows "out_ok (m_out_q (push_out r (raw_size r) c)) mx"
    "unsent (push_out r (raw_size r) c) = unsent c @ raw_bytes r"
proof -
  have "list_all raw_ok (out_items (m_out_q c) @ [r])"
    using assms by (auto simp: out_ok_def)
  moreover have "out_pending (m_out_q c) + raw_size r < 2 ^ 64"
    using assms by (auto simp: out_ok_def)
  ultimately show "out_ok (m_out_q (push_out r (raw_size r) c)) mx"
    using assms by (auto simp: out_ok_def push_out_def)
  show "unsent (push_out r (raw_size r) c) = unsent c @ raw_bytes r"
    by (simp add: unsent_def)
qed

lemma push_null_ok:
  assumes "out_ok (m_out_q c) mx" "acceptmore (m_out_q c)"
  shows "out_ok (m_out_q (push_out null_RawMsg 0 (no_more c))) mx"
    "unsent (push_out null_RawMsg 0 (no_more c)) = unsent c"
proof -
  have "list_all raw_ok (out_items (m_out_q c))"
    using assms by (auto simp: out_ok_def)
  moreover have "out_pending (m_out_q c) < 2 ^ 64"
    using assms by (auto simp: out_ok_def)
  ultimately show "out_ok (m_out_q (push_out null_RawMsg 0 (no_more c))) mx"
    using assms by (auto simp: out_ok_def push_out_def)
  show "unsent (push_out null_RawMsg 0 (no_more c)) = unsent c"
    by (simp add: unsent_def)
qed

text \<open>\<open>queue\<close>: on success the bytes are behind the queue, otherwise the queue is as it was.\<close>

lemma queue_ok:
  assumes "out_ok (m_out_q c) (m_out_pend_max c)" "queue buf cl c = (c', r)"
  shows "out_ok (m_out_q c') (m_out_pend_max c')"
    "sent_bytes (io_log c') = sent_bytes (io_log c)"
    "unsent c' = unsent c @ (if r = 0 then buf else [])"
    "m_out_pend_max c' = m_out_pend_max c" "m_io_closed c' = m_io_closed c"
    "m_datafifo c' = m_datafifo c" "m_rbuf c' = m_rbuf c" "m_cb c' = m_cb c" "m_runstate c' = m_runstate c"
proof -
  let ?c1 = "if buf \<noteq> [] then push_out (new_RawMsg buf) (length buf) c else c"
  let ?c2 = "if cl then push_out null_RawMsg 0 (no_more ?c1) else ?c1"
  have sub: "sub64 (m_out_pend_max c) (out_pending (m_out_q c)) = m_out_pend_max c - out_pending (m_out_q c)"
    using assms(1) by (auto simp: out_ok_def)
  have un: "unsent (log_io e d) = unsent d" "unsent (do_shutdown_SHUT_WR d) = unsent d"
    "unsent (no_more d) = unsent d" for e d
    by (simp_all add: unsent_def)
  consider (refused) "\<not> acceptmore (m_out_q c)" "c' = c" "r = -2"
    | (full) "acceptmore (m_out_q c)" "buf \<noteq> []" "c' = do_shutdown_SHUT_WR (no_more c)" "r = -1"
    | (accepted) "acceptmore (m_out_q c)" "buf \<noteq> [] \<Longrightarrow> length buf \<le> m_out_pend_max c - out_pending (m_out_q c)"
        "c' = (if buf \<noteq> [] \<or> cl then log_io Invalidate ?c2 else ?c2)" "r = 0"
    using assms(2) unfolding queue_def sub Let_def by (auto split: if_splits)
  note cases = this
  show frame: "m_out_pend_max c' = m_out_pend_max c" "m_io_closed c' = m_io_closed c"
    "m_datafifo c' = m_datafifo c" "m_rbuf c' = m_rbuf c" "m_cb c' = m_cb c" "m_runstate c' = m_runstate c"
    "sent_bytes (io_log c') = sent_bytes (io_log c)"
    by (cases rule: cases; simp)+
  have "out_ok (m_out_q c') (m_out_pend_max c) \<and> unsent c' = unsent c @ (if r = 0 then buf else [])"
  proof (cases rule: cases)
    case refused
    then show ?thesis using assms(1) by simp
  next
    case full
    then show ?thesis using out_ok_no_more [OF assms(1)] by (simp add: un)
  next
    case accepted
    have 1: "out_ok (m_out_q ?c1) (m_out_pend_max c)" "unsent ?c1 = unsent c @ buf"
      "acceptmore (m_out_q ?c1)"
      using push_out_ok [OF assms(1) accepted(1), of "new_RawMsg buf"] accepted(1,2) assms(1) by auto
    have "out_ok (m_out_q ?c2) (m_out_pend_max c) \<and> unsent ?c2 = unsent c @ buf"
      using 1 push_null_ok [OF 1(1,3)] by (cases cl) (simp_all only: if_True if_False simp_thms)
    moreover have "m_out_q c' = m_out_q ?c2" "unsent c' = unsent ?c2"
      using accepted(3) by (auto simp: un)
    ultimately show ?thesis using accepted(4) by simp
  qed
  then show "out_ok (m_out_q c') (m_out_pend_max c')" "unsent c' = unsent c @ (if r = 0 then buf else [])"
    using frame(1) by simp_all
qed

lemma pop_out_simps [simp]:
  "m_out_pend_max (pop_out c) = m_out_pend_max c" "io_log (pop_out c) = io_log c"
  "m_io_closed (pop_out c) = m_io_closed c" "m_attn_flags (pop_out c) = m_attn_flags c"
  "m_datafifo (pop_out c) = m_datafifo c" "m_rbuf (pop_out c) = m_rbuf c"
  "m_cb (pop_out c) = m_cb c" "m_runstate (pop_out c) = m_runstate c"
  "out_items (m_out_q (pop_out c)) = tl (out_items (m_out_q c))"
  "acceptmore (m_out_q (pop_out c)) = acceptmore (m_out_q c)"
  "out_pending (m_out_q (pop_out c)) = out_pending (m_out_q c)"
  by (simp_all add: pop_out_def)

lemma length_items_less: "out_ok q mx \<Longrightarrow> length (out_items q) < 2 ^ 64"
  using sum_list_raw_ok by (fastforce simp: out_ok_def)

lemma pop_out_ok:
  assumes "out_ok (m_out_q c) mx" "out_items (m_out_q c) = r # rs" "raw_size r = 0"
  shows "out_ok (m_out_q (pop_out c)) mx" "out_items (m_out_q (pop_out c)) = rs"
proof -
  have "out_itemcount (m_out_q (pop_out c)) = length rs"
    using assms length_items_less [OF assms(1)] by (simp add: out_ok_def pop_out_def)
  moreover have "\<exists>ds. list_all raw_ok ds \<and> (rs = ds \<or> rs = ds @ [null_RawMsg] \<and> \<not> acceptmore (m_out_q c))"
    using assms(1,2) by (auto simp: out_ok_def Cons_eq_append_conv)
  ultimately show "out_ok (m_out_q (pop_out c)) mx" "out_items (m_out_q (pop_out c)) = rs"
    using assms by (auto simp: out_ok_def)
qed

lemma out_front:
  assumes "out_ok q mx" "out_items q = r # rs" "r \<noteq> null_RawMsg"
  shows "raw_ok r" "raw_size r < 2 ^ 64" "raw_size r \<le> out_pending q"
  using assms by (auto simp: out_ok_def Cons_eq_append_conv)

text \<open>A \<^verbatim>\<open>send\<close> moves bytes from the front of the queue to the wire.\<close>

lemma after_send_ok:
  assumes ok: "out_ok (m_out_q c) mx" and items: "out_items (m_out_q c) = r # rs" "r \<noteq> null_RawMsg"
    and n: "n \<le> raw_size r"
  shows "out_ok (m_out_q (after_send now n r c)) mx"
    "sent_bytes (io_log (after_send now n r c)) = sent_bytes (io_log c) @ take n (raw_bytes r)"
    "unsent (after_send now n r c) = drop n (raw_bytes r) @ concat (map raw_bytes rs)"
proof -
  note r = out_front [OF ok items]
  note e = eat_ok [OF r(1) n r(2)]
  let ?q = "(m_out_q c)\<lparr>out_items := eat n r # rs, out_pending := out_pending (m_out_q c) - n\<rparr>"
  let ?c = "log_io (Sent (take n (raw_bytes r)))
    (c\<lparr>m_bytes_out := (m_bytes_out c + n) mod 2 ^ 64, m_last_write := now, m_out_q := ?q\<rparr>)"
  have a: "after_send now n r c = (if raw_size (eat n r) = 0 then pop_out ?c else ?c)"
    using items r(3) n by (simp add: after_send_def Let_def)
  have sum: "out_itemcount ?q = length (out_items ?q)" "out_pending ?q \<le> mx" "mx < 2 ^ 63"
    "out_pending ?q = sum_list (map raw_size (out_items ?q))"
    using ok items n by (auto simp: out_ok_def e)
  have rest: "\<exists>ds. list_all raw_ok ds \<and> (rs = ds \<or> rs = ds @ [null_RawMsg] \<and> \<not> acceptmore (m_out_q c))"
    using ok items by (auto simp: out_ok_def Cons_eq_append_conv)
  show "sent_bytes (io_log (after_send now n r c)) = sent_bytes (io_log c) @ take n (raw_bytes r)"
    by (simp add: a)
  show "unsent (after_send now n r c) = drop n (raw_bytes r) @ concat (map raw_bytes rs)"
    using e(1,2) length_raw_bytes [of r] r(1) by (auto simp: a unsent_def)
  show "out_ok (m_out_q (after_send now n r c)) mx"
  proof (cases "n = raw_size r")
    case True
    then have "raw_size (eat n r) = 0" using e(1) by simp
    moreover have "out_itemcount (m_out_q (pop_out ?c)) = length rs"
      using sum(1) length_items_less [OF ok] items by (simp add: pop_out_def)
    ultimately show ?thesis
      using sum rest unfolding a by (auto simp: out_ok_def)
  next
    case False
    then have "raw_ok (eat n r)" "raw_size (eat n r) \<noteq> 0" using e n by simp_all
    then have "\<exists>ds. list_all raw_ok ds \<and>
        (eat n r # rs = ds \<or> eat n r # rs = ds @ [null_RawMsg] \<and> \<not> acceptmore (m_out_q c))"
      using rest by (metis append_Cons list.pred_inject(2))
    then show ?thesis
      using sum \<open>raw_size (eat n r) \<noteq> 0\<close> unfolding a out_ok_def by simp
  qed
qed

lemma after_send_frame [simp]:
  "m_out_pend_max (after_send now n r c) = m_out_pend_max c" "m_io_closed (after_send now n r c) = m_io_closed c"
  "m_attn_flags (after_send now n r c) = m_attn_flags c" "m_datafifo (after_send now n r c) = m_datafifo c"
  "m_rbuf (after_send now n r c) = m_rbuf c" "m_cb (after_send now n r c) = m_cb c"
  "m_runstate (after_send now n r c) = m_runstate c"
  "io_log (after_send now n r c) = io_log c @ [Sent (take n (raw_bytes r))]"
  by (simp_all add: after_send_def Let_def)

text \<open>One turn of the output loop is defined and conserves the stream.\<close>

lemma output_turn_ok:
  assumes ok: "out_ok (m_out_q c) (m_out_pend_max c)"
  obtains c' st where "output_turn now r c = Inr (c', st)" "out_ok (m_out_q c') (m_out_pend_max c')"
    "sent_bytes (io_log c') @ unsent c' = sent_bytes (io_log c) @ unsent c"
    "m_out_pend_max c' = m_out_pend_max c" "m_io_closed c' = m_io_closed c"
proof (cases "out_items (m_out_q c)")
  case Nil
  then show ?thesis
    using ok that by (simp add: output_turn_def unsent_def out_ok_def)
next
  case (Cons x rs)
  show ?thesis
  proof (cases "x = null_RawMsg")
    case True
    then show ?thesis
      using pop_out_ok [OF ok Cons] Cons that [of "do_shutdown_SHUT_WR (pop_out c)" "Some IO_close"]
      by (simp add: output_turn_def unsent_def)
  next
    case False
    note s = after_send_ok [OF ok Cons False min.cobounded2]
    have "unsent c = raw_bytes x @ concat (map raw_bytes rs)" by (simp add: unsent_def Cons)
    have stream: "sent_bytes (io_log (after_send now (min n (raw_size x)) x c)) @
        unsent (after_send now (min n (raw_size x)) x c) = sent_bytes (io_log c) @ unsent c" for n
      unfolding s(2,3) \<open>unsent c = _\<close> by simp
    show ?thesis
    proof (cases "\<exists>n. r = Room n \<and> n \<noteq> 0")
      case True
      then obtain n where "output_turn now r c = Inr (after_send now (min n (raw_size x)) x c, None)"
        using Cons False by (auto simp: output_turn_def)
      then show ?thesis
        by (rule that) (use s(1) stream in simp_all)
    next
      case no: False
      then obtain st where "output_turn now r c = Inr (c, st)"
        using Cons False by (cases r) (auto simp: output_turn_def)
      then show ?thesis
        by (rule that) (use ok in simp_all)
    qed
  qed
qed

section \<open>The log of system calls\<close>

text \<open>After the socket has been closed only notifications of the reactor follow.\<close>

definition notification :: "io_event \<Rightarrow> bool" where
  "notification e \<longleftrightarrow> e = Invalidate \<or> e = RequestAttn"

fun quiet_after_close :: "io_event list \<Rightarrow> bool" where
  "quiet_after_close [] \<longleftrightarrow> True"
| "quiet_after_close (e # l) \<longleftrightarrow> (if e = CloseFd then list_all notification l else quiet_after_close l)"

lemma quiet_snoc [simp]:
  "quiet_after_close (l @ [e]) \<longleftrightarrow> quiet_after_close l \<and> (CloseFd \<in> set l \<longrightarrow> notification e)"
  by (induction l) auto

definition log_ok :: "Client \<Rightarrow> bool" where
  "log_ok c \<longleftrightarrow> quiet_after_close (io_log c) \<and> (CloseFd \<in> set (io_log c) \<longleftrightarrow> m_io_closed c) \<and>
     count_list (io_log c) ShutdownWR \<le> 1 \<and>
     (m_attn_flags c AND eShutdownDone = 0 \<longrightarrow> count_list (io_log c) ShutdownWR = 0)"

lemma flags_distinct [simp]:
  "(x OR eShutdownDone) AND eShutdownDone = eShutdownDone" "eShutdownDone \<noteq> 0"
  "(x OR eWantDelete) AND eShutdownDone = x AND eShutdownDone"
  "(x OR eWantDelete) AND eWantDelete = eWantDelete" "eWantDelete \<noteq> 0"
  "(x OR eShutdownDone) AND eWantDelete = x AND eWantDelete"
  by (simp_all add: eShutdownDone_def eWantDelete_def word_ao_dist)

lemma log_ok_note: "log_ok c \<Longrightarrow> notification e \<Longrightarrow> log_ok (log_io e c)"
  by (auto simp: log_ok_def notification_def)

lemma log_ok_shutdown [simp]: "log_ok c \<Longrightarrow> log_ok (do_shutdown_SHUT_WR c)"
  by (auto simp: log_ok_def do_shutdown_SHUT_WR_def)

lemma log_ok_cong:
  "log_ok c \<Longrightarrow> io_log c' = io_log c \<Longrightarrow> m_io_closed c' = m_io_closed c \<Longrightarrow> m_attn_flags c' = m_attn_flags c \<Longrightarrow>
   log_ok c'"
  by (simp add: log_ok_def)

lemma log_ok_close: "log_ok c \<Longrightarrow> log_ok (handle_close c)"
  by (auto simp: log_ok_def handle_close_def io_open_def)

lemma log_ok_send: "log_ok c \<Longrightarrow> \<not> m_io_closed c \<Longrightarrow> log_ok (after_send now n r c)"
  by (auto simp: log_ok_def)

lemma log_ok_simps [simp]:
  "log_ok (pop_out c) = log_ok c" "log_ok (no_more c) = log_ok c" "log_ok (push_out r n c) = log_ok c"
  "log_ok (push_chunk k c) = log_ok c" "log_ok (c\<lparr>m_out_q := q\<rparr>) = log_ok c"
  by (simp_all add: log_ok_def)

lemma log_ok_queue: "log_ok c \<Longrightarrow> log_ok (fst (queue buf cl c))"
  by (auto simp: queue_def Let_def notification_def intro!: log_ok_note)

lemma log_ok_turn: "log_ok c \<Longrightarrow> \<not> m_io_closed c \<Longrightarrow> output_turn now r c = Inr (c', st) \<Longrightarrow> log_ok c'"
  by (auto simp: output_turn_def log_ok_send split: list.splits if_splits send_result.splits)

lemma log_ok_release: "log_ok c \<Longrightarrow> log_ok (release now c)"
proof -
  assume "log_ok c"
  then have "log_ok (do_shutdown_SHUT_WR (c\<lparr>m_cb := False\<rparr>))"
    by (intro log_ok_shutdown) (simp add: log_ok_def)
  then show ?thesis
    by (simp add: release_def Let_def log_ok_def notification_def)
qed

section \<open>Runs\<close>

inductive run :: "Client \<Rightarrow> string \<Rightarrow> Client \<Rightarrow> bool" for c0 where
  start: "run c0 [] c0"
| queued: "run c0 w c \<Longrightarrow> queue buf cl c = (c', r) \<Longrightarrow> run c0 (w @ (if r = 0 then buf else [])) c'"
| sending: "run c0 w c \<Longrightarrow> io_open c \<Longrightarrow> output_turn now r c = Inr (c', st) \<Longrightarrow> run c0 w c'"
| received: "run c0 w c \<Longrightarrow> run c0 w (fst (handle_input now rr c))"
| closed: "run c0 w c \<Longrightarrow> run c0 w (handle_close c)"
| destroyed: "run c0 w c \<Longrightarrow> run c0 w (fst (destroy_cycle t c))"
| released: "run c0 w c \<Longrightarrow> run c0 w (release now c)"
| inbound: "run c0 w c \<Longrightarrow> run c0 w (c\<lparr>m_datafifo := f, m_rbuf := b, m_cb := k, m_runstate := s\<rparr>)"

text \<open>What holds throughout a run, with the bytes accepted so far.\<close>

definition stream_inv :: "string \<Rightarrow> Client \<Rightarrow> bool" where
  "stream_inv w c \<longleftrightarrow> out_ok (m_out_q c) (m_out_pend_max c) \<and> log_ok c \<and> sent_bytes (io_log c) @ unsent c = w"

lemma stream_inv_frame:
  "stream_inv w c \<Longrightarrow> m_out_q c' = m_out_q c \<Longrightarrow> m_out_pend_max c' = m_out_pend_max c \<Longrightarrow>
   sent_bytes (io_log c') = sent_bytes (io_log c) \<Longrightarrow> log_ok c' \<Longrightarrow> stream_inv w c'"
  by (simp add: stream_inv_def unsent_def)

lemma stream_inv_queue:
  assumes "stream_inv w c" "queue buf cl c = (c', r)"
  shows "stream_inv (w @ (if r = 0 then buf else [])) c'"
proof -
  have "out_ok (m_out_q c) (m_out_pend_max c)" using assms(1) by (simp add: stream_inv_def)
  note q = queue_ok [OF this assms(2)]
  then show ?thesis
    using assms log_ok_queue [of c buf cl] by (simp add: stream_inv_def flip: append_assoc)
qed

lemma stream_inv_output:
  assumes "stream_inv w c" "io_open c" "output_turn now r c = Inr (c', st)"
  shows "stream_inv w c'"
proof -
  have "out_ok (m_out_q c) (m_out_pend_max c)" using assms(1) by (simp add: stream_inv_def)
  then obtain c2 st2 where t: "output_turn now r c = Inr (c2, st2)" "out_ok (m_out_q c2) (m_out_pend_max c2)"
    "sent_bytes (io_log c2) @ unsent c2 = sent_bytes (io_log c) @ unsent c"
    by (rule output_turn_ok [of c now r])
  then have "c2 = c'" using assms(3) by simp
  moreover have "log_ok c'"
    using assms log_ok_turn [OF _ _ assms(3)] by (simp add: stream_inv_def io_open_def)
  ultimately show ?thesis
    using t assms(1) by (simp add: stream_inv_def)
qed

lemma stream_inv_close: "stream_inv w c \<Longrightarrow> stream_inv w (handle_close c)"
proof -
  assume inv: "stream_inv w c"
  then have "log_ok (handle_close c)" by (simp add: log_ok_close stream_inv_def)
  with inv show ?thesis
    by (simp add: stream_inv_def unsent_def) (simp add: handle_close_def)
qed

lemma handle_input_frame [simp]:
  "m_out_q (fst (handle_input now rr c)) = m_out_q c"
  "m_out_pend_max (fst (handle_input now rr c)) = m_out_pend_max c"
  "io_log (fst (handle_input now rr c)) = io_log c"
  "m_io_closed (fst (handle_input now rr c)) = m_io_closed c"
  "m_attn_flags (fst (handle_input now rr c)) = m_attn_flags c"
  "m_rbuf (fst (handle_input now rr c)) = m_rbuf c" "m_cb (fst (handle_input now rr c)) = m_cb c"
  by (simp_all add: handle_input_def Let_def split: read_result.split)

lemma stream_inv_run:
  assumes "run c0 w c" "stream_inv [] c0"
  shows "stream_inv w c"
  using assms
proof (induction rule: run.induct)
  case (queued w c buf cl c' r)
  then show ?case by (simp add: stream_inv_queue)
next
  case (sending w c now r c' st)
  then show ?case using stream_inv_output by blast
next
  case (received w c now rr)
  then show ?case by (simp add: stream_inv_def log_ok_def unsent_def)
next
  case (closed w c)
  then show ?case by (simp add: stream_inv_close)
next
  case (destroyed w c t)
  have "stream_inv w (c\<lparr>m_tdestroy := t\<rparr>)"
    using destroyed by (simp add: stream_inv_def log_ok_def unsent_def)
  then show ?case
    using destroyed stream_inv_close by (auto simp: destroy_cycle_def Let_def)
next
  case (released w c now)
  then have "log_ok (release now c)" by (simp add: log_ok_release stream_inv_def)
  moreover have "sent_bytes (io_log (release now c)) = sent_bytes (io_log c)"
    "m_out_q (release now c) = m_out_q c" "m_out_pend_max (release now c) = m_out_pend_max c"
    by (simp_all add: release_def Let_def)
  ultimately show ?case
    using released by (simp add: stream_inv_def unsent_def)
next
  case (inbound w c f b k s)
  then show ?case by (simp add: stream_inv_def log_ok_def unsent_def)
qed

lemma stream_inv_new [simp]: "stream_inv [] (new_Client now)"
  by (simp add: stream_inv_def new_Client_def log_ok_def unsent_def new_OutboundQueue_def out_ok_def)

end
