(* ===== verification/Framing.thy ===== *)
theory Framing
  imports Sam_Roundtrip
begin

text \<open>
  Messages in a stream of bytes.  The locale \<open>framing\<close> is what a receiver relies on: a
  complete message at the front of its input is decoded whatever follows it, and an
  incomplete one asks for more.  From these two laws follows that the messages are recovered
  from every part of the stream that has arrived, and the SAM protocol satisfies them.
\<close>

locale framing =
  fixes decode :: "string \<Rightarrow> ('m \<times> nat) res"
    and enc :: "'m \<Rightarrow> string"
    and sendable :: "'m \<Rightarrow> bool"
  assumes whole: "sendable m \<Longrightarrow> decode (enc m @ rest) = Inr (m, length (enc m))"
    and partial: "sendable m \<Longrightarrow> k < length (enc m) \<Longrightarrow> \<exists>x. decode (take k (enc m)) = Inr (x, 0)"
    and enc_nonempty: "sendable m \<Longrightarrow> enc m \<noteq> []"
begin

definition stream :: "'m list \<Rightarrow> string" where
  "stream ms = concat (map enc ms)"

lemma stream_simps [simp]: "stream [] = []" "stream (m # ms) = enc m @ stream ms"
  "stream (ms @ ns) = stream ms @ stream ns"
  by (simp_all add: stream_def)

text \<open>The front of the stream: a whole message, or part of one.\<close>

lemma front_cases:
  assumes "sendable m" "bs @ later = enc m @ rest"
  obtains (complete) bs' where "bs = enc m @ bs'" "decode bs = Inr (m, length (enc m))" "bs' @ later = rest"
  | (incomplete) x where "length bs < length (enc m)" "decode bs = Inr (x, 0)"
proof (cases "length (enc m) \<le> length bs")
  case True
  let ?L = "length (enc m)"
  have "take ?L bs = enc m"
    using arg_cong [OF assms(2), of "take ?L"] True by simp
  moreover have "drop ?L bs @ later = rest"
    using arg_cong [OF assms(2), of "drop ?L"] True by simp
  ultimately show ?thesis
    using whole [OF assms(1)] that(1) [of "drop ?L bs"] by (metis append_take_drop_id)
next
  case False
  then have "bs = take (length bs) (enc m)"
    using assms(2) by (metis append_eq_append_conv_if append_eq_conv_conj le_cases take_all)
  then show ?thesis
    using False partial [OF assms(1), of "length bs"] that(2) by fastforce
qed

end

definition sam_sendable :: "txContainer \<Rightarrow> bool" where
  "sam_sendable m \<longleftrightarrow> wf_cont m \<and> clean_cont m \<and> clean_type (cont_name m) \<and> wire_len m \<le> max_msglen"

interpretation sam: framing "decodeMsg (new_container '''')" wire sam_sendable
proof
  fix m rest k
  assume m: "sam_sendable m"
  then have w: "wf_cont m" "clean_cont m" "clean_type (cont_name m)" "wire_len m \<le> max_msglen"
    by (simp_all add: sam_sendable_def)
  have small: "length (enc_body m) + 30 < 2 ^ 32"
    using w(4) wire_len_ge [of m] by simp
  note l = length_wire [OF small]
  show "decodeMsg (new_container '''') (wire m @ rest) = Inr (m, length (wire m))"
    using decodeMsg_wire [OF w l refl, of "new_container ''''" rest] l by simp
  show "wire m \<noteq> []"
    using l wire_len_ge [of m] by auto
  show "\<exists>x. decodeMsg (new_container '''') (take k (wire m)) = Inr (x, 0)" if "k < length (wire m)"
    using decodeMsg_prefix [OF w(4) l, of k] that l by auto
qed

end
