(* ===== verification/Client_Inbound.thy ===== *)
theory Client_Inbound
  imports Client_Laws Framing
begin

text \<open>
  The inbound side of a connection: chunks read from the socket are copied into the read
  buffer and messages are decoded from its front.  The locale \<open>receiver\<close> is the contract
  between a connection and its callback; \<open>recv\<close> is the relation of the runs of the inbound
  side, with the bytes that have arrived.
\<close>

section \<open>Chunks\<close>

definition chunk_bytes :: "DataChunk \<Rightarrow> string" where
  "chunk_bytes k = take (chunk_size k) (drop (chunk_start k) (chunk_buf k))"

definition chunk_ok :: "DataChunk \<Rightarrow> bool" where
  "chunk_ok k \<longleftrightarrow> 0 < chunk_size k \<and> chunk_start k + chunk_size k \<le> length (chunk_buf k)"

definition in_ok :: "Client \<Rightarrow> bool" where
  "in_ok c \<longleftrightarrow> rbuf_ok (m_rbuf c) \<and> m_rp (m_rbuf c) = 0 \<and>
     fifo_itemcount (m_datafifo c) = length (fifo_items (m_datafifo c)) \<and>
     (\<exists>ds. list_all chunk_ok ds \<and> (fifo_items (m_datafifo c) = ds \<or>
        fifo_items (m_datafifo c) = ds @ [null_DataChunk] \<and> m_io_closed c))"

text \<open>The bytes that have been received and not yet been consumed by the callback.\<close>

definition pending_in :: "Client \<Rightarrow> string" where
  "pending_in c = contents (m_rbuf c) @ concat (map chunk_bytes (fifo_items (m_datafifo c)))"

lemma length_chunk: "chunk_ok k \<Longrightarrow> length (chunk_bytes k) = chunk_size k"
  by (auto simp: chunk_ok_def chunk_bytes_def)

lemma null_chunk [simp]: "chunk_bytes null_DataChunk = []" "chunk_size null_DataChunk = 0" "\<not> chunk_ok null_DataChunk"
  by (simp_all add: chunk_bytes_def null_DataChunk_def chunk_ok_def)

lemma in_ok_new [simp]: "in_ok (new_Client now)" "pending_in (new_Client now) = []"
  by (simp_all add: in_ok_def pending_in_def new_Client_def new_DataFifo_def)
    (simp add: new_ReactorReadBuffer_def)

section \<open>Copying the chunks\<close>

lemma grow_until_ok:
  assumes "rbuf_ok b" "m_rp b = 0" "3 * (m_bytesavail b + n) \<le> 2 * lim" "lim < 2 ^ 63"
  obtains b' where "grow_until lim n b = (b', None)" "rbuf_ok b'" "m_rp b' = 0"
    "contents b' = contents b" "n \<le> space_remain b'" "m_bytesavail b' = m_bytesavail b"
  using assms
proof (induction lim n b arbitrary: thesis rule: grow_until.induct)
  case (1 lim n b)
  show ?case
  proof (cases "space_remain b < n")
    case True
    have "space_remain b = length (m_array b) - m_bytesavail b" "m_bytesavail b \<le> length (m_array b)"
      using "1.prems"(2) rbuf_small [OF "1.prems"(2)]
      by (auto simp: space_remain_def capacity_def rbuf_ok_def)
    then have "3 * length (m_array b) + 2 \<le> 2 * lim"
      using True "1.prems"(4) by simp
    then obtain b1 k where g: "grow lim b = Inr (b1, k)"
      using grow_defined [OF "1.prems"(2) _ "1.prems"(5)] by blast
    note b1 = grow_ok [OF "1.prems"(2) g]
    obtain b' where b': "grow_until lim n b1 = (b', None)" "rbuf_ok b'" "m_rp b' = 0"
      "contents b' = contents b1" "n \<le> space_remain b'" "m_bytesavail b' = m_bytesavail b1"
      using "1.IH" [OF True g refl] b1 "1.prems"(3-5) by metis
    have "grow_until lim n b = grow_until lim n b1"
      using True g by (simp add: grow_until.simps [of lim n b])
    then show ?thesis
      using b' b1 "1.prems"(1) [of b'] by simp
  next
    case False
    then have "grow_until lim n b = (b, None)"
      by (simp add: grow_until.simps)
    then show ?thesis
      using False "1.prems"(1) [of b] "1.prems"(2,3) by simp
  qed
qed

text \<open>All chunks before a sentinel, if there is one, end up in the buffer.\<close>

lemma drain_ok:
  assumes "list_all chunk_ok ds" "rbuf_ok b" "m_rp b = 0"
    "3 * (m_bytesavail b + sum_list (map chunk_size ds)) \<le> 2 * lim" "lim < 2 ^ 63"
    "ts = [] \<or> ts = [null_DataChunk]"
  obtains b' where "drain_fifo lim (ds @ ts) (length (ds @ ts)) b = ([], 0, b', ts \<noteq> [], None)"
    "rbuf_ok b'" "m_rp b' = 0" "contents b' = contents b @ concat (map chunk_bytes ds)"
  using assms
proof (induction ds arbitrary: b thesis)
  case Nil
  have "drain_fifo lim ([] @ ts) (length ([] @ ts)) b = ([], 0, b, ts \<noteq> [], None)"
    using Nil.prems(7) by auto
  then show ?case using Nil.prems(1) [of b] Nil.prems(3,4) by simp
next
  case (Cons k ds)
  let ?n = "chunk_size k"
  have k: "length (chunk_bytes k) = ?n" "?n \<noteq> 0"
    using Cons.prems(2) length_chunk by (auto simp: chunk_ok_def)
  obtain b1 where b1: "grow_until lim ?n b = (b1, None)" "rbuf_ok b1" "m_rp b1 = 0"
    "contents b1 = contents b" "?n \<le> space_remain b1" "m_bytesavail b1 = m_bytesavail b"
    by (rule grow_until_ok [of b ?n lim]) (use Cons.prems in simp_all)
  obtain b2 where b2: "write_wp (chunk_bytes k) b1 = Inr b2" "rbuf_ok (incr_bytesavail ?n b2)"
    "contents (incr_bytesavail ?n b2) = contents b @ chunk_bytes k" "m_rp (incr_bytesavail ?n b2) = 0"
    using write_ok [OF b1(2,3), of "chunk_bytes k"] b1(4,5) k by metis
  have "m_bytesavail (incr_bytesavail ?n b2) = m_bytesavail b + ?n"
    using arg_cong [OF b2(3), of length] length_contents [OF b2(2)] length_contents [OF Cons.prems(3)] k by simp
  then obtain b' where b': "drain_fifo lim (ds @ ts) (length (ds @ ts)) (incr_bytesavail ?n b2) = ([], 0, b', ts \<noteq> [], None)"
    "rbuf_ok b'" "m_rp b' = 0"
    "contents b' = contents (incr_bytesavail ?n b2) @ concat (map chunk_bytes ds)"
    using Cons.IH [of "incr_bytesavail ?n b2"] Cons.prems b2 by auto
  have "drain_fifo lim ((k # ds) @ ts) (length ((k # ds) @ ts)) b = ([], 0, b', ts \<noteq> [], None)"
    using b1(1) b2(1) b'(1) k(2) by (simp add: chunk_bytes_def)
  then show ?case
    using Cons.prems(1) [of b'] b'(2-4) b2(3) by simp
qed

section \<open>Delivering messages\<close>

text \<open>
  The contract of a callback: a complete message is consumed and handled, an incomplete one is
  left; the callback neither disables callbacks nor touches the inbound queue.  \<open>seen\<close> are the
  messages handled so far.
\<close>

locale receiver = framing decode enc sendable
  for decode :: "string \<Rightarrow> ('m \<times> nat) res" and enc and sendable +
  fixes pi :: "'e process_input_cb"
    and pc :: "'e process_close_cb"
    and seen :: "'e \<Rightarrow> 'm list"
    and live :: "'e \<Rightarrow> bool"
  assumes pi_message: "m_cb c \<Longrightarrow> live e \<Longrightarrow> length bs < 2 ^ 31 \<Longrightarrow> decode bs = Inr (m, n) \<Longrightarrow> 0 < n \<Longrightarrow> sendable m \<Longrightarrow>
      \<exists>c' e'. pi (c, e) bs = ((c', e'), Inr n) \<and> seen e' = seen e @ [m] \<and> live e' \<and>
        m_cb c' \<and> m_datafifo c' = m_datafifo c \<and> m_io_closed c' = m_io_closed c"
    and pi_partial: "m_cb c \<Longrightarrow> live e \<Longrightarrow> length bs < 2 ^ 31 \<Longrightarrow> decode bs = Inr (m, 0) \<Longrightarrow>
      \<exists>e'. pi (c, e) bs = ((c, e'), Inr 0) \<and> seen e' = seen e \<and> live e'"
    and pc_seen: "seen (snd (fst (pc (c, e)))) = seen e"
    and pc_defined: "live e \<Longrightarrow> uncaught (snd (pc (c, e))) = None"
begin

lemma deliver_stream:
  assumes "contents b @ later = stream ms" "list_all sendable ms" "rbuf_ok b" "m_cb c" "live e"
    "m_bytesavail b < 2 ^ 31"
  obtains i b' c' e' where "deliver pi b (c, e) = ((b', c', e'), None)" "rbuf_ok b'"
    "seen e' = seen e @ take i ms" "contents b' @ later = stream (drop i ms)" "i \<le> length ms"
    "i < length ms \<Longrightarrow> length (contents b') < length (enc (ms ! i))"
    "live e'" "m_cb c'" "m_datafifo c' = m_datafifo c" "m_io_closed c' = m_io_closed c"
  using assms
proof (induction ms arbitrary: b c e thesis)
  case Nil
  then have "m_bytesavail b = 0" using length_contents [of b] by simp
  then have "deliver pi b (c, e) = ((b, c, e), None)" by (simp add: deliver.simps)
  then show ?case using Nil.prems(1) [of b c e 0] Nil.prems by simp
next
  case (Cons m ms)
  let ?bs = "contents b"
  have len: "length ?bs = m_bytesavail b" by (rule length_contents) (rule Cons.prems)
  have m: "sendable m" "?bs @ later = enc m @ stream ms"
    using Cons.prems by simp_all
  from m show ?case
  proof (cases rule: front_cases)
    case (complete bs')
    let ?n = "length (enc m)"
    have n: "0 < ?n" "?n \<le> m_bytesavail b"
      using enc_nonempty [OF m(1)] arg_cong [OF complete(1), of length] len by simp_all
    then have ne: "m_bytesavail b \<noteq> 0" by linarith
    obtain c1 e1 where p: "pi (c, e) ?bs = ((c1, e1), Inr ?n)" "seen e1 = seen e @ [m]" "live e1" "m_cb c1"
      "m_datafifo c1 = m_datafifo c" "m_io_closed c1 = m_io_closed c"
      using pi_message [OF Cons.prems(5,6) _ complete(2) n(1) m(1)] len Cons.prems(7) by auto
    note k = consume_ok [OF Cons.prems(4) n(2)]
    have d: "deliver pi b (c, e) = deliver pi (consume ?n b) (c1, e1)"
      using n ne p(1) Cons.prems(4,5) by (simp add: deliver.simps [of pi b] consumed_of_def)
    have rest: "contents (consume ?n b) @ later = stream ms"
      using k(2) complete by simp
    obtain i b' c' e' where r: "deliver pi (consume ?n b) (c1, e1) = ((b', c', e'), None)" "rbuf_ok b'"
      "seen e' = seen e1 @ take i ms" "contents b' @ later = stream (drop i ms)" "i \<le> length ms"
      "i < length ms \<Longrightarrow> length (contents b') < length (enc (ms ! i))"
      "live e'" "m_cb c'" "m_datafifo c' = m_datafifo c1" "m_io_closed c' = m_io_closed c1"
      by (rule Cons.IH [of "consume ?n b" c1 e1]) (use rest Cons.prems(3,7) k(1,3) p(3,4) in simp_all)
    show ?thesis
      by (rule Cons.prems(1) [of b' c' e' "Suc i"]) (use r p d in simp_all)
  next
    case (incomplete x)
    obtain e1 where e1: "pi (c, e) ?bs = ((c, e1), Inr 0)" "seen e1 = seen e" "live e1"
      using pi_partial [OF Cons.prems(5,6) _ incomplete(2)] len Cons.prems(7) by auto
    define e2 where "e2 = (if m_bytesavail b = 0 then e else e1)"
    have "deliver pi b (c, e) = ((b, c, e2), None)"
      using e1 Cons.prems(4,5) by (simp add: deliver.simps [of pi b] consumed_of_def e2_def)
    then show ?thesis
      by (rule Cons.prems(1) [of b c e2 0]) (use incomplete(1) e1 Cons.prems in \<open>simp_all add: e2_def\<close>)
  qed
qed

text \<open>
  One round of work: the chunks are moved, every complete message is handled, and an
  incomplete one stays in the buffer.  When the sentinel is met the connection is closed after
  that.
\<close>

lemma do_work_stream:
  assumes ok: "in_ok c" and cb: "m_cb c" "live e"
    and bytes: "pending_in c @ later = stream ms" "list_all sendable ms"
    and room: "3 * length (pending_in c) \<le> 2 * lim" "lim < 2 ^ 31"
  obtains i c' e' where "do_work lim pi pc (c, e) = ((c', e'), None)"
      "in_ok c'" "seen e' = seen e @ take i ms" "pending_in c' @ later = stream (drop i ms)" "i \<le> length ms"
      "i < length ms \<Longrightarrow> length (pending_in c') < length (enc (ms ! i))"
      "m_io_closed c' = m_io_closed c" "m_cb c'" "live e'"
    | i c1 e1 where "null_DataChunk \<in> set (fifo_items (m_datafifo c))"
      "do_work lim pi pc (c, e) = ((clear_fifo ((fst (fst (pc (c1, e1))))\<lparr>m_cb := False\<rparr>), snd (fst (pc (c1, e1)))), None)"
      "seen e1 = seen e @ take i ms" "contents (m_rbuf c1) @ later = stream (drop i ms)" "i \<le> length ms"
      "i < length ms \<Longrightarrow> length (contents (m_rbuf c1)) < length (enc (ms ! i))" "in_ok c1"
      "m_io_closed c1 = m_io_closed c"
proof -
  let ?f = "m_datafifo c"
  obtain ds ts where it: "list_all chunk_ok ds" "fifo_items ?f = ds @ ts" "ts = [] \<or> ts = [null_DataChunk]"
    using ok unfolding in_ok_def by (metis append_Nil2)
  have rb: "rbuf_ok (m_rbuf c)" "m_rp (m_rbuf c) = 0" "fifo_itemcount ?f = length (ds @ ts)"
    using ok it(2) by (simp_all add: in_ok_def)
  have "map length (map chunk_bytes ds) = map chunk_size ds"
    using it(1) length_chunk by (simp add: list_all_iff)
  then have len: "length (concat (map chunk_bytes ds)) = sum_list (map chunk_size ds)"
    by (simp add: length_concat del: map_map)
  have pend: "pending_in c = contents (m_rbuf c) @ concat (map chunk_bytes ds)"
    using it by (auto simp: pending_in_def)
  have size: "3 * (m_bytesavail (m_rbuf c) + sum_list (map chunk_size ds)) \<le> 2 * lim" "lim < 2 ^ 63"
    using room len pend length_contents [OF rb(1)] by simp_all
  obtain b where b: "drain_fifo lim (ds @ ts) (length (ds @ ts)) (m_rbuf c) = ([], 0, b, ts \<noteq> [], None)"
    "rbuf_ok b" "m_rp b = 0" "contents b = pending_in c"
    by (rule drain_ok [OF it(1) rb(1,2) size it(3)]) (use pend in simp)
  let ?c1 = "c\<lparr>m_datafifo := ?f\<lparr>fifo_items := [], fifo_itemcount := 0\<rparr>, m_rbuf := b\<rparr>"
  have avail: "m_bytesavail b < 2 ^ 31"
    using length_contents [OF b(2)] b(4) room by simp
  obtain i b1 c2 e2 where d: "deliver pi b (?c1, e) = ((b1, c2, e2), None)" "rbuf_ok b1"
    "seen e2 = seen e @ take i ms" "contents b1 @ later = stream (drop i ms)" "i \<le> length ms"
    "i < length ms \<Longrightarrow> length (contents b1) < length (enc (ms ! i))"
    "live e2" "m_cb c2" "m_datafifo c2 = m_datafifo ?c1" "m_io_closed c2 = m_io_closed ?c1"
    by (rule deliver_stream [of b later ms ?c1 e]) (use b bytes cb avail in simp_all)
  obtain b2 where s: "shift_pending_to_array_start b1 = Inr b2" "rbuf_ok b2" "m_rp b2 = 0"
    "contents b2 = contents b1"
    using shift_ok [OF d(2)] by blast
  let ?c3 = "c2\<lparr>m_rbuf := b2\<rparr>"
  have in3: "in_ok ?c3" "pending_in ?c3 = contents b1"
    using s d(9) by (simp_all add: in_ok_def pending_in_def)
  have work: "do_work lim pi pc (c, e) = (if ts = [] then ((?c3, e2), None)
      else ((clear_fifo ((fst (fst (pc (?c3, e2))))\<lparr>m_cb := False\<rparr>), snd (fst (pc (?c3, e2)))), None))"
    using cb(1) rb(3) it(2) b(1) d(1,8) s(1) pc_defined [OF d(7), of ?c3]
    by (auto simp: do_work_def Let_def split: prod.split)
  show ?thesis
  proof (cases "ts = []")
    case True
    then show ?thesis
      by (intro that(1) [of ?c3 e2 i]) (use work in3 d s in simp_all)
  next
    case False
    then have "null_DataChunk \<in> set (fifo_items ?f)" using it by auto
    then show ?thesis
      by (rule that(2) [of ?c3 e2 i]) (use False work in3 d s in simp_all)
  qed
qed

lemma nothing_left:
  assumes "j \<le> length xs" "b @ [] = stream (drop j xs)" "j < length xs \<Longrightarrow> length b < length (enc (xs ! j))"
  shows "j = length xs"
proof (rule ccontr)
  assume "j \<noteq> length xs"
  then have "j < length xs" using assms(1) by simp
  then show False using assms(2,3) by (simp add: Cons_nth_drop_Suc [symmetric])
qed

text \<open>What holds in a run of the inbound side while the bytes that arrived begin the stream.\<close>

definition recv_inv :: "'m list \<Rightarrow> string \<Rightarrow> Client \<times> 'e \<Rightarrow> bool" where
  "recv_inv ms w s \<longleftrightarrow> (\<exists>i \<le> length ms. seen (snd s) = take i ms \<and>
     (m_cb (fst s) \<longrightarrow> live (snd s) \<and> in_ok (fst s) \<and> stream (take i ms) @ pending_in (fst s) = w))"

lemma recv_inv_work:
  assumes inv: "recv_inv ms w (c, e)" and w: "w @ later = stream ms" "list_all sendable ms"
    and room: "3 * length w \<le> 2 * lim" "lim < 2 ^ 31" and work: "do_work lim pi pc (c, e) = (s', x)"
  shows "recv_inv ms w s'" "m_cb c \<Longrightarrow> later = [] \<Longrightarrow> seen (snd s') = ms"
proof -
  obtain i where i: "i \<le> length ms" "seen e = take i ms"
    using inv by (auto simp: recv_inv_def)
  have "recv_inv ms w s' \<and> (m_cb c \<longrightarrow> later = [] \<longrightarrow> seen (snd s') = ms)"
  proof (cases "m_cb c")
    case False
    then have "s' = (clear_fifo c, e)" using work by (simp add: do_work_def)
    then show ?thesis using False i by (auto simp: recv_inv_def clear_fifo_def)
  next
    case True
    then obtain i where i: "i \<le> length ms" "seen e = take i ms" "live e" "in_ok c"
      "stream (take i ms) @ pending_in c = w"
      using inv by (auto simp: recv_inv_def)
    have split: "stream ms = stream (take j ms) @ stream (drop j ms)" for j
      by (metis append_take_drop_id stream_simps(3))
    have pend: "pending_in c @ later = stream (drop i ms)"
      using w(1) i(5) split [of i] by (metis append_assoc same_append_eq)
    have sd: "list_all sendable (drop i ms)"
      using w(2) by (meson in_set_dropD list_all_iff)
    have rm: "3 * length (pending_in c) \<le> 2 * lim" using room(1) i(5) by auto
    note all = nothing_left [where xs = "drop i ms"]
    have whole: "take i ms @ take j (drop i ms) = ms" if "j = length (drop i ms)" for j
      using that by simp
    have more: "take i ms @ take j (drop i ms) = take (i + j) ms" for j
      by (simp add: take_add)
    have str: "stream (take (i + j) ms) @ b = w" if "b @ later = stream (drop j (drop i ms))" for j b
      using that w(1) split [of "i + j"] by (metis add.commute append_assoc append_same_eq drop_drop)
    from i(4) True i(3) pend sd rm room(2) show ?thesis
    proof (cases rule: do_work_stream)
      case (1 j c' e')
      then have "recv_inv ms w (c', e')"
        unfolding recv_inv_def using i(1,2) more str [OF 1(4)] by (intro exI [of _ "i + j"]) auto
      moreover have "seen e' = ms" if "later = []"
        using 1 that all [OF 1(5) _ 1(6)] whole i(2) by simp
      ultimately show ?thesis using 1(1) work by auto
    next
      case (2 j c1 e1)
      then have "seen (snd s') = take (i + j) ms" "\<not> m_cb (fst s')"
        using work i(2) more by (auto simp: pc_seen clear_fifo_def)
      then have "recv_inv ms w s'"
        unfolding recv_inv_def using i(1) 2(5) by (intro exI [of _ "i + j"]) simp
      moreover have "seen (snd s') = ms" if "later = []"
        using 2 that all [OF 2(5) _ 2(6)] whole i(2) work by (auto simp: pc_seen)
      ultimately show ?thesis by simp
    qed
  qed
  then show "recv_inv ms w s'" "m_cb c \<Longrightarrow> later = [] \<Longrightarrow> seen (snd s') = ms" by blast+
qed

end

section \<open>Runs of the inbound side\<close>

text \<open>
  Bytes arrive, the worker works, the socket is closed; anything else leaves the inbound side
  as it is.
\<close>

definition same_inbound :: "Client \<Rightarrow> Client \<Rightarrow> bool" where
  "same_inbound c c' \<longleftrightarrow> m_datafifo c' = m_datafifo c \<and> m_rbuf c' = m_rbuf c \<and> m_cb c' = m_cb c \<and>
     m_io_closed c' = m_io_closed c"

inductive recv ::
  "nat \<Rightarrow> 'e process_input_cb \<Rightarrow> 'e process_close_cb \<Rightarrow> Client \<times> 'e \<Rightarrow> string \<Rightarrow> Client \<times> 'e \<Rightarrow> bool"
  for lim pi pc s0 where
  start: "recv lim pi pc s0 [] s0"
| arrive: "recv lim pi pc s0 w (c, e) \<Longrightarrow> io_open c \<Longrightarrow> handle_input now (ReadBytes avail) c = (c', st) \<Longrightarrow>
    recv lim pi pc s0 (w @ take EXIO_CLIENT_CHUNK_SIZE avail) (c', e)"
| work: "recv lim pi pc s0 w s \<Longrightarrow> do_work lim pi pc s = (s', x) \<Longrightarrow> recv lim pi pc s0 w s'"
| shut: "recv lim pi pc s0 w (c, e) \<Longrightarrow> recv lim pi pc s0 w (handle_close c, e)"
| elsewhere: "recv lim pi pc s0 w (c, e) \<Longrightarrow> same_inbound c c' \<Longrightarrow> recv lim pi pc s0 w (c', e)"

lemma in_ok_push:
  assumes "in_ok c" "\<not> m_io_closed c" "chunk_ok k"
  shows "in_ok (push_chunk k c)" "pending_in (push_chunk k c) = pending_in c @ chunk_bytes k"
proof -
  have "list_all chunk_ok (fifo_items (m_datafifo c) @ [k])"
    using assms by (auto simp: in_ok_def)
  then show "in_ok (push_chunk k c)" using assms by (auto simp: in_ok_def push_chunk_def)
  show "pending_in (push_chunk k c) = pending_in c @ chunk_bytes k"
    by (simp add: pending_in_def push_chunk_def)
qed

lemma handle_input_ok:
  assumes "in_ok c" "io_open c" "handle_input now (ReadBytes avail) c = (c', st)"
  shows "in_ok c'" "pending_in c' = pending_in c @ take EXIO_CLIENT_CHUNK_SIZE avail" "m_cb c' = m_cb c"
proof -
  let ?b = "take EXIO_CLIENT_CHUNK_SIZE avail"
  let ?c = "c\<lparr>m_bytes_in := (m_bytes_in c + length ?b) mod 2 ^ 64, m_last_read := now\<rparr>"
  let ?k = "\<lparr>chunk_buf = ?b, chunk_size = length ?b, chunk_start = 0\<rparr>"
  have c': "c' = (if ?b = [] then c else push_chunk ?k ?c)"
    using assms(2,3) by (auto simp: handle_input_def Let_def split: if_splits)
  have k: "?b \<noteq> [] \<Longrightarrow> chunk_ok ?k" "chunk_bytes ?k = ?b"
    by (simp_all add: chunk_ok_def chunk_bytes_def del: length_take take_take)
  have c: "in_ok ?c" "\<not> m_io_closed ?c" "pending_in ?c = pending_in c"
    using assms(1,2) by (simp_all add: in_ok_def pending_in_def io_open_def)
  show "m_cb c' = m_cb c" by (simp add: c')
  show "in_ok c'" "pending_in c' = pending_in c @ ?b"
    using in_ok_push [OF c(1,2) k(1)] k(2) c(3) assms(1) unfolding c' by auto
qed

lemma handle_close_ok:
  assumes "in_ok c"
  shows "in_ok (handle_close c)" "pending_in (handle_close c) = pending_in c" "m_cb (handle_close c) = m_cb c"
proof -
  have "list_all chunk_ok (fifo_items (m_datafifo c))" if "io_open c"
    using assms that by (auto simp: in_ok_def io_open_def)
  then show "in_ok (handle_close c)"
    using assms by (auto simp: in_ok_def handle_close_def push_chunk_def)
  show "pending_in (handle_close c) = pending_in c" "m_cb (handle_close c) = m_cb c"
    by (simp_all add: handle_close_def pending_in_def push_chunk_def)
qed

context receiver
begin

lemma recv_inv_run:
  assumes "recv lim pi pc s0 w s" "recv_inv ms [] s0" "w @ later = stream ms" "list_all sendable ms"
    "3 * length w \<le> 2 * lim" "lim < 2 ^ 31"
  shows "recv_inv ms w s"
  using assms
proof (induction arbitrary: later rule: recv.induct)
  case (arrive w c e now avail c' st)
  have "recv_inv ms w (c, e)"
    using arrive.IH [of "take EXIO_CLIENT_CHUNK_SIZE avail @ later"] arrive.prems by simp
  then show ?case
    using handle_input_ok [OF _ arrive.hyps(2,3)] arrive.hyps(3)
    unfolding recv_inv_def by (auto simp: handle_input_def Let_def split: if_splits)
next
  case (work w s s' x)
  have "recv_inv ms w (fst s, snd s)" using work.IH work.prems by simp
  moreover have "do_work lim pi pc (fst s, snd s) = (s', x)" using work.hyps by simp
  ultimately show ?case
    using recv_inv_work(1) work.prems(2-5) by blast
next
  case (shut w c e)
  then have "recv_inv ms w (c, e)" by blast
  then show ?case
    using handle_close_ok [of c] unfolding recv_inv_def by (auto simp: handle_close_def)
next
  case (elsewhere w c e c')
  then have "recv_inv ms w (c, e)" by blast
  then show ?case
    using elsewhere.hyps by (auto simp: recv_inv_def same_inbound_def in_ok_def pending_in_def)
qed simp

text \<open>Everything delivered is a beginning of what was sent.\<close>

lemma recv_prefix:
  assumes "recv lim pi pc s0 w s" "recv_inv ms [] s0" "w @ later = stream ms" "list_all sendable ms"
    "3 * length w \<le> 2 * lim" "lim < 2 ^ 31"
  shows "\<exists>i \<le> length ms. seen (snd s) = take i ms"
  using recv_inv_run [OF assms] by (auto simp: recv_inv_def)

text \<open>Once everything has arrived, one round of work delivers what is left.\<close>

lemma recv_all:
  assumes "recv lim pi pc s0 w s" "recv_inv ms [] s0" "w = stream ms" "list_all sendable ms"
    "3 * length w \<le> 2 * lim" "lim < 2 ^ 31" "m_cb (fst s)" "do_work lim pi pc s = (s', x)"
  shows "seen (snd s') = ms"
proof -
  have "w @ [] = stream ms" using assms(3) by simp
  then show ?thesis
    using recv_inv_work(2) [OF _ _ assms(4,5,6), of "fst s" "snd s" "[]" s' x]
      recv_inv_run [OF assms(1,2) _ assms(4-6), of "[]"] assms(7,8) by simp
qed

end

end
