(* ===== verification/Client_Theorems.thy ===== *)
theory Client_Theorems
  imports Client_Inbound
begin

text \<open>
  What a connection promises: nothing queued is lost, reordered or sent twice; the socket is
  shut down and closed at most once; a writable socket drains the queue.
\<close>

section \<open>Counting calls\<close>


section \<open>Draining the queue\<close>

definition writable :: "send_result list \<Rightarrow> bool" where
  "writable rs \<longleftrightarrow> list_all (\<lambda>r. case r of Room n \<Rightarrow> n > 0 | SendFails \<Rightarrow> False) rs"

lemma drained_turn:
  assumes "out_ok (m_out_q c) mx" "unsent c = []"
  shows "\<exists>c' st. output_turn now r c = Inr (c', Some st) \<and> unsent c' = [] \<and> out_items (m_out_q c') = [] \<and>
    sent_bytes (io_log c') = sent_bytes (io_log c) \<and>
    (st = IO_close \<longleftrightarrow> null_RawMsg \<in> set (out_items (m_out_q c)))"
proof -
  have "\<not> raw_ok x" if "x \<in> set (out_items (m_out_q c))" for x
  proof
    assume x: "raw_ok x"
    then have "length (raw_bytes x) > 0" using length_raw_bytes [of x] by (auto simp: raw_ok_def)
    then show False using assms(2) that by (auto simp: unsent_def)
  qed
  moreover obtain ds where ds: "list_all raw_ok ds" "out_items (m_out_q c) = ds \<or> out_items (m_out_q c) = ds @ [null_RawMsg]"
    using assms(1) by (auto simp: out_ok_def)
  ultimately have "out_items (m_out_q c) \<in> {[], [null_RawMsg]}"
    by (cases ds) auto
  moreover have "out_itemcount (m_out_q c) = length (out_items (m_out_q c))"
    using assms(1) by (simp add: out_ok_def)
  ultimately show ?thesis
    by (auto simp: output_turn_def unsent_def IO_close_def IO_default_def)
qed

lemma sending_turn:
  assumes "out_ok (m_out_q c) (m_out_pend_max c)" "unsent c \<noteq> []" "n > 0"
  shows "\<exists>c'. output_turn now (Room n) c = Inr (c', None) \<and> out_ok (m_out_q c') (m_out_pend_max c') \<and>
    sent_bytes (io_log c') @ unsent c' = sent_bytes (io_log c) @ unsent c \<and> length (unsent c') < length (unsent c) \<and>
    (null_RawMsg \<in> set (out_items (m_out_q c')) \<longleftrightarrow> null_RawMsg \<in> set (out_items (m_out_q c)))"
proof -
  let ?q = "m_out_q c"
  obtain ds where ds: "list_all raw_ok ds" "out_items ?q = ds \<or> out_items ?q = ds @ [null_RawMsg]"
    using assms(1) by (auto simp: out_ok_def)
  have "ds \<noteq> []" using ds(2) assms(2) by (auto simp: unsent_def)
  then obtain r rs where r: "out_items ?q = r # rs" "raw_ok r" using ds by (cases ds) auto
  have nn: "r \<noteq> null_RawMsg" using raw_ok_not_null [OF r(2)] .
  let ?n = "min n (raw_size r)"
  note a = after_send_ok [OF assms(1) r(1) nn, of ?n now]
  have turn: "output_turn now (Room n) c = Inr (after_send now ?n r c, None)"
    using r(1) nn assms(3) by (simp add: output_turn_def)
  have pos: "?n > 0" "length (raw_bytes r) = raw_size r"
    using r(2) assms(3) length_raw_bytes by (auto simp: raw_ok_def)
  have "unsent c = raw_bytes r @ concat (map raw_bytes rs)" using r(1) by (simp add: unsent_def)
  moreover have "set (out_items (m_out_q (after_send now ?n r c))) = set rs \<or>
      set (out_items (m_out_q (after_send now ?n r c))) = insert (eat ?n r) (set rs)"
    using r(1) by (auto simp: after_send_def Let_def)
  moreover have "raw_mem (eat ?n r) \<noteq> raw_mem null_RawMsg" using r(2) by (auto simp: raw_ok_def eat_def null_RawMsg_def)
  then have "eat ?n r \<noteq> null_RawMsg" by metis
  ultimately show ?thesis
    using turn a pos nn r(1) by auto
qed

lemma handle_output_drains:
  assumes "out_ok (m_out_q c) (m_out_pend_max c)" "writable rs" "length (unsent c) \<le> length rs"
  shows "\<exists>c' st. handle_output now rs c = Inr (c', st) \<and> out_items (m_out_q c') = [] \<and>
    sent_bytes (io_log c') = sent_bytes (io_log c) @ unsent c \<and>
    (st = IO_close \<longleftrightarrow> null_RawMsg \<in> set (out_items (m_out_q c)))"
  using assms
proof (induction rs arbitrary: c)
  case Nil
  then have u: "unsent c = []" by simp
  obtain c' st where "output_turn now (Room 0) c = Inr (c', Some st)" "out_items (m_out_q c') = []"
    "sent_bytes (io_log c') = sent_bytes (io_log c)" "st = IO_close \<longleftrightarrow> null_RawMsg \<in> set (out_items (m_out_q c))"
    using drained_turn [OF Nil.prems(1) u, of now "Room 0"] by blast
  then show ?case using u by simp
next
  case (Cons r rs)
  obtain n where n: "r = Room n" "n > 0" using Cons.prems(2) by (auto simp: writable_def split: send_result.splits)
  show ?case
  proof (cases "unsent c = []")
    case True
    obtain c' st where "output_turn now r c = Inr (c', Some st)" "out_items (m_out_q c') = []"
      "sent_bytes (io_log c') = sent_bytes (io_log c)" "st = IO_close \<longleftrightarrow> null_RawMsg \<in> set (out_items (m_out_q c))"
      using drained_turn [OF Cons.prems(1) True, of now r] by blast
    then show ?thesis using True by simp
  next
    case False
    obtain c1 where c1: "output_turn now r c = Inr (c1, None)" "out_ok (m_out_q c1) (m_out_pend_max c1)"
      "sent_bytes (io_log c1) @ unsent c1 = sent_bytes (io_log c) @ unsent c" "length (unsent c1) < length (unsent c)"
      "null_RawMsg \<in> set (out_items (m_out_q c1)) \<longleftrightarrow> null_RawMsg \<in> set (out_items (m_out_q c))"
      using sending_turn [OF Cons.prems(1) False n(2), of now] n(1) by blast
    have "writable rs" "length (unsent c1) \<le> length rs"
      using Cons.prems(2,3) c1(4) by (simp_all add: writable_def)
    from Cons.IH [OF c1(2) this] show ?thesis using c1(1,3,5) by auto
  qed
qed

section \<open>Properties\<close>

text \<open>
  C5. The outbound stream of a connection is conserved.  Whatever the application queues, the
  socket takes and the reactor does, in any order: the bytes handed to \<^verbatim>\<open>send\<close> followed by
  the bytes still queued are exactly the bytes whose queueing reported success, in that order;
  the counter of pending bytes is the number of bytes still queued and never exceeds the limit.
\<close>

theorem outbound_stream:
  assumes "run (new_Client now) w c"
  shows "sent_bytes (io_log c) @ unsent c = w \<and> pending_out c = length (unsent c) \<and> pending_out c \<le> m_out_pend_max c"
proof -
  have "stream_inv w c" using stream_inv_run [OF assms stream_inv_new] .
  then show ?thesis
    using length_unsent [of c "m_out_pend_max c"] by (auto simp: stream_inv_def pending_out_def out_ok_def)
qed

text \<open>Two bytes are queued and one of them is sent.\<close>

definition run_example :: Client where
  "run_example = (case output_turn 5 (Room 1) (fst (queue ''ab'' False (new_Client 0))) of Inr (c, st) \<Rightarrow> c | Inl e \<Rightarrow> new_Client 0)"

lemma run_example_run: "run (new_Client 0) ''ab'' run_example"
proof -
  let ?c = "fst (queue ''ab'' False (new_Client 0))"
  have q: "queue ''ab'' False (new_Client 0) = (?c, 0)"
    by (simp add: queue_def new_Client_def new_OutboundQueue_def Let_def)
  have "run (new_Client 0) ([] @ (if (0::int) = 0 then ''ab'' else [])) ?c"
    by (rule run.queued [OF run.start q])
  then have 1: "run (new_Client 0) ''ab'' ?c" by simp
  have "out_items (m_out_q ?c) = [new_RawMsg ''ab'']" "io_open ?c"
    by (simp_all add: queue_def new_Client_def new_OutboundQueue_def Let_def io_open_def)
  then obtain c' st where o: "output_turn 5 (Room 1) ?c = Inr (c', st)" "io_open ?c"
    by (auto simp: output_turn_def null_RawMsg_def new_RawMsg_def)
  then have "run_example = c'" by (simp add: run_example_def)
  then show ?thesis using run.sending [OF 1 o(2,1)] by simp
qed

theorem outbound_stream_witness:
  "run (new_Client 0) ''ab'' run_example \<and> sent_bytes (io_log run_example) @ unsent run_example = ''ab'' \<and>
   pending_out run_example = length (unsent run_example)"
  using run_example_run outbound_stream [OF run_example_run] by simp





text \<open>
  C26. A writable socket drains the queue: when every call of \<^verbatim>\<open>send\<close> takes at least one byte,
  \<^verbatim>\<open>handle_output\<close> returns after at most as many calls as there are bytes queued, with every
  byte sent and the queue empty, and it asks for the close of the connection exactly when the
  close had been requested.
\<close>

theorem handle_output_completes:
  assumes "run (new_Client now) w c" "writable rs" "length (unsent c) \<le> length rs"
  shows "\<exists>c' st. handle_output t rs c = Inr (c', st) \<and> out_items (m_out_q c') = [] \<and> sent_bytes (io_log c') = w \<and>
    (st = IO_close \<longleftrightarrow> null_RawMsg \<in> set (out_items (m_out_q c)))"
proof -
  have inv: "out_ok (m_out_q c) (m_out_pend_max c)" "sent_bytes (io_log c) @ unsent c = w"
    using stream_inv_run [OF assms(1) stream_inv_new] by (simp_all add: stream_inv_def)
  show ?thesis using handle_output_drains [OF inv(1) assms(2,3), of t] inv(2) by simp
qed

theorem handle_output_completes_witness:
  "\<exists>c' st. handle_output 7 [Room 1, Room 3] run_example = Inr (c', st) \<and> sent_bytes (io_log c') = ''ab''"
proof -
  have "length (sent_bytes (io_log run_example) @ unsent run_example) = length ''ab''"
    using stream_inv_run [OF run_example_run stream_inv_new] by (metis stream_inv_def)
  then have "length (unsent run_example) \<le> length [Room 1, Room 3]" by simp
  then show ?thesis
    using handle_output_completes [OF run_example_run, of "[Room 1, Room 3]" 7] by (auto simp: writable_def)
qed

end
