(* ===== verification/Admin_Command.thy ===== *)
theory Admin_Command
  imports Sam_Laws Sam_Format
begin

text \<open>
  Requests, responses and commands (\<^verbatim>\<open>libexio/exio/AdminCommand.h\<close>,
  \<^verbatim>\<open>libexio/AdminCommand.cc\<close>).  References into a container, such as the head and the body
  of a response or the two parts of a table builder, are the paths they were obtained with.
\<close>

section \<open>Numbers in text\<close>

text \<open>
  \<^verbatim>\<open>atoi\<close> of the C library: leading white space, an optional sign, digits; the value is
  cut to 64 bits and converted to 32.
\<close>

definition is_space :: "char \<Rightarrow> bool" where
  "is_space c \<longleftrightarrow> c = CHR '' '' \<or> 9 \<le> (of_char c :: nat) \<and> (of_char c :: nat) \<le> 13"

definition signed32 :: "int \<Rightarrow> int" where
  "signed32 i = (i + 2 ^ 31) mod 2 ^ 32 - 2 ^ 31"

definition atoi :: "string \<Rightarrow> int" where
  "atoi s =
     (let s = dropWhile is_space s;
          neg = (case s of c # _ \<Rightarrow> c = CHR ''-'' | [] \<Rightarrow> False);
          s = (case s of c # t \<Rightarrow> if c = CHR ''-'' \<or> c = CHR ''+'' then t else s | [] \<Rightarrow> []);
          v = int (dec_value 0 (takeWhile is_digit s));
          v = (if neg then max (- v) (- (2 ^ 63)) else min v (2 ^ 63 - 1))
      in signed32 v)"

text \<open>The conversion of an \<^verbatim>\<open>int\<close> to \<^verbatim>\<open>size_t\<close>.\<close>

definition size_t_of :: "int \<Rightarrow> nat" where
  "size_t_of i = nat (i mod 2 ^ 64)"

section \<open>Message helpers\<close>

definition error_code_str :: "int \<Rightarrow> string" where
  "error_code_str e =
     (if e = err_unknown then ''unknown''
      else if e = err_admin_not_found then ''admin not found''
      else if e = err_no_table then ''table not found''
      else if e = err_bad_command then ''bad command''
      else if e = err_no_session then ''no session''
      else ''unknown error code'')"

definition column_attr_style :: "string \<Rightarrow> txContainer" where
  "column_attr_style style_name = put_field ''style_name'' style_name (new_container ''style'')"

definition column_attr_command :: "string \<Rightarrow> (string, string) stdmap \<Rightarrow> txContainer" where
  "column_attr_command name args =
     put_child_then ''args'' (\<lambda>a. fold (\<lambda>(n, v) c. put_field n v c) args a)
       (put_field ''name'' name (new_container ''command''))"

abbreviation qn_pending :: "string list" where
  "qn_pending \<equiv> [id_head, id_pending]"

definition set_pending :: "bool \<Rightarrow> txContainer \<Rightarrow> txContainer" where
  "set_pending p msg = put_field_q qn_pending (if p then id_True else id_False) msg"

definition has_pending :: "txContainer \<Rightarrow> bool" where
  "has_pending msg = check_field_q msg qn_pending id_True"

definition add_rescode :: "int \<Rightarrow> txContainer \<Rightarrow> txContainer" where
  "add_rescode e msg = put_field_q QN_rescode (dec_int e) msg"

definition add_restext :: "string \<Rightarrow> txContainer \<Rightarrow> txContainer" where
  "add_restext str msg = put_field_q QN_restext str msg"

definition formatreply_string :: "string \<Rightarrow> txContainer \<Rightarrow> txContainer" where
  "formatreply_string val body =
     put_child_then id_respdata (put_field id_text val) (put_field id_resptype id_text body)"

definition simplelist_rows :: "string list \<Rightarrow> string \<Rightarrow> txContainer \<Rightarrow> txContainer" where
  "simplelist_rows values colname tableupdate =
     fold (\<lambda>(i, v). put_child_then (id_row_prefix @ dec i)
             (\<lambda>row. put_field colname v (put_field id_row_key (id_row_prefix @ dec i) row)))
       (enumerate 0 values) (put_field id_rows (dec (length values)) tableupdate)"

definition formatreply_simplelist :: "string list \<Rightarrow> string option \<Rightarrow> txContainer \<Rightarrow> txContainer" where
  "formatreply_simplelist values value_column_name body =
     (let colname = (case value_column_name of None \<Rightarrow> id_value | Some n \<Rightarrow> n);
          body = put_field id_synthetic id_scalarlist (put_field id_resptype id_table body);
          body = put_child_then id_respdata
                   (\<lambda>r. put_child_then id_tableupdate id (put_child_then id_tabledescr id r)) body;
          body = put_child_q [id_respdata, id_tabledescr]
                   (put_child_then id_columns
                      (\<lambda>columns. put_child_then (id_msg_prefix @ ''0'') (put_field id_colname colname)
                         (put_field id_msgcount ''1'' columns))) body
      in put_child_q [id_respdata, id_tableupdate] (simplelist_rows values colname) body)"

section \<open>Table replies\<close>

record TableBuilder =
  tb_row_count :: nat
  tb_columns :: "string list"

definition new_TableBuilder :: "txContainer \<Rightarrow> TableBuilder \<times> txContainer" where
  "new_TableBuilder body =
     (\<lparr>tb_row_count = 0, tb_columns = []\<rparr>,
      put_field id_resptype id_table
        (put_child_q [id_respdata, id_tableupdate] id
          (put_child_q [id_respdata, id_tabledescr] id body)))"

definition set_columns :: "string list \<Rightarrow> TableBuilder \<times> txContainer \<Rightarrow> TableBuilder \<times> txContainer" where
  "set_columns cols = (\<lambda>(tb, body).
     (tb\<lparr>tb_columns := cols\<rparr>,
      put_child_q [id_respdata, id_tabledescr, id_columns]
        (\<lambda>columns.
           fold (\<lambda>(i, c). put_child_then (id_msg_prefix @ dec i) (put_field id_colname c))
             (enumerate 0 cols) (put_field id_msgcount (dec (length cols)) (clear_container columns)))
        body))"

definition add_row ::
  "string \<Rightarrow> string list \<Rightarrow> TableBuilder \<times> txContainer \<Rightarrow> TableBuilder \<times> txContainer" where
  "add_row rowkey values = (\<lambda>(tb, body).
     let n = tb_row_count tb + 1 in
     (tb\<lparr>tb_row_count := n\<rparr>,
      put_child_q [id_respdata, id_tableupdate]
        (\<lambda>tableupdate.
           put_child_then (id_row_prefix @ dec (n - 1))
             (\<lambda>row. fold (\<lambda>(c, v). put_field c v) (zip (tb_columns tb) values)
                      (put_field id_row_key rowkey row))
             (put_field id_rows (dec n) tableupdate))
        body))"

section \<open>Requests\<close>

text \<open>
  A request keeps a copy of the message; \<open>req_head\<close> and \<open>req_body\<close> are the two children the
  pointers refer to.
\<close>

record AdminRequest =
  req_msg :: txContainer
  req_id :: nat
  req_args :: "string list"
  req_head :: txContainer
  req_body :: txContainer
  reqseqno :: string

function read_args :: "txContainer \<Rightarrow> nat \<Rightarrow> nat \<Rightarrow> string list res" where
  "read_args body i argc =
     (if i < argc then
        case find_field body (id_args_prefix @ dec i) of
          None \<Rightarrow> Inl (RuntimeError (''missing required field: '' @ id_args_prefix @ dec i))
        | Some f \<Rightarrow> bindR (read_args body (i + 1) argc) (\<lambda>as. Inr (field_value f # as))
      else Inr [])"
  by pat_completeness auto
termination
  by (relation "measure (\<lambda>(body, i, argc). argc - i)") auto

declare read_args.simps [simp del]

definition new_AdminRequest :: "txContainer \<Rightarrow> nat \<Rightarrow> AdminRequest res" where
  "new_AdminRequest msg sid =
     (let seqno = (case find_field_q msg QN_head_reqseqno of None \<Rightarrow> '''' | Some f \<Rightarrow> field_value f) in
      case find_child msg id_head of
        None \<Rightarrow> Inl (RuntimeError (''missing required field: '' @ id_head))
      | Some head \<Rightarrow>
          (case find_child msg id_body of
             None \<Rightarrow> Inl (RuntimeError (''missing required field: '' @ id_body))
           | Some body \<Rightarrow>
               let argc = (case find_field body id_args_COUNT of
                             None \<Rightarrow> 0 | Some f \<Rightarrow> size_t_of (atoi (field_value f)))
               in bindR (read_args body 0 argc) (\<lambda>args.
                  Inr \<lparr>req_msg = msg, req_id = sid, req_args = args, req_head = head, req_body = body,
                       reqseqno = seqno\<rparr>)))"

definition find_user :: "AdminRequest \<Rightarrow> txField option" where
  "find_user r = find_field (req_head r) id_user"

section \<open>Responses\<close>

record AdminResponse =
  resp_send :: bool
  resp_msg :: txContainer

definition new_AdminResponse :: "string \<Rightarrow> AdminResponse" where
  "new_AdminResponse seqno =
     \<lparr>resp_send = True,
      resp_msg = put_field_q QN_head_reqseqno seqno
        (put_child_then id_body id (put_child_then id_head id (new_container id_msg_response)))\<rparr>"

definition on_msg :: "(txContainer \<Rightarrow> txContainer) \<Rightarrow> AdminResponse \<Rightarrow> AdminResponse" where
  "on_msg f r = r\<lparr>resp_msg := f (resp_msg r)\<rparr>"

definition copy_AdminResponse :: "AdminResponse \<Rightarrow> AdminResponse" where
  "copy_AdminResponse src =
     \<lparr>resp_send = resp_send src,
      resp_msg = put_child_then id_body id (put_child_then id_head id (copy_container (resp_msg src)))\<rparr>"

definition success :: "string \<Rightarrow> string \<Rightarrow> int \<Rightarrow> AdminResponse" where
  "success seqno str code =
     on_msg (\<lambda>m. put_child_then id_body (formatreply_string str) (set_pending False (add_rescode code m)))
       (new_AdminResponse seqno)"

definition error_response :: "string \<Rightarrow> int \<Rightarrow> string \<Rightarrow> AdminResponse" where
  "error_response seqno errorcode errorstr =
     on_msg (\<lambda>m. put_child_then id_body (formatreply_string errorstr)
                    (set_pending False (add_rescode errorcode m)))
       (new_AdminResponse seqno)"

definition error_code_response :: "string \<Rightarrow> int \<Rightarrow> AdminResponse" where
  "error_code_response seqno errorcode =
     error_response seqno errorcode (''Admin failed, error code '' @ dec_int errorcode)"

section \<open>Commands\<close>

text \<open>A command; \<open>'t\<close> stands for what its target calls, \<open>None\<close> for a null target.\<close>

record 't AdminCommand =
  cmd_name :: string
  cmd_shorthelp :: string
  cmd_longhelp :: string
  m_target :: "'t option"
  cmd_attrs :: "(string, string) stdmap"

definition new_AdminCommand ::
  "string \<Rightarrow> string \<Rightarrow> string \<Rightarrow> 't \<Rightarrow> (string, string) stdmap \<Rightarrow> 't AdminCommand" where
  "new_AdminCommand name help longhelp target attrs =
     \<lparr>cmd_name = name, cmd_shorthelp = help, cmd_longhelp = longhelp, m_target = Some target, cmd_attrs = attrs\<rparr>"

text \<open>The copy constructor and the assignment clone the target, which must not be null.\<close>

definition copy_AdminCommand :: "'t AdminCommand \<Rightarrow> 't AdminCommand res" where
  "copy_AdminCommand rhs =
     (case m_target rhs of None \<Rightarrow> Inl (UndefinedAccess ''null target'') | Some t \<Rightarrow> Inr (rhs\<lparr>m_target := Some t\<rparr>))"

text \<open>\<open>call\<close> runs a target on the request and the state of the process.\<close>

definition invoke ::
  "('t \<Rightarrow> AdminRequest \<Rightarrow> 'w \<Rightarrow> 'w \<times> AdminResponse res) \<Rightarrow> 't AdminCommand \<Rightarrow> AdminRequest \<Rightarrow> 'w \<Rightarrow>
   'w \<times> AdminResponse res" where
  "invoke call cmd req w =
     (case m_target cmd of
        None \<Rightarrow> (w, Inl (RuntimeError ''command not implemented''))
      | Some target \<Rightarrow> call target req w)"

definition new_AdminError :: "int \<Rightarrow> exn" where
  "new_AdminError code = AdminError code (error_code_str code)"

end
