(* ===== verification/Admin_Session.thy ===== *)
theory Admin_Session
  imports Client_Inbound Admin_Command
begin

text \<open>
  Sessions (\<^verbatim>\<open>libexio/exio/AdminSession.h\<close>, \<^verbatim>\<open>libexio/AdminSession.cc\<close>).  A session owns
  a connection and is its callback; it decodes messages and hands them to its listener, the
  argument \<open>h\<close>, which works on the session and on the rest \<open>'w\<close> of the process.  \<open>handed\<close> is
  the trace of the messages given to the listener.
\<close>

section \<open>Data\<close>

record AdminSession =
  m_id :: nat
  m_serviceid :: string
  m_fd :: int
  m_logon_received :: bool
  m_session_valid :: bool
  m_username :: string
  m_peeraddr :: string
  m_listener :: bool
  m_autoclose :: bool
  m_hb_intvl :: int
  m_hb_last :: int
  m_start :: int
  m_io_handle :: "Client option"
  handed :: "txContainer list"

definition no_session :: nat where
  "no_session = 0"

definition SID_toString :: "nat \<Rightarrow> string" where
  "SID_toString sid = dec sid"

definition SID_fromString :: "string \<Rightarrow> nat" where
  "SID_fromString s = size_t_of (atoi s)"

text \<open>\<open>peer\<close> is what \<^verbatim>\<open>sock_descr\<close> finds about the socket.\<close>

definition new_AdminSession :: "int \<Rightarrow> string \<Rightarrow> int \<Rightarrow> nat \<Rightarrow> AdminSession" where
  "new_AdminSession fd peer now sid =
     \<lparr>m_id = sid, m_serviceid = '''', m_fd = fd, m_logon_received = False, m_session_valid = True,
      m_username = '''', m_peeraddr = peer, m_listener = True, m_autoclose = False,
      m_hb_intvl = 30, m_hb_last = now, m_start = now, m_io_handle = None, handed = []\<rparr>"

definition io_init :: "Client \<Rightarrow> AdminSession \<Rightarrow> AdminSession" where
  "io_init client s = s\<lparr>m_io_handle := Some client\<rparr>"

text \<open>\<^verbatim>\<open>what()\<close> of an exception.\<close>

fun what :: "exn \<Rightarrow> string" where
  "what (RuntimeError s) = s"
| "what (OutOfRange s) = s"
| "what BadAlloc = ''std::bad_alloc''"
| "what (AdminError code s) = s"
| "what (UndefinedAccess s) = s"

section \<open>Sending and closing\<close>

text \<open>The session and whether the call failed; \<open>lim\<close> is the limit of the allocator.\<close>

definition enqueueToSend :: "nat \<Rightarrow> txContainer \<Rightarrow> AdminSession \<Rightarrow> AdminSession \<times> bool" where
  "enqueueToSend lim msg s =
     (if \<not> m_session_valid s then (s, True)
      else
        case encodeMsg lim msg (new_DynamicSamBuffer 512) of
          Inl e \<Rightarrow> (s, True)
        | Inr (sb, n) \<Rightarrow>
            (case m_io_handle s of
               None \<Rightarrow> (s, True)
             | Some c \<Rightarrow>
                 (case queue (take n (msg_start sb)) False c of
                    (c', result) \<Rightarrow> (s\<lparr>m_io_handle := Some c'\<rparr>, result = -1))))"

definition close_session :: "AdminSession \<Rightarrow> AdminSession" where
  "close_session s =
     (case m_io_handle s of
        None \<Rightarrow> s | Some c \<Rightarrow> s\<lparr>m_io_handle := Some (fst (queue [] True c))\<rparr>)"

definition is_open :: "AdminSession \<Rightarrow> bool" where
  "is_open s = m_session_valid s"

definition safe_to_delete :: "AdminSession \<Rightarrow> bool" where
  "safe_to_delete s \<longleftrightarrow> \<not> m_session_valid s \<and>
     (case m_io_handle s of None \<Rightarrow> True | Some c \<Rightarrow> \<not> io_open c)"

definition heartbeat_msg :: txContainer where
  "heartbeat_msg = put_field_q QN_testrequest id_True (new_container id_heartbeat)"

definition session_housekeeping :: "nat \<Rightarrow> int \<Rightarrow> AdminSession \<Rightarrow> AdminSession" where
  "session_housekeeping lim now s =
     (case m_io_handle s of
        None \<Rightarrow> s
      | Some c \<Rightarrow>
          if m_hb_intvl s = 0 \<or> \<not> io_open c then s
          else if \<bar>now - m_hb_last s\<bar> \<ge> m_hb_intvl s
          then (fst (enqueueToSend lim heartbeat_msg s))\<lparr>m_hb_last := now\<rparr>
          else s)"

text \<open>The destructor releases the connection.\<close>

definition destroy_session :: "int \<Rightarrow> AdminSession \<Rightarrow> AdminSession \<times> Client option" where
  "destroy_session now s =
     (s\<lparr>m_io_handle := None\<rparr>, map_option (release now) (m_io_handle s))"

section \<open>Statistics\<close>

definition last_write :: "AdminSession \<Rightarrow> int" where
  "last_write s = (case m_io_handle s of None \<Rightarrow> 0 | Some c \<Rightarrow> m_last_write c)"

definition bytes_out :: "AdminSession \<Rightarrow> nat" where
  "bytes_out s = (case m_io_handle s of None \<Rightarrow> 0 | Some c \<Rightarrow> m_bytes_out c)"

definition bytes_in :: "AdminSession \<Rightarrow> nat" where
  "bytes_in s = (case m_io_handle s of None \<Rightarrow> 0 | Some c \<Rightarrow> m_bytes_in c)"

definition bytes_pend :: "AdminSession \<Rightarrow> nat" where
  "bytes_pend s = (case m_io_handle s of None \<Rightarrow> 0 | Some c \<Rightarrow> pending_out c)"

section \<open>Receiving\<close>

type_synonym 'w listener = "txContainer \<Rightarrow> AdminSession \<times> 'w \<Rightarrow> (AdminSession \<times> 'w) \<times> unit res"

definition logon_session :: "txContainer \<Rightarrow> AdminSession \<Rightarrow> AdminSession" where
  "logon_session msg s =
     (if m_logon_received s then s
      else s\<lparr>m_logon_received := True,
             m_serviceid := (case find_field_q msg QN_serviceid of
                               None \<Rightarrow> m_serviceid s | Some f \<Rightarrow> field_value f),
             m_username := (case find_field_q msg QN_head_user of
                              None \<Rightarrow> m_username s | Some f \<Rightarrow> field_value f)\<rparr>)"

definition io_onmsg :: "'w listener \<Rightarrow> txContainer \<Rightarrow> AdminSession \<times> 'w \<Rightarrow> (AdminSession \<times> 'w) \<times> unit res" where
  "io_onmsg h msg = (\<lambda>(s, w).
     if \<not> m_session_valid s then ((s, w), Inr ())
     else
       let s1 = (if cont_name msg = id_msg_logon then logon_session msg s else s) in
       if m_listener s1 then h msg (s1\<lparr>handed := handed s1 @ [msg]\<rparr>, w) else ((s1, w), Inr ()))"

definition badmsg :: "exn \<Rightarrow> txContainer" where
  "badmsg e = put_field ''msg'' (what e) (new_container ''badmsg'')"

text \<open>
  The size is an \<^verbatim>\<open>int\<close>: input of \<open>2 ^ 31\<close> bytes and more becomes a negative size and then
  an enormous one.
\<close>

definition process_input ::
  "nat \<Rightarrow> 'w listener \<Rightarrow> string \<Rightarrow> AdminSession \<times> 'w \<Rightarrow> (AdminSession \<times> 'w) \<times> nat res" where
  "process_input lim h src = (\<lambda>(s, w).
     if length src \<ge> 2 ^ 31 then ((s, w), Inl (UndefinedAccess ''size of the input''))
     else
       case decodeMsg (new_container '''') src of
         Inl e \<Rightarrow>
           if undefined_access e then ((s, w), Inl e)
           else ((close_session (fst (enqueueToSend lim (badmsg e) s)), w), Inr 0)
       | Inr (msg, consumed) \<Rightarrow>
           if consumed = 0 then ((s, w), Inr 0)
           else
             (case io_onmsg h msg (s, w) of
                (sw, Inl e) \<Rightarrow> (sw, if undefined_access e then Inl e else Inr consumed)
              | (sw, Inr u) \<Rightarrow> (sw, Inr consumed)))"

text \<open>\<open>hc\<close> is the listener's \<^verbatim>\<open>session_closed\<close>.\<close>

definition process_close ::
  "(AdminSession \<times> 'w \<Rightarrow> (AdminSession \<times> 'w) \<times> unit res) \<Rightarrow> AdminSession \<times> 'w \<Rightarrow> (AdminSession \<times> 'w) \<times> unit res"
where
  "process_close hc = (\<lambda>(s, w).
     let s1 = s\<lparr>m_session_valid := False\<rparr> in
     if \<not> m_listener s1 then ((s1, w), Inl (UndefinedAccess ''null listener''))
     else
       case hc (s1, w) of
         ((s2, w2), Inl e) \<Rightarrow> ((s2, w2), Inl e)
       | ((s2, w2), Inr u) \<Rightarrow> ((s2\<lparr>m_listener := False\<rparr>, w2), Inr ()))"

text \<open>
  The session as the callback of its connection: the connection's view of the state is the
  connection and the rest, and the session's handle is that connection.
\<close>

definition handle_of :: "Client \<Rightarrow> AdminSession \<Rightarrow> Client" where
  "handle_of c s = (case m_io_handle s of None \<Rightarrow> c | Some c' \<Rightarrow> c')"

definition session_input :: "nat \<Rightarrow> 'w listener \<Rightarrow> (AdminSession \<times> 'w) process_input_cb" where
  "session_input lim h = (\<lambda>(c, s, w) src.
     case process_input lim h src (io_init c s, w) of ((s', w'), r) \<Rightarrow> ((handle_of c s', s', w'), r))"

definition session_close ::
  "(AdminSession \<times> 'w \<Rightarrow> (AdminSession \<times> 'w) \<times> unit res) \<Rightarrow> (AdminSession \<times> 'w) process_close_cb" where
  "session_close hc = (\<lambda>(c, s, w).
     case process_close hc (io_init c s, w) of ((s', w'), r) \<Rightarrow> ((handle_of c s', s', w'), r))"

end
