(* ===== verification/Session_Registry.thy ===== *)
theory Session_Registry
  imports Admin_Session Monitor_Model
begin

text \<open>
  The session registry of \<^verbatim>\<open>AdminInterfaceImpl\<close> (\<^verbatim>\<open>libexio/exio/AdminInterfaceImpl.h\<close>,
  \<^verbatim>\<open>libexio/AdminInterfaceImpl.cc\<close>).  Session objects are shared: the registry, the list of
  expired sessions and the list of external sessions hold pointers to them.  So they live in
  a store \<open>objs\<close> indexed by addresses, and an access through a pointer to a deleted object is
  an undefined access, as is an index outside the array of slots.
\<close>

abbreviation MAX_SESSIONS :: nat where
  "MAX_SESSIONS \<equiv> 2000"

abbreviation SESSION_REG_SIZE :: nat where
  "SESSION_REG_SIZE \<equiv> 2001"

text \<open>The targets of the commands: the methods of the class, and callbacks of the application.\<close>

datatype target =
    TableCmd | SessionsCmd | HelpCmd | InfoCmd | SnapshotCmd | DiagsCmd | DropSessionCmd
  | SubscribeCmd | TableSubsCmd | UserTarget nat

text \<open>\<open>orphans\<close> are the connections whose session has been deleted; the reactor owns them.\<close>

record AdminInterfaceImpl =
  m_svcid :: string
  objs :: "(nat, AdminSession) stdmap"
  next_obj :: nat
  m_reg :: "nat option list"
  m_next :: nat
  createdCount :: nat
  expired_sessions :: "nat list"
  ext_sessions :: "nat list"
  m_admins :: "(string, target AdminCommand) stdmap"
  m_monitor :: Monitor
  m_start_time :: int
  orphans :: "Client list"

section \<open>Actions\<close>

text \<open>A method of the class: it changes the object and returns or raises.\<close>

type_synonym 'a act = "AdminInterfaceImpl \<Rightarrow> AdminInterfaceImpl \<times> 'a res"

definition ret :: "'a \<Rightarrow> 'a act" where
  "ret x = (\<lambda>w. (w, Inr x))"

definition raise :: "exn \<Rightarrow> 'a act" where
  "raise e = (\<lambda>w. (w, Inl e))"

definition modify :: "(AdminInterfaceImpl \<Rightarrow> AdminInterfaceImpl) \<Rightarrow> unit act" where
  "modify f = (\<lambda>w. (f w, Inr ()))"

definition bindA :: "'a act \<Rightarrow> ('a \<Rightarrow> 'b act) \<Rightarrow> 'b act" where
  "bindA m f = (\<lambda>w. case m w of (w', Inl e) \<Rightarrow> (w', Inl e) | (w', Inr x) \<Rightarrow> f x w')"

fun forA :: "'x list \<Rightarrow> ('x \<Rightarrow> unit act) \<Rightarrow> unit act" where
  "forA [] f = ret ()"
| "forA (x # xs) f = bindA (f x) (\<lambda>_. forA xs f)"

fun mapA :: "'x list \<Rightarrow> ('x \<Rightarrow> 'a act) \<Rightarrow> 'a list act" where
  "mapA [] f = ret []"
| "mapA (x # xs) f = bindA (f x) (\<lambda>y. bindA (mapA xs f) (\<lambda>ys. ret (y # ys)))"

section \<open>Pointers and slots\<close>

definition deref :: "nat \<Rightarrow> AdminSession act" where
  "deref a = (\<lambda>w. case map_find (objs w) a of
      None \<Rightarrow> (w, Inl (UndefinedAccess ''deleted session'')) | Some s \<Rightarrow> (w, Inr s))"

definition set_obj :: "nat \<Rightarrow> AdminSession \<Rightarrow> AdminInterfaceImpl \<Rightarrow> AdminInterfaceImpl" where
  "set_obj a s w = w\<lparr>objs := map_assign a s (objs w)\<rparr>"

definition update_obj :: "nat \<Rightarrow> (AdminSession \<Rightarrow> AdminSession) \<Rightarrow> unit act" where
  "update_obj a f = bindA (deref a) (\<lambda>s. modify (set_obj a (f s)))"

definition slot :: "nat \<Rightarrow> nat option act" where
  "slot i = (\<lambda>w. (w, case nth_opt (m_reg w) i of
      None \<Rightarrow> Inl (UndefinedAccess ''session registry'') | Some p \<Rightarrow> Inr p))"

definition set_slot :: "nat \<Rightarrow> nat option \<Rightarrow> unit act" where
  "set_slot i p = bindA (slot i) (\<lambda>_. modify (\<lambda>w. w\<lparr>m_reg := (m_reg w)[i := p]\<rparr>))"

text \<open>What is done to the session in a slot, if the slot is used.\<close>

definition on_slot :: "nat \<Rightarrow> (nat \<Rightarrow> unit act) \<Rightarrow> unit act" where
  "on_slot i f = bindA (slot i) (\<lambda>p. case p of None \<Rightarrow> ret () | Some a \<Rightarrow> f a)"

definition every_slot :: "(nat \<Rightarrow> unit act) \<Rightarrow> unit act" where
  "every_slot f = forA [0..<SESSION_REG_SIZE] (\<lambda>i. on_slot i f)"

section \<open>Sending\<close>

definition send_ptr :: "nat \<Rightarrow> txContainer list \<Rightarrow> nat \<Rightarrow> unit act" where
  "send_ptr lim msgs a =
     bindA (deref a) (\<lambda>s.
     if is_open s then modify (set_obj a (fold (\<lambda>m s. fst (enqueueToSend lim m s)) msgs s)) else ret ())"

definition send_one :: "nat \<Rightarrow> txContainer \<Rightarrow> nat \<Rightarrow> unit act" where
  "send_one lim msg sid = on_slot sid (send_ptr lim [msg])"

definition send_one_list :: "nat \<Rightarrow> txContainer list \<Rightarrow> nat \<Rightarrow> unit act" where
  "send_one_list lim msgs sid = on_slot sid (send_ptr lim msgs)"

definition send_all :: "nat \<Rightarrow> txContainer \<Rightarrow> unit act" where
  "send_all lim msg = every_slot (send_ptr lim [msg])"

section \<open>Queries\<close>

definition session_exists :: "nat \<Rightarrow> bool act" where
  "session_exists sid = bindA (slot sid) (\<lambda>p. ret (p \<noteq> None))"

definition session_open :: "nat \<Rightarrow> bool act" where
  "session_open sid =
     bindA (slot sid) (\<lambda>p. case p of None \<Rightarrow> ret False | Some a \<Rightarrow> bindA (deref a) (\<lambda>s. ret (is_open s)))"

definition used_slots :: "AdminInterfaceImpl \<Rightarrow> nat list" where
  "used_slots w = filter (\<lambda>i. i < length (m_reg w) \<and> m_reg w ! i \<noteq> None) [0..<SESSION_REG_SIZE]"

definition session_count :: "AdminInterfaceImpl \<Rightarrow> nat" where
  "session_count w = length (used_slots w)"

definition session_list :: "nat list act" where
  "session_list = (\<lambda>w.
     mapA (used_slots w) (\<lambda>i. bindA (slot i) (\<lambda>p. case p of
        None \<Rightarrow> raise (UndefinedAccess ''session registry'')
      | Some a \<Rightarrow> bindA (deref a) (\<lambda>s. ret (m_id s)))) w)"

text \<open>The user name and the peer address of a session, \<open>None\<close> when it is not found.\<close>

definition session_info :: "nat \<Rightarrow> (string \<times> string) option act" where
  "session_info sid =
     bindA (slot sid) (\<lambda>p. case p of
        None \<Rightarrow> ret None
      | Some a \<Rightarrow> bindA (deref a) (\<lambda>s. ret (Some (m_username s, m_peeraddr s))))"

definition get_session :: "nat \<Rightarrow> nat option act" where
  "get_session sid = slot sid"

section \<open>Creating sessions\<close>

text \<open>
  The search for a free slot: the number of turns left, the position \<^verbatim>\<open>m_sessions.next\<close> and
  the slots; the index found, or 0, and the new position.
\<close>

fun find_slot :: "nat \<Rightarrow> nat \<Rightarrow> nat option list \<Rightarrow> (nat \<times> nat) res" where
  "find_slot 0 nxt reg = Inr (0, nxt)"
| "find_slot (Suc k) nxt reg =
     (let nxt' = (if nxt + 1 > MAX_SESSIONS then 0 else nxt + 1) in
      if nxt = 0 then find_slot k nxt' reg
      else
        case nth_opt reg nxt of
          None \<Rightarrow> Inl (UndefinedAccess ''session registry'')
        | Some None \<Rightarrow> Inr (nxt, nxt')
        | Some (Some a) \<Rightarrow> find_slot k nxt' reg)"

definition init_session_io :: "int \<Rightarrow> nat \<Rightarrow> unit act" where
  "init_session_io now a = update_obj a (io_init (new_Client now))"

definition logon_msg :: "string \<Rightarrow> txContainer" where
  "logon_msg serviceid = put_field_q QN_serviceid serviceid (new_container id_msg_logon)"

definition createNewSession :: "nat \<Rightarrow> int \<Rightarrow> string \<Rightarrow> int \<Rightarrow> unit act" where
  "createNewSession lim now peer fd = (\<lambda>w.
     case find_slot SESSION_REG_SIZE (m_next w) (m_reg w) of
       Inl e \<Rightarrow> (w, Inl e)
     | Inr (session_index, nxt) \<Rightarrow>
         let w1 = w\<lparr>m_next := nxt\<rparr> in
         if session_index = 0 then (w1, Inl (RuntimeError ''no more sessions allowed''))
         else
           let a = next_obj w1;
               w2 = (set_obj a (new_AdminSession fd peer now session_index) w1)
                      \<lparr>next_obj := a + 1, createdCount := (createdCount w1 + 1) mod 2 ^ 64\<rparr>
           in bindA (set_slot session_index (Some a)) (\<lambda>_.
              bindA (init_session_io now a) (\<lambda>_.
              update_obj a (\<lambda>s. fst (enqueueToSend lim (logon_msg (m_svcid w)) s)))) w2)"

definition register_ext_session :: "int \<Rightarrow> nat \<Rightarrow> unit act" where
  "register_ext_session now a =
     bindA (init_session_io now a) (\<lambda>_. modify (\<lambda>w. w\<lparr>ext_sessions := ext_sessions w @ [a]\<rparr>))"

definition deregister_ext_session :: "nat \<Rightarrow> unit act" where
  "deregister_ext_session a = modify (\<lambda>w. w\<lparr>ext_sessions := remove1 a (ext_sessions w)\<rparr>)"

section \<open>Closing sessions\<close>

definition session_stop_one :: "nat \<Rightarrow> unit act" where
  "session_stop_one sid = on_slot sid (\<lambda>a. update_obj a close_session)"

definition session_stop_all :: "unit act" where
  "session_stop_all = every_slot (\<lambda>a. update_obj a close_session)"

text \<open>The callback of a session that has been closed; the argument is its address.\<close>

definition session_closed :: "nat \<Rightarrow> unit act" where
  "session_closed a =
     bindA (deref a) (\<lambda>s.
     bindA (modify (\<lambda>w. w\<lparr>m_monitor := unsubscribe_all (m_id s) (m_monitor w)\<rparr>)) (\<lambda>_.
     bindA (set_slot (m_id s) None) (\<lambda>_.
     modify (\<lambda>w. w\<lparr>expired_sessions := expired_sessions w @ [a]\<rparr>))))"

definition delete_session :: "int \<Rightarrow> nat \<Rightarrow> AdminSession \<Rightarrow> AdminInterfaceImpl \<Rightarrow> AdminInterfaceImpl" where
  "delete_session now a s w =
     w\<lparr>objs := map_erase a (objs w),
       orphans := orphans w @ (case snd (destroy_session now s) of None \<Rightarrow> [] | Some c \<Rightarrow> [c])\<rparr>"

text \<open>The loop over the expired sessions: those to be deleted later.\<close>

fun cleanup_loop :: "int \<Rightarrow> nat list \<Rightarrow> nat list act" where
  "cleanup_loop now [] = ret []"
| "cleanup_loop now (a # as) =
     bindA (deref a) (\<lambda>s.
     if safe_to_delete s
     then bindA (modify (delete_session now a s)) (\<lambda>_. cleanup_loop now as)
     else bindA (cleanup_loop now as) (\<lambda>later. ret (a # later)))"

definition session_cleanup :: "int \<Rightarrow> unit act" where
  "session_cleanup now = (\<lambda>w.
     bindA (cleanup_loop now (expired_sessions w)) (\<lambda>delete_later.
     modify (\<lambda>w. w\<lparr>expired_sessions := delete_later\<rparr>)) w)"

definition housekeeping :: "nat \<Rightarrow> int \<Rightarrow> unit act" where
  "housekeeping lim now =
     bindA (session_cleanup now) (\<lambda>_.
     bindA (every_slot (\<lambda>a. bindA (deref a) (\<lambda>s.
              if is_open s then modify (set_obj a (session_housekeeping lim now s)) else ret ()))) (\<lambda>_.
     \<lambda>w. forA (ext_sessions w) (\<lambda>a. update_obj a (session_housekeeping lim now)) w))"

section \<open>The monitor\<close>

text \<open>
  A call of the monitor.  What it sends goes through \<open>send_one\<close>; a message to a slot in use
  does not change which slots are in use, so it is sent after the call has been computed.
\<close>

definition live_session :: "AdminInterfaceImpl \<Rightarrow> nat \<Rightarrow> bool" where
  "live_session w sid \<longleftrightarrow> nth_opt (m_reg w) sid \<notin> {None, Some None}"

definition send_each :: "nat \<Rightarrow> sends \<Rightarrow> unit act" where
  "send_each lim out = forA out (\<lambda>(sid, msg). send_one lim msg sid)"

definition run_monitor :: "nat \<Rightarrow> ((SID \<Rightarrow> bool) \<Rightarrow> Monitor \<Rightarrow> moutcome) \<Rightarrow> unit act" where
  "run_monitor lim f = (\<lambda>w.
     case f (live_session w) (m_monitor w) of
       (m, out, err) \<Rightarrow>
         bindA (send_each lim out) (\<lambda>_. case err of None \<Rightarrow> ret () | Some e \<Rightarrow> raise e)
           (w\<lparr>m_monitor := m\<rparr>))"

text \<open>A call that may create a table, which subscribes every session to it.\<close>

definition run_monitor_all ::
  "nat \<Rightarrow> ((SID \<Rightarrow> bool) \<Rightarrow> SID list \<Rightarrow> Monitor \<Rightarrow> moutcome) \<Rightarrow> unit act" where
  "run_monitor_all lim f = bindA session_list (\<lambda>sessions. run_monitor lim (\<lambda>live. f live sessions))"

end
