(* ===== verification/Admin_Interface.thy ===== *)
theory Admin_Interface
  imports Session_Registry
begin

text \<open>
  The service itself (\<^verbatim>\<open>libexio/AdminInterfaceImpl.cc\<close>): the built-in commands, the handling
  of requests and logons, alerts, and the public interface (\<^verbatim>\<open>libexio/AdminInterface.cc\<close>) an
  application calls.  What comes from the operating system is the record \<open>env\<close>.  A command of
  the application is the argument \<open>user\<close>: it decides which calls of the public interface to
  make and what to answer.
\<close>

record env =
  env_lim :: nat
  env_now :: int
  env_localtime :: "int \<Rightarrow> tm"
  env_pid :: nat
  env_user :: string
  env_host :: string
  env_version :: string
  env_server_thread :: "nat \<times> nat"
  env_reactor_threads :: "(nat \<times> nat) list"

section \<open>Starting\<close>

definition admin_add :: "target AdminCommand \<Rightarrow> AdminInterfaceImpl \<Rightarrow> AdminInterfaceImpl" where
  "admin_add ac w = w\<lparr>m_admins := map_insert (cmd_name ac) ac (m_admins w)\<rparr>"

definition admin_find :: "string \<Rightarrow> AdminInterfaceImpl \<Rightarrow> target AdminCommand option" where
  "admin_find name w = map_find (m_admins w) name"

definition builtin_commands :: "target AdminCommand list" where
  "builtin_commands =
     (let attrs = [(''hidden'', ''false'')] in
      [new_AdminCommand ''table'' ''query table information'' ''table [list|show] [tablename]'' TableCmd attrs,
       new_AdminCommand ''sessions'' ''list active sessions'' '''' SessionsCmd attrs,
       new_AdminCommand ''help'' ''list admins available'' '''' HelpCmd attrs,
       new_AdminCommand ''info'' ''list server information'' '''' InfoCmd attrs,
       new_AdminCommand ''snapshot'' ''broadcast a table snapshot'' '''' SnapshotCmd attrs,
       new_AdminCommand ''diags'' ''dump exio diagnostics'' ''diags [sessions|threads|tables]'' DiagsCmd attrs,
       new_AdminCommand ''drop_session'' ''force a session disconnect'' '''' DropSessionCmd attrs])"

definition new_AdminInterfaceImpl :: "string \<Rightarrow> int \<Rightarrow> AdminInterfaceImpl" where
  "new_AdminInterfaceImpl serviceid now =
     fold admin_add builtin_commands
       \<lparr>m_svcid = serviceid, objs = [], next_obj = 1, m_reg = replicate SESSION_REG_SIZE None, m_next = 1,
        createdCount = 0, expired_sessions = [], ext_sessions = [], m_admins = [], m_monitor = new_Monitor,
        m_start_time = now, orphans = []\<rparr>"

section \<open>Commands\<close>

definition ok_response :: "string \<Rightarrow> AdminResponse" where
  "ok_response seqno = on_msg (\<lambda>m. set_pending False (add_rescode 0 m)) (new_AdminResponse seqno)"

definition on_body :: "(txContainer \<Rightarrow> txContainer) \<Rightarrow> AdminResponse \<Rightarrow> AdminResponse" where
  "on_body f = on_msg (put_child_then id_body f)"

definition text_response :: "string \<Rightarrow> string \<Rightarrow> AdminResponse" where
  "text_response seqno str = on_body (formatreply_string str) (ok_response seqno)"

definition admincmd_subscribe :: "env \<Rightarrow> AdminRequest \<Rightarrow> AdminResponse act" where
  "admincmd_subscribe env req =
     bindA (run_monitor (env_lim env) (\<lambda>live m. case subscribe_all (req_id req) m of (m', out) \<Rightarrow> (m', out, None)))
       (\<lambda>_. ret (on_msg (add_rescode 0) (new_AdminResponse (reqseqno req))))"

text \<open>\<^verbatim>\<open>strcasecmp\<close> compares the characters in lower case.\<close>

definition lower :: "char \<Rightarrow> char" where
  "lower c = (let n = of_char c :: nat in if 65 \<le> n \<and> n \<le> 90 then char_of (n + 32) else c)"

definition sort_nocase :: "string list \<Rightarrow> string list" where
  "sort_nocase xs = sort_key (map lower) xs"

definition help_text :: "target AdminCommand \<Rightarrow> string" where
  "help_text c =
     cmd_name c @
     (if cmd_shorthelp c = '''' then '''' else '' - '' @ cmd_shorthelp c) @
     (if cmd_longhelp c = '''' then '''' else [CHR 0x0A, CHR 0x0A] @ cmd_longhelp c)"

definition admincmd_help :: "AdminRequest \<Rightarrow> AdminResponse act" where
  "admincmd_help req = (\<lambda>w.
     case req_args req of
       [] \<Rightarrow>
         ret (on_body (formatreply_simplelist (sort_nocase (map fst (m_admins w))) (Some ''admin''))
               (ok_response (reqseqno req))) w
     | a # _ \<Rightarrow>
         (case map_find (m_admins w) a of
            Some c \<Rightarrow> ret (success (reqseqno req) (help_text c) 0) w
          | None \<Rightarrow> ret (error_response (reqseqno req) err_admin_not_found ''admin not found'') w))"

definition admincmd_snapshot :: "env \<Rightarrow> AdminRequest \<Rightarrow> AdminResponse act" where
  "admincmd_snapshot env req =
     bindA (run_monitor (env_lim env) broadcast_snapshot_all)
       (\<lambda>_. ret (success (reqseqno req) ''snapshot broadcast'' 0))"

definition uptime_text :: "nat \<Rightarrow> string" where
  "uptime_text elapsed =
     (let days = elapsed div 86400; elapsed = elapsed - days * 86400;
          hours = elapsed div 3600; elapsed = elapsed - hours * 3600;
          mins = elapsed div 60; secs = elapsed - mins * 60
      in dec days @ '' days, '' @ dec hours @ '' hours, '' @ dec mins @ '' mins, '' @ dec secs @ '' secs'')"

abbreviation nl :: string where
  "nl \<equiv> [CHR 0x0A]"

definition admincmd_info :: "env \<Rightarrow> AdminRequest \<Rightarrow> AdminResponse act" where
  "admincmd_info env req = (\<lambda>w.
     ret (text_response (reqseqno req)
       (''serviceid: '' @ m_svcid w @ nl @
        ''arch: '' @ dec 64 @ nl @
        ''uptime: '' @ uptime_text (size_t_of (env_now env - m_start_time w)) @ nl @
        ''pid: '' @ dec (env_pid env) @ nl @
        ''user: '' @ env_user env @ nl @
        ''host: '' @ env_host env @ nl @
        ''exio-version: '' @ env_version env)) w)"

text \<open>
  The row of one session in the list of sessions; the peer address of a session that has gone
  meanwhile is empty.
\<close>

definition session_row :: "nat \<Rightarrow> (string \<times> string list) act" where
  "session_row sid =
     bindA (session_info sid) (\<lambda>info.
     bindA (slot sid) (\<lambda>p.
     bindA (case p of None \<Rightarrow> ret '''' | Some a \<Rightarrow> bindA (deref a) (\<lambda>s. ret (m_serviceid s))) (\<lambda>serviceid.
     let peer = (case info of None \<Rightarrow> '''' | Some (user, peer) \<Rightarrow> peer)
     in ret (peer, [peer, SID_toString sid, serviceid]))))"

definition build_table :: "string list \<Rightarrow> (string \<times> string list) list \<Rightarrow> txContainer \<Rightarrow> txContainer" where
  "build_table columns rows body =
     snd (fold (\<lambda>(k, vs). add_row k vs) rows (set_columns columns (new_TableBuilder body)))"

definition admincmd_sessions :: "AdminRequest \<Rightarrow> AdminResponse act" where
  "admincmd_sessions req =
     bindA session_list (\<lambda>sids.
     bindA (mapA sids session_row) (\<lambda>rows.
     ret (on_body (build_table [''addr'', ''sessionid'', ''serviceid''] rows) (ok_response (reqseqno req)))))"

definition admincmd_list_tables :: "AdminRequest \<Rightarrow> AdminResponse act" where
  "admincmd_list_tables req = (\<lambda>w.
     case req_args req of
       [] \<Rightarrow> ret (error_response (reqseqno req) err_bad_command ''missing table command'') w
     | a # as \<Rightarrow>
         if a = ''list'' then
           ret (on_body (formatreply_simplelist (mon_tables (m_monitor w)) (Some ''table''))
                 (ok_response (reqseqno req))) w
         else if a = ''show'' then
           (case as of
              [] \<Rightarrow> ret (error_response (reqseqno req) err_bad_command ''missing tablename'') w
            | tn # _ \<Rightarrow>
                if \<not> has_table tn (m_monitor w)
                then ret (error_response (reqseqno req) err_no_table ''table not found'') w
                else
                  (case mon_copy_table2 tn [] [] (m_monitor w) of
                     (cols, rows) \<Rightarrow>
                       ret (on_msg (add_rescode 0)
                             (on_body (build_table cols (map (Pair id_row_key) rows))
                               (ok_response (reqseqno req)))) w))
         else ret (error_response (reqseqno req) err_bad_command ''unknown table command'') w)"

fun comma_list :: "string list \<Rightarrow> string" where
  "comma_list [] = ''''"
| "comma_list [x] = x"
| "comma_list (x # xs) = x @ '', '' @ comma_list xs"

definition hex_digit :: "nat \<Rightarrow> char" where
  "hex_digit d = (if d < 10 then char_of (48 + d) else char_of (87 + d))"

fun hex :: "nat \<Rightarrow> string" where
  "hex n = (if n < 16 then [hex_digit n] else hex (n div 16) @ [hex_digit (n mod 16)])"

declare hex.simps [simp del]

definition session_line :: "env \<Rightarrow> AdminSession \<Rightarrow> string" where
  "session_line env s =
     concat (map (\<lambda>f. f @ '', '')
       [SID_toString (m_id s), dec_int (m_fd s), m_peeraddr s, m_serviceid s, m_username s,
        (if m_logon_received s then ''1'' else ''0''),
        datetimestamp (env_localtime env (m_start s)), datetimestamp (env_localtime env (last_write s)),
        dec (bytes_out s), dec (bytes_in s), dec (bytes_pend s)]) @ nl"

definition diag_sessions :: "env \<Rightarrow> bool \<Rightarrow> string list \<Rightarrow> string act" where
  "diag_sessions env all sections = (\<lambda>w.
     (if all \<or> ''sessions'' \<in> set sections then
        bindA (mapA (used_slots w) (\<lambda>i. bindA (slot i) (\<lambda>p. case p of
            None \<Rightarrow> ret '''' | Some a \<Rightarrow> bindA (deref a) (\<lambda>s. ret (session_line env s))))) (\<lambda>lines.
        ret (''SessionID, fd, PeerAddr, PeerServiceID, User, Logon, Start, LastOut, BytesOut, BytesIn, QueueOut'' @
             nl @ concat lines))
      else ret '''') w)"

definition diag_threads :: "env \<Rightarrow> string res" where
  "diag_threads env =
     (case env_reactor_threads env of
        [] \<Rightarrow> Inl (UndefinedAccess ''thread ids'')
      | t # ts \<Rightarrow>
          Inr (''thread, lwp, pthread'' @ nl @
               ''server_socket_accept, '' @ dec (snd (env_server_thread env)) @ '', 0x'' @
                 hex (fst (env_server_thread env)) @ nl @
               ''reactor_io, '' @ dec (snd t) @ '', 0x'' @ hex (fst t) @ nl @
               concat (map (\<lambda>(n, p, l). (if n \<noteq> 1 then nl else '''') @ ''reactor_inbound_'' @ dec n @ '', '' @
                              dec l @ '', 0x'' @ hex p) (enumerate 1 ts))))"

definition diag_tables :: "Monitor \<Rightarrow> string" where
  "diag_tables m =
     concat (map (\<lambda>t. t @ '': subs=['' @ comma_list (map SID_toString (mon_table_subscribers t [] m)) @
                       ''], size='' @ dec (mon_table_size t m) @ nl) (mon_tables m))"

definition admincmd_diags :: "env \<Rightarrow> AdminRequest \<Rightarrow> AdminResponse act" where
  "admincmd_diags env req = (\<lambda>w.
     let sections = req_args req; all = (sections = []) in
     bindA (diag_sessions env all sections) (\<lambda>sess.
     bindA (if all \<or> ''threads'' \<in> set sections
            then (case diag_threads env of Inl e \<Rightarrow> raise e | Inr t \<Rightarrow> ret t) else ret '''') (\<lambda>threads.
     ret (text_response (reqseqno req)
       ((if all then ''Sessions'' @ nl @ ''--------'' @ nl @ ''Total ever created: '' @ dec (createdCount w) @ nl @
                     ''Active: '' @ dec (session_count w) @ nl else '''') @ sess @
        (if all then nl @ ''exio threads'' @ nl @ ''------------'' @ nl else '''') @ threads @
        (if all then nl @ nl @ ''tables'' @ nl @ ''------'' @ nl else '''') @
        (if all \<or> ''tables'' \<in> set sections then diag_tables (m_monitor w) else ''''))))) w)"

definition admincmd_table_subs :: "AdminRequest \<Rightarrow> AdminResponse act" where
  "admincmd_table_subs req = (\<lambda>w.
     ret (text_response (reqseqno req)
       (concat (map (\<lambda>(i, t). (if i \<noteq> 0 then nl else '''') @ t @ '': '' @
                       comma_list (map SID_toString (mon_table_subscribers t [] (m_monitor w))))
          (enumerate 0 (mon_tables (m_monitor w)))))) w)"

text \<open>The loop over the arguments: the sessions that were stopped.\<close>

fun stop_sessions :: "string list \<Rightarrow> nat list act" where
  "stop_sessions [] = ret []"
| "stop_sessions (a # as) =
     (let s = SID_fromString a in
      bindA (if s = no_session then ret False else session_exists s) (\<lambda>found.
      if found then
        bindA (session_stop_one s) (\<lambda>_. bindA (stop_sessions as) (\<lambda>ss. ret (s # ss)))
      else stop_sessions as))"

definition admincmd_del_session :: "AdminRequest \<Rightarrow> AdminResponse act" where
  "admincmd_del_session req =
     (if req_args req = [] then raise (new_AdminError err_bad_command)
      else
        bindA (stop_sessions (req_args req)) (\<lambda>ss.
        ret (text_response (reqseqno req) (''sessions stopping: '' @ comma_list (map SID_toString ss)))))"

section \<open>The public interface\<close>

definition alert_msg :: "string \<Rightarrow> string \<Rightarrow> string \<Rightarrow> string \<Rightarrow> string \<Rightarrow> string \<Rightarrow> txContainer" where
  "alert_msg source source_type error_str alert_type alert_id severity =
     put_child_then id_body
       (\<lambda>body. put_field id_severity severity (put_field id_alert_id alert_id
          (put_field id_alert_type alert_type (put_field id_error error_str
            (put_field id_source_type source_type (put_field id_source source body))))))
       (put_field_q QN_msgtype id_msg_alert (new_container id_msg_alert))"

text \<open>The calls of the public interface that change something.\<close>

datatype api_call =
    AddAdmin "target AdminCommand"
  | MonitorUpdate string string "(string, string) stdmap"
  | MonitorUpdateMeta string string string txContainer
  | TableColumnAttr string string txContainer
  | AddColumns string "string list"
  | MonitorAlert string string string string string string
  | ClearTable string
  | DeleteRow string string
  | MonitorSnapshot string
  | MonitorSnapshotAll

fun api :: "env \<Rightarrow> api_call \<Rightarrow> unit act" where
  "api env (AddAdmin c) = (case copy_AdminCommand c of Inl e \<Rightarrow> raise e | Inr c' \<Rightarrow> modify (admin_add c'))"
| "api env (MonitorUpdate tn rk up) =
     run_monitor_all (env_lim env) (\<lambda>live ss. update_table (env_localtime env (env_now env)) live ss tn rk up)"
| "api env (MonitorUpdateMeta tn rk col meta) =
     run_monitor_all (env_lim env) (\<lambda>live ss. mon_update_meta live ss tn rk col meta)"
| "api env (TableColumnAttr tn col attr) =
     run_monitor_all (env_lim env) (\<lambda>live ss. table_column_attr ss tn col attr)"
| "api env (AddColumns tn cols) =
     run_monitor_all (env_lim env) (\<lambda>live ss. mon_add_columns (env_localtime env (env_now env)) live ss tn cols)"
| "api env (MonitorAlert a b c d e f) = send_all (env_lim env) (alert_msg a b c d e f)"
| "api env (ClearTable tn) = run_monitor (env_lim env) (\<lambda>live. mon_clear_table live tn)"
| "api env (DeleteRow tn rk) = run_monitor (env_lim env) (\<lambda>live. mon_delete_row live tn rk)"
| "api env (MonitorSnapshot tn) = run_monitor (env_lim env) (\<lambda>live. broadcast_snapshot live tn)"
| "api env MonitorSnapshotAll = run_monitor (env_lim env) broadcast_snapshot_all"

section \<open>Requests and logons\<close>

text \<open>
  A command of the application: given the request and the state it can see, the calls it
  makes and its answer.  A call that raises ends the command with the exception.
\<close>

type_synonym user_command = "nat \<Rightarrow> AdminRequest \<Rightarrow> AdminInterfaceImpl \<Rightarrow> api_call list \<times> AdminResponse res"

definition run_user :: "env \<Rightarrow> api_call list \<times> AdminResponse res \<Rightarrow> AdminResponse act" where
  "run_user env = (\<lambda>(calls, r).
     bindA (forA calls (api env)) (\<lambda>_. case r of Inl e \<Rightarrow> raise e | Inr resp \<Rightarrow> ret resp))"

fun call_target :: "env \<Rightarrow> user_command \<Rightarrow> target \<Rightarrow> AdminRequest \<Rightarrow> AdminResponse act" where
  "call_target env user TableCmd req = admincmd_list_tables req"
| "call_target env user SessionsCmd req = admincmd_sessions req"
| "call_target env user HelpCmd req = admincmd_help req"
| "call_target env user InfoCmd req = admincmd_info env req"
| "call_target env user SnapshotCmd req = admincmd_snapshot env req"
| "call_target env user DiagsCmd req = admincmd_diags env req"
| "call_target env user DropSessionCmd req = admincmd_del_session req"
| "call_target env user SubscribeCmd req = admincmd_subscribe env req"
| "call_target env user TableSubsCmd req = admincmd_table_subs req"
| "call_target env user (UserTarget n) req = (\<lambda>w. run_user env (user n req w) w)"

definition command_name :: "txContainer \<Rightarrow> string option" where
  "command_name msg =
     (let nonempty = (\<lambda>f. case f of None \<Rightarrow> None | Some f \<Rightarrow> if field_value f = '''' then None else Some (field_value f))
      in case nonempty (find_field_q msg QN_command) of
           Some n \<Rightarrow> Some n
         | None \<Rightarrow> nonempty (find_field_q msg [id_body, id_command]))"

text \<open>The body of the \<^verbatim>\<open>try\<close> statement: the response of the command.\<close>

definition request_response :: "env \<Rightarrow> user_command \<Rightarrow> txContainer \<Rightarrow> nat \<Rightarrow> AdminResponse act" where
  "request_response env user reqmsg sid = (\<lambda>w.
     case command_name reqmsg of
       None \<Rightarrow> (w, Inl (new_AdminError err_admin_not_found))
     | Some name \<Rightarrow>
         (case admin_find name w of
            None \<Rightarrow> (w, Inl (new_AdminError err_admin_not_found))
          | Some admin \<Rightarrow>
              (case new_AdminRequest reqmsg sid of
                 Inl e \<Rightarrow> (w, Inl e)
               | Inr req \<Rightarrow> invoke (call_target env user) admin req w)))"

text \<open>The \<^verbatim>\<open>catch\<close> clauses.\<close>

definition response_for :: "string \<Rightarrow> exn \<Rightarrow> AdminResponse" where
  "response_for seqno e =
     (case e of
        AdminError code str \<Rightarrow> error_response seqno code str
      | _ \<Rightarrow> error_response seqno err_admin_not_found (what e))"

definition enqueue_ptr :: "nat \<Rightarrow> nat \<Rightarrow> txContainer \<Rightarrow> bool act" where
  "enqueue_ptr lim a msg =
     bindA (deref a) (\<lambda>s.
     case enqueueToSend lim msg s of (s', failed) \<Rightarrow> bindA (modify (set_obj a s')) (\<lambda>_. ret failed))"

definition reqseqno_of :: "txContainer \<Rightarrow> string" where
  "reqseqno_of msg = (case find_field_q msg QN_head_reqseqno of None \<Rightarrow> '''' | Some f \<Rightarrow> field_value f)"

definition mark_response :: "AdminResponse \<Rightarrow> AdminResponse" where
  "mark_response resp =
     (if resp_send resp then on_msg (put_field_q QN_msgtype id_msg_response) resp else resp)"

definition send_response :: "nat \<Rightarrow> nat \<Rightarrow> string \<Rightarrow> AdminResponse \<Rightarrow> unit act" where
  "send_response lim a seqno resp =
     (let resp = mark_response resp in
      bindA (if resp_send resp then
               bindA (enqueue_ptr lim a (resp_msg resp)) (\<lambda>failed.
               if failed then
                 bindA (enqueue_ptr lim a (resp_msg (error_response seqno err_unknown ''enqueue failed''))) (\<lambda>_. ret ())
               else ret ())
             else ret ()) (\<lambda>_.
      bindA (deref a) (\<lambda>s.
      if \<not> has_pending (resp_msg resp) \<and> m_autoclose s then modify (set_obj a (close_session s)) else ret ())))"

definition handle_admin_request :: "env \<Rightarrow> user_command \<Rightarrow> txContainer \<Rightarrow> nat \<Rightarrow> unit act" where
  "handle_admin_request env user reqmsg a =
     bindA (deref a) (\<lambda>session. \<lambda>w.
     case request_response env user reqmsg (m_id session) w of
       (w1, Inl e) \<Rightarrow>
         if undefined_access e then (w1, Inl e)
         else send_response (env_lim env) a (reqseqno_of reqmsg)
                (copy_AdminResponse (response_for (reqseqno_of reqmsg) e)) w1
     | (w1, Inr resp) \<Rightarrow>
         send_response (env_lim env) a (reqseqno_of reqmsg) (copy_AdminResponse resp) w1)"

definition serialise_admins :: "AdminInterfaceImpl \<Rightarrow> txContainer" where
  "serialise_admins w =
     put_child_then id_body
       (put_child_then id_adminset
          (\<lambda>adminset.
             put_field id_admincount (dec (length (m_admins w)))
               (fold (\<lambda>(n, k, ac).
                  put_child_then (id_admin_prefix @ dec n)
                    (\<lambda>box. fold (\<lambda>(k, v). put_field k v) (cmd_attrs ac)
                       (put_field id_longhelp (cmd_longhelp ac)
                         (put_field id_shorthelp (cmd_shorthelp ac)
                           (put_field id_name (cmd_name ac) box)))))
                 (enumerate 0 (m_admins w)) adminset)))
       (put_field_q QN_msgtype id_admindescr (set_cont_name id_admindescr (new_container '''')))"

definition handle_logon_msg :: "env \<Rightarrow> txContainer \<Rightarrow> nat \<Rightarrow> unit act" where
  "handle_logon_msg env logonmsg a =
     bindA (deref a) (\<lambda>session.
     bindA (if \<not> check_field_q logonmsg QN_noautosub id_True then
              run_monitor (env_lim env)
                (\<lambda>live m. case subscribe_all (m_id session) m of (m', out) \<Rightarrow> (m', out, None))
            else ret ()) (\<lambda>_.
     bindA (if check_field_q logonmsg [id_head, id_autoclose] id_True
            then update_obj a (\<lambda>s. s\<lparr>m_autoclose := True\<rparr>) else ret ()) (\<lambda>_.
     \<lambda>w. send_one (env_lim env) (serialise_admins w) (m_id session) w)))"

definition session_msg_received :: "env \<Rightarrow> user_command \<Rightarrow> txContainer \<Rightarrow> nat \<Rightarrow> unit act" where
  "session_msg_received env user reqmsg a =
     (if cont_name reqmsg = id_msg_logon then handle_logon_msg env reqmsg a
      else if cont_name reqmsg = id_msg_request then handle_admin_request env user reqmsg a
      else ret ())"

section \<open>The service as the listener of its sessions\<close>

text \<open>
  A session's callbacks work on the session itself and on the service; here the service is
  brought up to date with the session, called, and read back.
\<close>

definition through :: "nat \<Rightarrow> unit act \<Rightarrow> AdminSession \<times> AdminInterfaceImpl \<Rightarrow> (AdminSession \<times> AdminInterfaceImpl) \<times> unit res"
where
  "through a act = (\<lambda>(s, w).
     case act (set_obj a s w) of
       (w', r) \<Rightarrow> (case map_find (objs w') a of None \<Rightarrow> ((s, w'), r) | Some s' \<Rightarrow> ((s', w'), r)))"

definition service_message :: "env \<Rightarrow> user_command \<Rightarrow> nat \<Rightarrow> AdminInterfaceImpl listener" where
  "service_message env user a = (\<lambda>msg. through a (session_msg_received env user msg a))"

definition service_closed ::
  "nat \<Rightarrow> AdminSession \<times> AdminInterfaceImpl \<Rightarrow> (AdminSession \<times> AdminInterfaceImpl) \<times> unit res" where
  "service_closed a = through a (session_closed a)"

text \<open>The worker's call for the connection of the session at \<open>a\<close>.\<close>

definition service_work :: "env \<Rightarrow> user_command \<Rightarrow> nat \<Rightarrow> Client \<times> AdminSession \<times> AdminInterfaceImpl \<Rightarrow>
  (Client \<times> AdminSession \<times> AdminInterfaceImpl) \<times> exn option" where
  "service_work env user a =
     do_work (env_lim env) (session_input (env_lim env) (service_message env user a)) (session_close (service_closed a))"

definition work_on :: "env \<Rightarrow> user_command \<Rightarrow> nat \<Rightarrow> unit act" where
  "work_on env user a =
     bindA (deref a) (\<lambda>s.
     case m_io_handle s of
       None \<Rightarrow> ret ()
     | Some c \<Rightarrow> (\<lambda>w.
         case service_work env user a (c, s, w) of
           ((c', s', w'), err) \<Rightarrow>
             (set_obj a (io_init c' s') w', case err of None \<Rightarrow> Inr () | Some e \<Rightarrow> Inl e)))"

end
