(* ===== verification/Client_Hosting.thy ===== *)
theory Client_Hosting
  imports Client_Inbound
begin

unbundle bit_operations_syntax

text \<open>
  What a reactor may assume of a connection: \<open>hosted\<close> is the invariant that makes every
  operation of the reactor thread and of a worker defined.  The locale \<open>handler\<close> is the
  contract between a connection and the object behind its callbacks: the callbacks change the
  connection only by queueing output, and consume no more than they are given.
\<close>

section \<open>Queueing output\<close>

text \<open>What any number of calls of \<open>queue\<close> does to a connection.\<close>

inductive queues :: "Client \<Rightarrow> Client \<Rightarrow> bool" for c where
  queues_refl [simp]: "queues c c"
| queues_step: "queues c d \<Longrightarrow> queues c (fst (queue buf cl d))"

lemma queues_one [simp]: "queues c (fst (queue buf cl c))"
  by (rule queues_step) simp

lemma queues_trans: "queues d e \<Longrightarrow> queues c d \<Longrightarrow> queues c e"
  by (induction rule: queues.induct) (auto intro: queues_step)

lemma queues_inbound: "queues c d \<Longrightarrow> same_inbound c d"
  by (induction rule: queues.induct) (auto simp: same_inbound_def queue_def Let_def)

section \<open>The invariant\<close>

abbreviation wants_delete :: "Client \<Rightarrow> bool" where
  "wants_delete c \<equiv> m_attn_flags c AND eWantDelete \<noteq> 0"

definition hosted :: "Client \<Rightarrow> bool" where
  "hosted c \<longleftrightarrow> in_ok c \<and> m_buf_cap (m_rbuf c) < 2 ^ 62 \<and> out_ok (m_out_q c) (m_out_pend_max c) \<and>
     (wants_delete c \<longrightarrow> \<not> m_cb c)"

lemma hosted_new [simp]: "hosted (new_Client now)"
  by (simp add: hosted_def) (simp add: new_Client_def new_ReactorReadBuffer_def)

text \<open>
  What every operation keeps: the log grows, and a queue of output that was empty gets its
  first message with a notification of the reactor.
\<close>

definition announces :: "Client \<Rightarrow> Client \<Rightarrow> bool" where
  "announces c c' \<longleftrightarrow> (\<exists>l. io_log c' = io_log c @ l \<and>
     (out_items (m_out_q c) = [] \<longrightarrow> out_items (m_out_q c') \<noteq> [] \<longrightarrow> Invalidate \<in> set l) \<and>
     (wants_delete c' \<longrightarrow> wants_delete c \<or> RequestAttn \<in> set l))"

lemma announces_refl [simp]: "announces c c"
  by (simp add: announces_def)

lemma announces_trans:
  assumes "announces c d" "announces d e"
  shows "announces c e"
proof -
  obtain l k where "io_log d = io_log c @ l" "io_log e = io_log d @ k"
    "out_items (m_out_q c) = [] \<longrightarrow> out_items (m_out_q d) \<noteq> [] \<longrightarrow> Invalidate \<in> set l"
    "out_items (m_out_q d) = [] \<longrightarrow> out_items (m_out_q e) \<noteq> [] \<longrightarrow> Invalidate \<in> set k"
    "wants_delete d \<longrightarrow> wants_delete c \<or> RequestAttn \<in> set l"
    "wants_delete e \<longrightarrow> wants_delete d \<or> RequestAttn \<in> set k"
    using assms unfolding announces_def by blast
  then show ?thesis unfolding announces_def by (intro exI [of _ "l @ k"]) auto
qed

lemma announces_frame:
  "io_log c' = io_log c @ l \<Longrightarrow> out_items (m_out_q c) = [] \<longrightarrow> out_items (m_out_q c') = [] \<Longrightarrow>
   wants_delete c' \<longrightarrow> wants_delete c \<Longrightarrow> announces c c'"
  by (auto simp: announces_def)

lemma wants_delete_shutdown [simp]:
  "m_attn_flags (do_shutdown_SHUT_WR c) AND eWantDelete = m_attn_flags c AND eWantDelete"
proof -
  have "(x OR eShutdownDone) AND eWantDelete = x AND eWantDelete" for x
    by (simp add: bit.conj_disj_distrib2 eShutdownDone_def eWantDelete_def)
  then show ?thesis by (simp add: do_shutdown_SHUT_WR_def)
qed

lemma wants_delete_set: "(x OR eWantDelete) AND eWantDelete \<noteq> 0"
  by (simp add: bit.conj_disj_distrib2 eWantDelete_def)

lemma shutdown_log: "\<exists>l. io_log (do_shutdown_SHUT_WR c) = io_log c @ l"
  by (simp add: do_shutdown_SHUT_WR_def)

lemma announces_queue [simp]: "announces c (fst (queue buf cl c))"
proof -
  have refused: "announces c (do_shutdown_SHUT_WR (no_more c))"
    using shutdown_log [of "no_more c"] announces_frame [of "do_shutdown_SHUT_WR (no_more c)" c] by auto
  have "announces c (log_io Invalidate d)" if "m_attn_flags d = m_attn_flags c" "io_log d = io_log c" for d
    using that by (auto simp: announces_def)
  then show ?thesis using refused by (simp add: queue_def Let_def)
qed

lemma announces_shutdown [simp]: "announces c (do_shutdown_SHUT_WR c)"
  using shutdown_log [of c] announces_frame [of "do_shutdown_SHUT_WR c" c] by auto

lemma queues_laws:
  assumes "queues c d" "out_ok (m_out_q c) (m_out_pend_max c)"
  shows "out_ok (m_out_q d) (m_out_pend_max d)" "announces c d" "m_runstate d = m_runstate c" "m_tdestroy d = m_tdestroy c"
    "wants_delete d \<longleftrightarrow> wants_delete c"
proof -
  have "out_ok (m_out_q d) (m_out_pend_max d) \<and> announces c d \<and> m_runstate d = m_runstate c \<and>
      m_tdestroy d = m_tdestroy c \<and> (wants_delete d \<longleftrightarrow> wants_delete c)"
    using assms
  proof (induction rule: queues.induct)
    case (queues_step d buf cl)
    obtain d' r where q: "queue buf cl d = (d', r)" by (cases "queue buf cl d")
    have "out_ok (m_out_q d') (m_out_pend_max d')" using queue_ok [OF _ q] queues_step by simp
    moreover have "announces c d'" using announces_trans [of c d d'] announces_queue [of d buf cl] queues_step q by simp
    moreover have "m_runstate d' = m_runstate d" "m_tdestroy d' = m_tdestroy d" "wants_delete d' \<longleftrightarrow> wants_delete d"
      using q wants_delete_shutdown [of "no_more d"]
      by (auto simp: queue_def Let_def do_shutdown_SHUT_WR_def no_more_def push_out_def log_io_def split: if_splits)
    ultimately show ?case using queues_step q by simp
  qed simp
  then show "out_ok (m_out_q d) (m_out_pend_max d)" "announces c d" "m_runstate d = m_runstate c"
    "m_tdestroy d = m_tdestroy c" "wants_delete d \<longleftrightarrow> wants_delete c" by blast+
qed

section \<open>Growing and copying, with failures\<close>

lemma grow_cap:
  assumes "rbuf_ok b" "m_buf_cap b < 2 ^ 62" "lim < 2 ^ 62"
  shows "grow lim b = Inr (b', n) \<Longrightarrow> m_buf_cap b' < 2 ^ 62" "grow lim b = Inl x \<Longrightarrow> \<not> undefined_access x"
  using assms by (auto simp: grow_def Let_def rbuf_ok_def split: if_splits)

lemma grow_until_keeps:
  assumes "rbuf_ok b" "m_rp b = 0" "m_buf_cap b < 2 ^ 62" "lim < 2 ^ 62" "grow_until lim n b = (b', err)"
  shows "rbuf_ok b' \<and> m_rp b' = 0 \<and> m_buf_cap b' < 2 ^ 62 \<and>
    (case err of None \<Rightarrow> n \<le> space_remain b' | Some x \<Rightarrow> \<not> undefined_access x)"
  using assms
proof (induction lim n b rule: grow_until.induct)
  case (1 lim n b)
  note g = "1.prems"(5) [unfolded grow_until.simps [of lim n b]]
  show ?case
  proof (cases "space_remain b < n")
    case True
    show ?thesis
    proof (cases "grow lim b")
      case (Inl x)
      then show ?thesis using g True "1.prems" grow_cap(2) [OF "1.prems"(1,3,4) Inl] by auto
    next
      case (Inr y)
      obtain b1 k where y: "y = (b1, k)" by (cases y)
      note b1 = grow_ok [OF "1.prems"(1) Inr [unfolded y]] grow_cap(1) [OF "1.prems"(1,3,4) Inr [unfolded y]]
      show ?thesis
        using "1.IH" [OF True Inr y [symmetric]] b1 g True Inr y "1.prems"(2,4) by simp
    qed
  next
    case False
    then show ?thesis using g "1.prems" by auto
  qed
qed

lemma drain_keeps:
  assumes "list_all chunk_ok ds" "rbuf_ok b" "m_rp b = 0" "m_buf_cap b < 2 ^ 62" "lim < 2 ^ 62"
    "ts = [] \<or> ts = [null_DataChunk]"
    "drain_fifo lim (ds @ ts) (length (ds @ ts)) b = (items, n, b', closing, err)"
  shows "rbuf_ok b' \<and> m_rp b' = 0 \<and> m_buf_cap b' < 2 ^ 62 \<and> n = length items \<and>
    (case err of None \<Rightarrow> items = [] | Some x \<Rightarrow> \<not> undefined_access x \<and> (\<exists>ds'. list_all chunk_ok ds' \<and> items = ds' @ ts))"
  using assms
proof (induction ds arbitrary: b)
  case Nil
  then show ?case by auto
next
  case (Cons k ds)
  let ?n = "chunk_size k"
  have k: "length (chunk_bytes k) = ?n" "?n \<noteq> 0"
    using Cons.prems(1) length_chunk by (auto simp: chunk_ok_def)
  obtain b1 err1 where g: "grow_until lim ?n b = (b1, err1)" by (cases "grow_until lim ?n b")
  note b1 = grow_until_keeps [OF Cons.prems(2-5) g]
  show ?case
  proof (cases err1)
    case (Some x)
    then have "items = (k # ds) @ ts" "n = length items" "b' = b1" "err = Some x"
      using Cons.prems(7) k(2) g by auto
    then show ?thesis using b1 Some Cons.prems(1) by (auto intro: exI [of _ "k # ds"])
  next
    case None
    then have room: "?n \<le> space_remain b1" "rbuf_ok b1" "m_rp b1 = 0" "m_buf_cap b1 < 2 ^ 62" using b1 by auto
    obtain b2 where b2: "write_wp (chunk_bytes k) b1 = Inr b2" "rbuf_ok (incr_bytesavail ?n b2)"
      "m_rp (incr_bytesavail ?n b2) = 0"
      using write_ok [OF room(2,3), of "chunk_bytes k"] room(1) k by metis
    have "m_buf_cap (incr_bytesavail ?n b2) < 2 ^ 62"
      using b2(1) room(4) by (auto simp: write_wp_def incr_bytesavail_def Let_def split: if_splits)
    moreover have "drain_fifo lim (ds @ ts) (length (ds @ ts)) (incr_bytesavail ?n b2) = (items, n, b', closing, err)"
      using Cons.prems(7) g None b2(1) k(2) by (simp add: chunk_bytes_def)
    ultimately show ?thesis
      using Cons.IH [of "incr_bytesavail ?n b2"] b2 Cons.prems by simp
  qed
qed

section \<open>Work\<close>

text \<open>An undefined access of the callbacks themselves.\<close>

definition own_fault :: "'e process_input_cb \<Rightarrow> 'e process_close_cb \<Rightarrow> exn \<Rightarrow> bool" where
  "own_fault pi pc x \<longleftrightarrow> undefined_access x \<and> ((\<exists>s bs. snd (pi s bs) = Inl x) \<or> (\<exists>s. snd (pc s) = Inl x))"

text \<open>What a round of work keeps; without callbacks it only empties the inbound queue.\<close>

definition worked :: "Client \<Rightarrow> Client \<Rightarrow> bool" where
  "worked c c' \<longleftrightarrow> hosted c' \<and> announces c c' \<and> m_runstate c' = m_runstate c \<and> m_io_closed c' = m_io_closed c \<and>
     m_tdestroy c' = m_tdestroy c \<and> (m_cb c' \<longrightarrow> m_cb c) \<and> (wants_delete c' \<longleftrightarrow> wants_delete c) \<and>
     (\<not> has_work c \<longrightarrow> \<not> has_work c') \<and> (\<not> m_cb c \<longrightarrow> c' = clear_fifo c)"

lemma hosted_clear [simp]: "hosted c \<Longrightarrow> hosted (clear_fifo c)" "hosted c \<Longrightarrow> hosted (c\<lparr>m_cb := False\<rparr>)"
  by (simp_all add: hosted_def in_ok_def clear_fifo_def)

text \<open>
  \<open>good\<close> is what the object behind the callbacks keeps while callbacks are made.
\<close>

locale handler =
  fixes pi :: "'e process_input_cb" and pc :: "'e process_close_cb" and good :: "'e \<Rightarrow> bool"
  assumes pi_queues: "good e \<Longrightarrow> pi (c, e) bs = ((c', e'), r) \<Longrightarrow> uncaught r = None \<Longrightarrow>
      good e' \<and> queues c c' \<and> consumed_of r \<le> length bs"
    and pc_queues: "good e \<Longrightarrow> pc (c, e) = ((c', e'), u) \<Longrightarrow> uncaught u = None \<Longrightarrow> queues c c'"
begin

lemma deliver_hosted:
  assumes "deliver pi b (c, e) = ((b', c', e'), err)" "rbuf_ok b" "good e"
  shows "case err of None \<Rightarrow> rbuf_ok b' \<and> m_buf_cap b' = m_buf_cap b \<and> queues c c' \<and> good e' | Some x \<Rightarrow> own_fault pi pc x"
  using assms
proof (induction "m_bytesavail b" arbitrary: b c e rule: less_induct)
  case less
  note d = less.prems(1) [unfolded deliver.simps [of pi b "(c, e)"]]
  show ?case
  proof (cases "m_bytesavail b = 0 \<or> \<not> m_cb c")
    case True
    then show ?thesis using d less.prems(2,3) by auto
  next
    case False
    obtain c1 e1 r where r: "pi (c, e) (contents b) = ((c1, e1), r)" by (metis prod_cases3 prod.collapse)
    show ?thesis
    proof (cases "uncaught r")
      case (Some x)
      then have "err = Some x" using d False r less.prems(2) by simp
      moreover have "snd (pi (c, e) (contents b)) = Inl x" "undefined_access x"
        using Some r by (auto simp: uncaught_def split: sum.splits if_splits)
      ultimately show ?thesis by (auto simp: own_fault_def)
    next
      case None
      then have c1: "good e1" "queues c c1" "consumed_of r \<le> m_bytesavail b"
        using pi_queues [OF less.prems(3) r] length_contents [OF less.prems(2)] by auto
      show ?thesis
      proof (cases "consumed_of r = 0")
        case True
        then show ?thesis using d False r None c1 less.prems(2) by (auto split: if_splits)
      next
        case False
        let ?b = "consume (consumed_of r) b"
        have "deliver pi ?b (c1, e1) = ((b', c', e'), err)"
          using d False r None c1 less.prems(2) \<open>\<not> (m_bytesavail b = 0 \<or> _)\<close> by simp
        moreover have "m_bytesavail ?b < m_bytesavail b" "rbuf_ok ?b" "m_buf_cap ?b = m_buf_cap b"
          using consume_ok [OF less.prems(2) c1(3)] False c1(3) by (simp_all add: consume_def)
        ultimately show ?thesis
          using less.hyps [of ?b c1 e1] c1(1) queues_trans [OF _ c1(2), of c'] by (auto split: option.splits)
      qed
    qed
  qed
qed

lemma worked_after:
  assumes c: "hosted c" "m_cb c" and b: "rbuf_ok b" "m_rp b = 0" "m_buf_cap b < 2 ^ 62"
    and f: "fifo_itemcount f = length (fifo_items f)" "\<exists>ds. list_all chunk_ok ds \<and>
      (fifo_items f = ds \<or> fifo_items f = ds @ [null_DataChunk] \<and> m_io_closed c)"
    and e: "fifo_items (m_datafifo c) = [] \<longrightarrow> fifo_items f = []"
    and q: "queues (c\<lparr>m_datafifo := f, m_rbuf := b'\<rparr>) c'"
  shows "worked c (c'\<lparr>m_rbuf := b\<rparr>)"
proof -
  let ?d = "c\<lparr>m_datafifo := f, m_rbuf := b'\<rparr>"
  have out: "out_ok (m_out_q ?d) (m_out_pend_max ?d)" using c(1) by (simp add: hosted_def)
  note l = queues_laws [OF q out] queues_inbound [OF q]
  have "announces c (c'\<lparr>m_rbuf := b\<rparr>)" using l(2) by (simp add: announces_def)
  moreover have "hosted (c'\<lparr>m_rbuf := b\<rparr>)"
    using l(1,5,6) b f c(1) by (simp add: hosted_def in_ok_def same_inbound_def)
  ultimately show ?thesis using l c(2) f(1) e by (simp add: worked_def same_inbound_def has_work_def)
qed

lemma worked_closing:
  assumes d: "worked c d" and cb: "m_cb c" and q: "queues d c4"
  shows "worked c (clear_fifo (c4\<lparr>m_cb := False\<rparr>))"
proof -
  have h: "hosted d" using d by (simp add: worked_def)
  then have l: "out_ok (m_out_q c4) (m_out_pend_max c4)" "announces d c4"
    "m_runstate c4 = m_runstate c" "m_tdestroy c4 = m_tdestroy c" "same_inbound d c4" "wants_delete c4 \<longleftrightarrow> wants_delete c"
    using queues_laws [OF q] queues_inbound [OF q] d by (auto simp: hosted_def worked_def)
  have "announces c c4" using announces_trans [OF _ l(2)] d by (simp add: worked_def)
  moreover have "in_ok c4" "m_buf_cap (m_rbuf c4) < 2 ^ 62"
    using h l(5) by (simp_all add: hosted_def in_ok_def same_inbound_def)
  ultimately show ?thesis
    using l d cb
    by (simp add: worked_def same_inbound_def) (simp add: clear_fifo_def announces_def hosted_def in_ok_def has_work_def)
qed

lemma do_work_hosted:
  assumes c: "hosted c" "lim < 2 ^ 62" "m_cb c \<Longrightarrow> good e" and work: "do_work lim pi pc (c, e) = ((c', e'), err)"
  shows "worked c c' \<or> (\<exists>x. err = Some x \<and> own_fault pi pc x)"
    "err = Some x \<Longrightarrow> undefined_access x \<Longrightarrow> own_fault pi pc x" "\<not> m_cb c \<Longrightarrow> err = None"
proof -
  have "(worked c c' \<and> (\<forall>x. err = Some x \<longrightarrow> \<not> undefined_access x) \<or> (\<exists>x. err = Some x \<and> own_fault pi pc x)) \<and>
      (\<not> m_cb c \<longrightarrow> err = None)"
  proof (cases "m_cb c")
    case False
    then show ?thesis
      using work c(1) by (auto simp: do_work_def worked_def announces_def) (auto simp: clear_fifo_def has_work_def)
  next
    case cb: True
    let ?f = "m_datafifo c"
    obtain ds ts where it: "list_all chunk_ok ds" "fifo_items ?f = ds @ ts" "ts = [] \<or> ts = [null_DataChunk] \<and> m_io_closed c"
      using c(1) unfolding hosted_def in_ok_def by (metis append_Nil2)
    have rb: "rbuf_ok (m_rbuf c)" "m_rp (m_rbuf c) = 0" "fifo_itemcount ?f = length (ds @ ts)" "m_buf_cap (m_rbuf c) < 2 ^ 62"
      using c(1) it(2) by (simp_all add: hosted_def in_ok_def)
    obtain items n b closing err1 where dr:
      "drain_fifo lim (ds @ ts) (length (ds @ ts)) (m_rbuf c) = (items, n, b, closing, err1)"
      by (metis prod_cases5)
    have ts: "ts = [] \<or> ts = [null_DataChunk]" using it(3) by blast
    note k = drain_keeps [OF it(1) rb(1,2,4) c(2) ts dr]
    let ?f1 = "?f\<lparr>fifo_items := items, fifo_itemcount := n\<rparr>"
    let ?c1 = "c\<lparr>m_datafifo := ?f1, m_rbuf := b\<rparr>"
    have f1: "fifo_itemcount ?f1 = length (fifo_items ?f1)" "\<exists>ds. list_all chunk_ok ds \<and>
        (fifo_items ?f1 = ds \<or> fifo_items ?f1 = ds @ [null_DataChunk] \<and> m_io_closed c)"
      using k it(3) by (auto split: option.splits)
    have e1: "fifo_items ?f = [] \<longrightarrow> fifo_items ?f1 = []" using dr it(2) by auto
    note after = worked_after [OF c(1) cb _ _ _ f1 e1]
    note w = work [unfolded do_work_def Let_def]
    show ?thesis
    proof (cases err1)
      case (Some x)
      then have "c' = ?c1" "err = Some x" using w cb it(2) rb(3) dr by auto
      then show ?thesis using after [of b b ?c1] k Some cb by auto
    next
      case None
      obtain b1 c2 e2 err2 where d: "deliver pi b (?c1, e) = ((b1, c2, e2), err2)" by (metis prod_cases4 prod.collapse)
      have kb: "rbuf_ok b" "m_buf_cap b < 2 ^ 62" using k by simp_all
      note dk = deliver_hosted [OF d kb(1) c(3) [OF cb]]
      show ?thesis
      proof (cases err2)
        case (Some x)
        then show ?thesis using w cb it(2) rb(3) dr None d dk by auto
      next
        case err2: None
        then have q: "rbuf_ok b1" "m_buf_cap b1 < 2 ^ 62" "queues ?c1 c2" "good e2" using dk kb by auto
        obtain b2 where s: "shift_pending_to_array_start b1 = Inr b2" "rbuf_ok b2" "m_rp b2 = 0" "m_buf_cap b2 < 2 ^ 62"
          using shift_ok [OF q(1)] q(2) by metis
        have wk: "worked c (c2\<lparr>m_rbuf := b2\<rparr>)" by (rule after [OF s(2-4) q(3)])
        show ?thesis
        proof (cases "closing \<and> m_cb c2")
          case False
          then have "c' = c2\<lparr>m_rbuf := b2\<rparr> \<or> c' = clear_fifo (c2\<lparr>m_rbuf := b2, m_cb := False\<rparr>)" "err = None"
            using w cb it(2) rb(3) dr None d err2 s(1) by (auto split: if_splits)
          then show ?thesis using wk worked_closing [OF wk cb queues_refl] cb by auto
        next
          case True
          obtain c4 e4 r where r: "pc (c2\<lparr>m_rbuf := b2\<rparr>, e2) = ((c4, e4), r)" by (metis prod_cases3 prod.collapse)
          show ?thesis
          proof (cases "uncaught r")
            case (Some x)
            then have "err = Some x" using w cb it(2) rb(3) dr None d err2 s(1) True r by auto
            moreover have "snd (pc (c2\<lparr>m_rbuf := b2\<rparr>, e2)) = Inl x" "undefined_access x"
              using Some r by (auto simp: uncaught_def split: sum.splits if_splits)
            ultimately show ?thesis using cb unfolding own_fault_def by blast
          next
            case un: None
            have "worked c (clear_fifo (c4\<lparr>m_cb := False\<rparr>))"
              by (rule worked_closing [OF wk cb pc_queues [OF q(4) r un]])
            moreover have "c' = clear_fifo (c4\<lparr>m_cb := False\<rparr>)" "err = None"
              using w cb it(2) rb(3) dr None d err2 s(1) True r un by auto
            ultimately show ?thesis by simp
          qed
        qed
      qed
    qed
  qed
  then show "worked c c' \<or> (\<exists>x. err = Some x \<and> own_fault pi pc x)"
    "err = Some x \<Longrightarrow> undefined_access x \<Longrightarrow> own_fault pi pc x" "\<not> m_cb c \<Longrightarrow> err = None" by auto
qed

end

section \<open>What the reactor does with a connection\<close>

text \<open>
  Every operation keeps the run state, leaves a closed connection closed and a released one
  released, and announces output and releases.
\<close>

definition tended :: "Client \<Rightarrow> Client \<Rightarrow> bool" where
  "tended c c' \<longleftrightarrow> hosted c' \<and> announces c c' \<and> m_runstate c' = m_runstate c \<and>
     (m_io_closed c \<longrightarrow> m_io_closed c') \<and> (wants_delete c \<longrightarrow> wants_delete c') \<and>
     (m_io_closed c \<longrightarrow> \<not> has_work c \<longrightarrow> \<not> has_work c')"

lemma tended_refl [simp]: "hosted c \<Longrightarrow> tended c c"
  by (simp add: tended_def)

lemma tended_trans: "tended c d \<Longrightarrow> tended d e \<Longrightarrow> tended c e"
  unfolding tended_def using announces_trans by auto

lemma tended_hosted: "tended c d \<Longrightarrow> hosted d"
  by (simp add: tended_def)

lemma tended_frame:
  assumes "hosted c" "m_datafifo c' = m_datafifo c" "m_rbuf c' = m_rbuf c" "m_cb c' = m_cb c" "m_runstate c' = m_runstate c"
    "m_io_closed c' = m_io_closed c" "wants_delete c' \<longleftrightarrow> wants_delete c" "out_ok (m_out_q c') (m_out_pend_max c')" "announces c c'"
  shows "tended c c'"
  using assms by (simp add: tended_def hosted_def in_ok_def has_work_def)

lemma tended_queues: "hosted c \<Longrightarrow> queues c d \<Longrightarrow> tended c d"
  using queues_laws [of c d] queues_inbound [of c d]
  by (intro tended_frame) (auto simp: hosted_def same_inbound_def)

lemma tended_worked: "worked c d \<Longrightarrow> tended c d"
  by (simp add: tended_def worked_def)

lemma tended_input: "hosted c \<Longrightarrow> tended c (fst (handle_input now r c))"
proof -
  assume h: "hosted c"
  show ?thesis
  proof (cases "io_open c")
    case False
    then show ?thesis using h by (simp add: handle_input_def)
  next
    case True
    show ?thesis
    proof (cases r)
      case (ReadBytes avail)
      obtain c' st where e: "handle_input now r c = (c', st)" by (cases "handle_input now r c")
      have "in_ok c'" using handle_input_ok(1) [OF _ True] h e ReadBytes by (simp add: hosted_def)
      moreover have "m_runstate c' = m_runstate c" using e ReadBytes by (auto simp: handle_input_def Let_def split: if_splits)
      ultimately show ?thesis
        using h True e handle_input_frame [of now r c]
        by (simp add: tended_def hosted_def announces_def io_open_def)
    qed (use h True in \<open>simp add: handle_input_def\<close>)
  qed
qed

lemma tended_close: "hosted c \<Longrightarrow> tended c (handle_close c)"
proof -
  assume h: "hosted c"
  then have "in_ok (handle_close c)" by (simp add: handle_close_ok hosted_def)
  then show ?thesis
    using h by (auto simp: tended_def hosted_def handle_close_def announces_def io_open_def)
qed

lemma tended_turn:
  assumes h: "hosted c" and t: "output_turn now r c = Inr (c', st)"
  shows "tended c c'"
proof -
  have "out_ok (m_out_q c) (m_out_pend_max c)" using h by (simp add: hosted_def)
  then have "out_ok (m_out_q c') (m_out_pend_max c')" using output_turn_ok [of c now r] t by (metis Inr_inject prod.inject)
  moreover have "announces c c'"
    using t announces_shutdown announces_trans
    by (auto simp: output_turn_def after_send_def pop_out_def announces_def do_shutdown_SHUT_WR_def log_io_def Let_def
        split: list.splits if_splits send_result.splits)
  ultimately show ?thesis
    by (intro tended_frame [OF h])
      (use t wants_delete_shutdown in \<open>auto simp: output_turn_def after_send_def pop_out_def Let_def split: list.splits if_splits send_result.splits\<close>)
qed

lemma handle_output_defined:
  assumes "hosted c"
  obtains c' st where "handle_output now rs c = Inr (c', st)" "tended c c'"
  using assms
proof (induction rs arbitrary: c thesis)
  case Nil
  have "out_ok (m_out_q c) (m_out_pend_max c)" using Nil.prems(2) by (simp add: hosted_def)
  then obtain c1 st where t: "output_turn now (Room 0) c = Inr (c1, st)" by (rule output_turn_ok)
  show ?case by (rule Nil.prems(1) [OF _ tended_turn [OF Nil.prems(2) t]]) (simp add: t)
next
  case (Cons r rs)
  have "out_ok (m_out_q c) (m_out_pend_max c)" using Cons.prems(2) by (simp add: hosted_def)
  then obtain c1 st where t: "output_turn now r c = Inr (c1, st)" by (rule output_turn_ok)
  note k = tended_turn [OF Cons.prems(2) t]
  show ?case
  proof (cases st)
    case None
    obtain c' st' where "handle_output now rs c1 = Inr (c', st')" "tended c1 c'"
      by (rule Cons.IH [OF _ tended_hosted [OF k]])
    then show ?thesis using Cons.prems(1) [of c' st'] t None tended_trans [OF k] by simp
  next
    case (Some s)
    then show ?thesis using Cons.prems(1) [of c1 s] t k by simp
  qed
qed

lemma tended_cycle: "hosted c \<Longrightarrow> tended c (fst (destroy_cycle t c))"
proof -
  assume h: "hosted c"
  have "tended c (c\<lparr>m_tdestroy := t\<rparr>)" by (rule tended_frame [OF h]) (use h in \<open>simp_all add: hosted_def announces_def\<close>)
  then show ?thesis
    using h tended_trans [OF _ tended_close] tended_hosted by (auto simp: destroy_cycle_def Let_def)
qed

lemma tended_release: "hosted c \<Longrightarrow> tended c (release now c)"
  using shutdown_log [of "c\<lparr>m_cb := False\<rparr>"] wants_delete_set
  by (auto simp: release_def tended_def hosted_def in_ok_def announces_def has_work_def Let_def)

end
