(* ===== verification/Service_Laws.thy ===== *)
theory Service_Laws
  imports Admin_Interface Monitor_Laws Client_Hosting
begin

text \<open>
  The registry is sound: slots, expired and external sessions point to live objects, a
  session's id is its slot, and the subscribers of all tables are slots.  \<open>sound\<close> is the law
  of the methods that neither create nor close sessions: they keep the registry as it is,
  change session objects only by queueing output, and make no undefined access.
\<close>

section \<open>What queueing output keeps of a session\<close>

definition kept :: "AdminSession \<Rightarrow> AdminSession \<Rightarrow> bool" where
  "kept s s' \<longleftrightarrow> m_id s' = m_id s \<and> m_session_valid s' = m_session_valid s \<and> m_listener s' = m_listener s \<and>
     handed s' = handed s \<and> rel_option queues (m_io_handle s) (m_io_handle s')"

lemma kept_refl [simp]: "kept s s"
  by (simp add: kept_def option.rel_refl)

lemma kept_trans: "kept s t \<Longrightarrow> kept t u \<Longrightarrow> kept s u"
  by (cases "m_io_handle s"; cases "m_io_handle t"; cases "m_io_handle u")
    (auto simp: kept_def intro: queues_trans)

lemma kept_enqueue [simp]: "kept s (fst (enqueueToSend lim m s))"
proof -
  have "queues c c'" if "queue buf cl c = (c', r)" for buf cl c c' r
    using queues_one [of c buf cl] that by simp
  then show ?thesis
    by (auto simp: enqueueToSend_def kept_def option.rel_refl split: sum.split option.split prod.split)
qed

lemma kept_enqueues [simp]: "kept s (fold (\<lambda>m s. fst (enqueueToSend lim m s)) ms s)"
proof (induction ms arbitrary: s)
  case (Cons m ms)
  have "kept s (fst (enqueueToSend lim m s))" by simp
  from kept_trans [OF this Cons [of "fst (enqueueToSend lim m s)"]] show ?case by simp
qed simp

lemma kept_close [simp]: "kept s (close_session s)"
  by (auto simp: close_session_def kept_def split: option.split)

lemma kept_housekeeping [simp]: "kept s (session_housekeeping lim now s)"
  using kept_enqueue [of s lim heartbeat_msg]
  by (auto simp: session_housekeeping_def kept_def option.rel_refl split: option.split)

lemma kept_autoclose [simp]: "kept s (s\<lparr>m_autoclose := b\<rparr>)"
  by (simp add: kept_def option.rel_refl)

section \<open>The invariant of the registry\<close>

definition in_slot :: "nat \<Rightarrow> AdminSession \<Rightarrow> bool" where
  "in_slot i s \<longleftrightarrow> m_id s = i \<and> m_session_valid s \<and> m_listener s \<and> m_io_handle s \<noteq> None"

text \<open>The slots: number 0 stays free, the others hold open sessions.\<close>

definition slots_ok :: "AdminInterfaceImpl \<Rightarrow> bool" where
  "slots_ok w \<longleftrightarrow> length (m_reg w) = SESSION_REG_SIZE \<and> m_reg w ! 0 = None \<and> m_next w \<le> MAX_SESSIONS \<and>
     (\<forall>i a. i < SESSION_REG_SIZE \<longrightarrow> m_reg w ! i = Some a \<longrightarrow> (\<exists>s. map_find (objs w) a = Some s \<and> in_slot i s))"

definition store_ok :: "AdminInterfaceImpl \<Rightarrow> bool" where
  "store_ok w \<longleftrightarrow> map_ok (objs w) \<and> (\<forall>a s. map_find (objs w) a = Some s \<longrightarrow> a < next_obj w)"

text \<open>Sessions that have been closed, and sessions of the application.\<close>

definition session_over :: "AdminSession \<Rightarrow> bool" where
  "session_over s \<longleftrightarrow> \<not> m_session_valid s \<and> (\<forall>c. m_io_handle s = Some c \<longrightarrow> \<not> m_cb c)"

lemma kept_session_over: "kept s s' \<Longrightarrow> session_over s \<Longrightarrow> session_over s'"
  by (cases "m_io_handle s"; cases "m_io_handle s'") (auto simp: kept_def session_over_def same_inbound_def dest: queues_inbound)

definition lists_ok :: "AdminInterfaceImpl \<Rightarrow> bool" where
  "lists_ok w \<longleftrightarrow> distinct (expired_sessions w) \<and>
     (\<forall>a \<in> set (expired_sessions w). \<exists>s. map_find (objs w) a = Some s \<and> session_over s) \<and>
     (\<forall>a \<in> set (ext_sessions w). map_find (objs w) a \<noteq> None \<and> a \<notin> set (expired_sessions w) \<and> Some a \<notin> set (m_reg w))"

definition tables_ok :: "Monitor \<Rightarrow> bool" where
  "tables_ok m \<longleftrightarrow> mon_ok m \<and> subs_of m \<subseteq> {1..MAX_SESSIONS}"

definition admins_ok :: "(string, target AdminCommand) stdmap \<Rightarrow> bool" where
  "admins_ok as \<longleftrightarrow> map_ok as \<and>
     (\<forall>n c. map_find as n = Some c \<longrightarrow> m_target c = Some DropSessionCmd \<longrightarrow> n = ''drop_session'') \<and>
     (\<exists>c. map_find as ''drop_session'' = Some c \<and> m_target c = Some DropSessionCmd)"

definition reg_ok :: "AdminInterfaceImpl \<Rightarrow> bool" where
  "reg_ok w \<longleftrightarrow> slots_ok w \<and> store_ok w \<and> lists_ok w \<and> tables_ok (m_monitor w) \<and> admins_ok (m_admins w)"

text \<open>How the methods below change the service.\<close>

definition evolves :: "AdminInterfaceImpl \<Rightarrow> AdminInterfaceImpl \<Rightarrow> bool" where
  "evolves w w' \<longleftrightarrow> m_reg w' = m_reg w \<and> m_next w' = m_next w \<and> next_obj w' = next_obj w \<and>
     createdCount w' = createdCount w \<and> expired_sessions w' = expired_sessions w \<and>
     ext_sessions w' = ext_sessions w \<and> orphans w' = orphans w \<and>
     (\<forall>a. rel_option kept (map_find (objs w) a) (map_find (objs w') a))"

lemma evolves_refl [simp]: "evolves w w"
  by (simp add: evolves_def option.rel_refl)

lemma evolves_trans:
  assumes "evolves u v" "evolves v w"
  shows "evolves u w"
proof -
  have "rel_option kept (map_find (objs u) a) (map_find (objs w) a)" for a
  proof -
    have "rel_option kept (map_find (objs u) a) (map_find (objs v) a)"
      "rel_option kept (map_find (objs v) a) (map_find (objs w) a)"
      using assms by (simp_all add: evolves_def)
    then show ?thesis
      by (cases "map_find (objs u) a"; cases "map_find (objs v) a"; cases "map_find (objs w) a")
        (auto intro: kept_trans)
  qed
  then show ?thesis using assms by (simp add: evolves_def)
qed

lemma evolves_live: "evolves w w' \<Longrightarrow> map_find (objs w') a = None \<longleftrightarrow> map_find (objs w) a = None"
  unfolding evolves_def by (metis rel_option_None1 rel_option_None2)

lemma evolves_obj:
  assumes "evolves w w'" "map_find (objs w) a = Some s"
  obtains s' where "map_find (objs w') a = Some s'" "kept s s'"
proof -
  have "rel_option kept (map_find (objs w) a) (map_find (objs w') a)" using assms(1) by (simp add: evolves_def)
  then show ?thesis using assms(2) that by (auto simp: option_rel_Some1)
qed

lemma kept_in_slot: "kept s s' \<Longrightarrow> in_slot i s \<Longrightarrow> in_slot i s'"
  by (cases "m_io_handle s"; cases "m_io_handle s'") (auto simp: kept_def in_slot_def)

text \<open>The parts of the invariant that follow from \<open>evolves\<close>.\<close>

lemma evolves_frame:
  "evolves w w' \<Longrightarrow> m_reg w' = m_reg w \<and> m_next w' = m_next w \<and> next_obj w' = next_obj w \<and>
    expired_sessions w' = expired_sessions w \<and> ext_sessions w' = ext_sessions w"
  by (simp add: evolves_def)

lemma slots_ok_evolves:
  assumes "slots_ok w" "evolves w w'"
  shows "slots_ok w'"
proof -
  have "\<exists>s. map_find (objs w') a = Some s \<and> in_slot i s" if i: "i < SESSION_REG_SIZE" "m_reg w ! i = Some a" for i a
  proof -
    obtain s where s: "map_find (objs w) a = Some s" "in_slot i s" using assms(1) i unfolding slots_ok_def by blast
    obtain s' where "map_find (objs w') a = Some s'" "kept s s'" using evolves_obj [OF assms(2) s(1)] .
    then show ?thesis using kept_in_slot s(2) by blast
  qed
  then show ?thesis
    using assms(1) evolves_frame [OF assms(2)] by (simp add: slots_ok_def)
qed

lemma store_ok_evolves: "store_ok w \<Longrightarrow> evolves w w' \<Longrightarrow> map_ok (objs w') \<Longrightarrow> store_ok w'"
  unfolding store_ok_def using evolves_live evolves_frame by (metis not_None_eq)

lemma lists_ok_evolves:
  assumes "lists_ok w" "evolves w w'"
  shows "lists_ok w'"
proof -
  have "\<exists>s. map_find (objs w') a = Some s \<and> session_over s" if x: "a \<in> set (expired_sessions w)" for a
  proof -
    obtain s where s: "map_find (objs w) a = Some s" "session_over s"
      using assms(1) x unfolding lists_ok_def by blast
    obtain s' where "map_find (objs w') a = Some s'" "kept s s'" using evolves_obj [OF assms(2) s(1)] .
    then show ?thesis using s(2) kept_session_over by blast
  qed
  then show ?thesis
    using assms(1) evolves_frame [OF assms(2)] evolves_live [OF assms(2)] by (simp add: lists_ok_def del: not_None_eq)
qed

lemma reg_ok_evolves:
  "reg_ok w \<Longrightarrow> evolves w w' \<Longrightarrow> map_ok (objs w') \<Longrightarrow> tables_ok (m_monitor w') \<Longrightarrow> admins_ok (m_admins w') \<Longrightarrow>
   reg_ok w'"
  unfolding reg_ok_def using slots_ok_evolves store_ok_evolves lists_ok_evolves by blast

section \<open>Sound methods\<close>

text \<open>\<open>L\<close> are addresses known to be alive.\<close>

definition sound :: "nat set \<Rightarrow> 'a act \<Rightarrow> bool" where
  "sound L act \<longleftrightarrow> (\<forall>w. reg_ok w \<longrightarrow> (\<forall>a \<in> L. map_find (objs w) a \<noteq> None) \<longrightarrow>
     evolves w (fst (act w)) \<and> reg_ok (fst (act w)) \<and> (\<forall>e. snd (act w) = Inl e \<longrightarrow> \<not> undefined_access e))"

named_theorems sound_intros "methods that keep the registry"

lemma soundD:
  assumes "sound L act" "reg_ok w" "\<And>a. a \<in> L \<Longrightarrow> map_find (objs w) a \<noteq> None"
  shows "evolves w (fst (act w))" "reg_ok (fst (act w))" "snd (act w) = Inl e \<Longrightarrow> \<not> undefined_access e"
  using assms by (auto simp: sound_def)

lemma sound_ret [sound_intros]: "sound L (ret x)"
  by (simp add: sound_def ret_def)

lemma sound_raise [sound_intros]: "\<not> undefined_access e \<Longrightarrow> sound L (raise e)"
  by (simp add: sound_def raise_def)

lemma sound_bind:
  assumes "sound L m" "\<And>x. sound L (f x)"
  shows "sound L (bindA m f)"
  unfolding sound_def
proof (intro allI impI)
  fix w
  assume w: "reg_ok w" "\<forall>a \<in> L. map_find (objs w) a \<noteq> None"
  obtain w1 r where m: "m w = (w1, r)" by (cases "m w")
  have 1: "evolves w w1" "reg_ok w1" "\<And>e. r = Inl e \<Longrightarrow> \<not> undefined_access e"
    using soundD [OF assms(1) w(1)] w(2) m by auto
  have L: "map_find (objs w1) a \<noteq> None" if "a \<in> L" for a
    using w(2) that evolves_live [OF 1(1)] by simp
  show "evolves w (fst (bindA m f w)) \<and> reg_ok (fst (bindA m f w)) \<and>
      (\<forall>e. snd (bindA m f w) = Inl e \<longrightarrow> \<not> undefined_access e)"
  proof (cases r)
    case (Inl e)
    then show ?thesis using m 1 by (simp add: bindA_def)
  next
    case (Inr x)
    then show ?thesis
      using m soundD [OF assms(2) [of x] 1(2) L] evolves_trans [OF 1(1)] by (simp add: bindA_def)
  qed
qed

lemma sound_mono: "sound L act \<Longrightarrow> L \<subseteq> M \<Longrightarrow> sound M act"
  unfolding sound_def by blast

lemma sound_forA: "(\<And>x. x \<in> set xs \<Longrightarrow> sound L (f x)) \<Longrightarrow> sound L (forA xs f)"
  by (induction xs) (auto intro: sound_ret sound_bind)

lemma sound_mapA: "(\<And>x. x \<in> set xs \<Longrightarrow> sound L (f x)) \<Longrightarrow> sound L (mapA xs f)"
  by (induction xs) (auto intro!: sound_ret sound_bind)

lemma sound_deref [sound_intros]: "a \<in> L \<Longrightarrow> sound L (deref a)"
  by (auto simp: sound_def deref_def split: option.split)

lemma sound_state: "(\<And>w. reg_ok w \<Longrightarrow> sound L (f w)) \<Longrightarrow> sound L (\<lambda>w. f w w)"
  by (simp add: sound_def)

lemma evolves_set_obj:
  "map_find (objs w) a = Some s \<Longrightarrow> kept s s' \<Longrightarrow> evolves w (set_obj a s' w)"
  by (simp add: evolves_def set_obj_def map_find_assign option.rel_refl)

lemma reg_ok_set_obj:
  assumes "reg_ok w" "map_find (objs w) a = Some s" "kept s s'"
  shows "reg_ok (set_obj a s' w)"
  by (rule reg_ok_evolves [OF assms(1) evolves_set_obj [OF assms(2,3)]])
    (use assms(1) in \<open>simp_all add: reg_ok_def store_ok_def set_obj_def map_ok_assign\<close>)

text \<open>A read of an object followed by a write of what was made of it.\<close>

lemma sound_read_write [sound_intros]:
  assumes "a \<in> L" "\<And>s. kept s (g s)"
  shows "sound L (bindA (deref a) (\<lambda>s. if P s then modify (set_obj a (g s)) else ret ()))"
  using assms evolves_set_obj reg_ok_set_obj
  by (fastforce simp: sound_def bindA_def deref_def modify_def ret_def split: option.split)

lemma sound_update_obj [sound_intros]:
  "a \<in> L \<Longrightarrow> (\<And>s. kept s (f s)) \<Longrightarrow> sound L (update_obj a f)"
  using sound_read_write [of a L f "\<lambda>_. True"] by (simp add: update_obj_def)

lemma sound_send_ptr [sound_intros]: "a \<in> L \<Longrightarrow> sound L (send_ptr lim ms a)"
  unfolding send_ptr_def by (rule sound_read_write) simp_all

lemma sound_slot: "i < SESSION_REG_SIZE \<Longrightarrow> sound L (slot i)"
  by (auto simp: sound_def slot_def reg_ok_def slots_ok_def nth_opt_def)

lemma slot_pointer:
  "reg_ok w \<Longrightarrow> i < SESSION_REG_SIZE \<Longrightarrow> slot i w = (w, Inr (m_reg w ! i)) \<and>
   (\<forall>a. m_reg w ! i = Some a \<longrightarrow> (\<exists>s. map_find (objs w) a = Some s \<and> in_slot i s))"
  by (simp add: slot_def reg_ok_def slots_ok_def nth_opt_def)

lemma sound_slot_then:
  assumes i: "i < SESSION_REG_SIZE" and f: "sound L (f None)" "\<And>a. sound (insert a L) (f (Some a))"
  shows "sound L (bindA (slot i) f)"
  unfolding sound_def
proof (intro allI impI)
  fix w
  assume w: "reg_ok w" "\<forall>a \<in> L. map_find (objs w) a \<noteq> None"
  note s = slot_pointer [OF w(1) i]
  then have b: "bindA (slot i) f w = f (m_reg w ! i) w" by (simp add: bindA_def)
  show "evolves w (fst (bindA (slot i) f w)) \<and> reg_ok (fst (bindA (slot i) f w)) \<and>
      (\<forall>e. snd (bindA (slot i) f w) = Inl e \<longrightarrow> \<not> undefined_access e)"
  proof (cases "m_reg w ! i")
    case None
    then show ?thesis using soundD [OF f(1) w(1)] w(2) b by simp
  next
    case (Some a)
    have "map_find (objs w) x \<noteq> None" if "x \<in> insert a L" for x
      using that s Some w(2) by auto
    with soundD [OF f(2) [of a] w(1)] b Some show ?thesis by metis
  qed
qed

lemma sound_on_slot:
  "i < SESSION_REG_SIZE \<Longrightarrow> (\<And>a. sound (insert a L) (f a)) \<Longrightarrow> sound L (on_slot i f)"
  unfolding on_slot_def by (rule sound_slot_then) (simp_all add: sound_ret)

lemma sound_every_slot: "(\<And>a. sound (insert a L) (f a)) \<Longrightarrow> sound L (every_slot f)"
  unfolding every_slot_def by (intro sound_forA sound_on_slot) auto

lemma sound_send_one: "i < SESSION_REG_SIZE \<Longrightarrow> sound L (send_one lim m i)"
  unfolding send_one_def by (rule sound_on_slot) (auto intro: sound_send_ptr)

lemma sound_send_all: "sound L (send_all lim m)"
  unfolding send_all_def by (rule sound_every_slot) (auto intro: sound_send_ptr)

lemma sound_session_exists: "i < SESSION_REG_SIZE \<Longrightarrow> sound L (session_exists i)"
  unfolding session_exists_def by (intro sound_bind sound_slot sound_ret)

lemma sound_session_open: "i < SESSION_REG_SIZE \<Longrightarrow> sound L (session_open i)"
  unfolding session_open_def by (rule sound_slot_then) (auto intro: sound_ret sound_bind sound_deref)

lemma sound_session_info: "i < SESSION_REG_SIZE \<Longrightarrow> sound L (session_info i)"
  unfolding session_info_def by (rule sound_slot_then) (auto intro: sound_ret sound_bind sound_deref)

lemma sound_stop_one: "i < SESSION_REG_SIZE \<Longrightarrow> sound L (session_stop_one i)"
  unfolding session_stop_one_def by (rule sound_on_slot) (auto intro: sound_update_obj)

lemma sound_stop_all: "sound L session_stop_all"
  unfolding session_stop_all_def by (rule sound_every_slot) (auto intro: sound_update_obj)

end
