(* ===== verification/Service_Methods.thy ===== *)
theory Service_Methods
  imports Service_Laws
begin

text \<open>
  The methods of the service that are sound: calls of the monitor, the commands, the public
  interface and the handling of messages.
\<close>

section \<open>The monitor\<close>

lemma slots_session:
  "reg_ok w \<Longrightarrow> i \<in> set (used_slots w) \<Longrightarrow> i \<in> {1..MAX_SESSIONS} \<and>
   (\<exists>a s. slot i w = (w, Inr (Some a)) \<and> map_find (objs w) a = Some s \<and> m_id s = i)"
proof -
  assume w: "reg_ok w" and i: "i \<in> set (used_slots w)"
  have i': "i < SESSION_REG_SIZE" "m_reg w ! i \<noteq> None" using i by (simp_all add: used_slots_def)
  have "m_reg w ! 0 = None" using w by (simp add: reg_ok_def slots_ok_def)
  then have "i \<noteq> 0" using i'(2) by metis
  moreover obtain a where a: "m_reg w ! i = Some a" using i'(2) by blast
  moreover obtain s where "map_find (objs w) a = Some s" "in_slot i s"
    using slot_pointer [OF w i'(1)] a by blast
  ultimately show ?thesis using slot_pointer [OF w i'(1)] i'(1) by (auto simp: in_slot_def)
qed

lemma session_list_ok:
  assumes "reg_ok w"
  shows "session_list w = (w, Inr (used_slots w))" "set (used_slots w) \<subseteq> {1..MAX_SESSIONS}"
proof -
  let ?f = "\<lambda>i. bindA (slot i) (\<lambda>p. case p of
        None \<Rightarrow> raise (UndefinedAccess ''session registry'')
      | Some a \<Rightarrow> bindA (deref a) (\<lambda>s. ret (m_id s)))"
  have f: "?f i w = (w, Inr i)" if "i \<in> set (used_slots w)" for i
    using slots_session [OF assms that] by (auto simp: bindA_def deref_def ret_def)
  have "mapA is ?f w = (w, Inr is)" if "set is \<subseteq> set (used_slots w)" for "is"
    using that
  proof (induction "is")
    case (Cons i "is")
    then show ?case using f [of i] by (simp add: bindA_def ret_def)
  qed (simp add: ret_def)
  then show "session_list w = (w, Inr (used_slots w))" by (simp add: session_list_def)
  show "set (used_slots w) \<subseteq> {1..MAX_SESSIONS}" using slots_session [OF assms] by blast
qed

lemma sound_session_list: "sound L session_list"
  by (simp add: sound_def session_list_ok)

lemma live_slot: "reg_ok w \<Longrightarrow> live_session w i \<Longrightarrow> i < SESSION_REG_SIZE"
  by (auto simp: live_session_def nth_opt_def reg_ok_def slots_ok_def split: if_splits)

text \<open>A call of the monitor that behaves, with sessions that are slots.\<close>

lemma sound_run_monitor_at:
  assumes w: "reg_ok w" and S: "S \<subseteq> {1..MAX_SESSIONS}"
    and f: "mon_behaved (live_session w) S (m_monitor w) (f (live_session w) (m_monitor w))"
  shows "evolves w (fst (run_monitor lim f w)) \<and> reg_ok (fst (run_monitor lim f w)) \<and>
    (\<forall>e. snd (run_monitor lim f w) = Inl e \<longrightarrow> \<not> undefined_access e)"
proof -
  obtain m out err where r: "f (live_session w) (m_monitor w) = (m, out, err)"
    by (cases "f (live_session w) (m_monitor w)")
  have m: "mon_ok m" "subs_of m \<subseteq> subs_of (m_monitor w) \<union> S" "fst ` set out \<subseteq> Collect (live_session w) \<union> S"
    "\<And>x. err = Some x \<Longrightarrow> \<not> undefined_access x"
    using f r by (simp_all add: mon_behaved_def)
  let ?w = "w\<lparr>m_monitor := m\<rparr>"
  have ev: "evolves w ?w" by (simp add: evolves_def option.rel_refl)
  have t: "tables_ok m" using m(1,2) S w by (auto simp: tables_ok_def reg_ok_def)
  have ok: "reg_ok ?w"
    by (rule reg_ok_evolves [OF w ev]) (use w t in \<open>simp_all add: reg_ok_def store_ok_def\<close>)
  have "fst p < SESSION_REG_SIZE" if "p \<in> set out" for p
    using m(3) that live_slot [OF w] S by fastforce
  then have "sound {} (send_each lim out)"
    unfolding send_each_def by (intro sound_forA) (auto intro: sound_send_one)
  then have s: "sound {} (bindA (send_each lim out) (\<lambda>_. case err of None \<Rightarrow> ret () | Some e \<Rightarrow> raise e))"
    using m(4) by (intro sound_bind) (auto intro: sound_ret sound_raise split: option.split)
  show ?thesis
    using soundD [OF s ok] evolves_trans [OF ev] r by (auto simp: run_monitor_def)
qed

lemma sound_run_monitor:
  assumes "S \<subseteq> {1..MAX_SESSIONS}" "\<And>live m. mon_ok m \<Longrightarrow> mon_behaved live S m (f live m)"
  shows "sound L (run_monitor lim f)"
  unfolding sound_def
  using sound_run_monitor_at [OF _ assms(1), where f = f] assms(2) by (simp add: reg_ok_def tables_ok_def)

lemma sound_run_monitor_all:
  assumes "\<And>live ss m. mon_ok m \<Longrightarrow> mon_behaved live (set ss) m (f live ss m)"
  shows "sound L (run_monitor_all lim f)"
  unfolding sound_def
proof (intro allI impI)
  fix w
  assume w: "reg_ok w"
  note l = session_list_ok [OF w]
  have "run_monitor_all lim f w = run_monitor lim (\<lambda>live. f live (used_slots w)) w"
    by (simp add: run_monitor_all_def bindA_def l)
  then show "evolves w (fst (run_monitor_all lim f w)) \<and> reg_ok (fst (run_monitor_all lim f w)) \<and>
      (\<forall>e. snd (run_monitor_all lim f w) = Inl e \<longrightarrow> \<not> undefined_access e)"
    using sound_run_monitor_at [OF w l(2), where f = "\<lambda>live. f live (used_slots w)"] assms w
    by (simp add: reg_ok_def tables_ok_def)
qed

section \<open>The public interface\<close>

text \<open>
  The calls an application can make: the fields of an update are a map, and its commands are
  its own.
\<close>

fun call_ok :: "api_call \<Rightarrow> bool" where
  "call_ok (AddAdmin c) \<longleftrightarrow> m_target c \<notin> {None, Some DropSessionCmd}"
| "call_ok (MonitorUpdate tn rk up) \<longleftrightarrow> map_ok up"
| "call_ok _ \<longleftrightarrow> True"

lemma admins_ok_insert:
  "admins_ok as \<Longrightarrow> m_target c \<noteq> Some DropSessionCmd \<Longrightarrow> admins_ok (map_insert (cmd_name c) c as)"
proof -
  assume as: "admins_ok as" and c: "m_target c \<noteq> Some DropSessionCmd"
  have ok: "map_ok as" using as by (simp add: admins_ok_def)
  have f: "map_find (map_insert (cmd_name c) c as) n =
      (if n = cmd_name c \<and> map_find as n = None then Some c else map_find as n)" for n
    by (simp add: map_find_insert [OF ok] split: option.split)
  show ?thesis
    using as c unfolding admins_ok_def f by (simp add: map_ok_insert [OF ok]) (metis option.discI)
qed

lemma sound_add_admin:
  assumes "m_target c \<noteq> Some DropSessionCmd"
  shows "sound L (modify (admin_add c))"
  unfolding sound_def
proof (intro allI impI)
  fix w assume w: "reg_ok w"
  have ev: "evolves w (admin_add c w)" by (simp add: admin_add_def evolves_def option.rel_refl)
  have "reg_ok (admin_add c w)"
    by (rule reg_ok_evolves [OF w ev])
      (use w assms in \<open>simp_all add: reg_ok_def store_ok_def admin_add_def admins_ok_insert\<close>)
  then show "evolves w (fst (modify (admin_add c) w)) \<and> reg_ok (fst (modify (admin_add c) w)) \<and>
      (\<forall>e. snd (modify (admin_add c) w) = Inl e \<longrightarrow> \<not> undefined_access e)"
    using ev by (simp add: modify_def)
qed

lemma sound_api:
  assumes "call_ok call"
  shows "sound L (api env call)"
proof (cases call)
  case (AddAdmin c)
  then obtain t where "m_target c = Some t" "t \<noteq> DropSessionCmd" using assms by auto
  then show ?thesis using AddAdmin sound_add_admin [of "c\<lparr>m_target := Some t\<rparr>"] by (simp add: copy_AdminCommand_def)
next
  case (MonitorAlert a b c d e f)
  then show ?thesis by (simp add: sound_send_all)
next
  case (ClearTable tn)
  then show ?thesis
    by (simp, intro sound_run_monitor [of "{}"]) (use mon_behaved_ops [where ss = "[]"] in simp_all)
next
  case (DeleteRow tn rk)
  then show ?thesis
    by (simp, intro sound_run_monitor [of "{}"]) (use mon_behaved_ops [where ss = "[]"] in simp_all)
next
  case (MonitorSnapshot tn)
  then show ?thesis
    by (simp, intro sound_run_monitor [of "{}"]) (use mon_behaved_ops [where ss = "[]"] in simp_all)
next
  case MonitorSnapshotAll
  then show ?thesis
    by (simp, intro sound_run_monitor [of "{}"]) (use mon_behaved_ops [where ss = "[]"] in simp_all)
qed (use assms in \<open>simp_all, auto intro!: sound_run_monitor_all mon_behaved_ops\<close>)

end
