(* ===== verification/Service_Requests.thy ===== *)
theory Service_Requests
  imports Service_Methods
begin

text \<open>
  The handling of messages keeps the registry: every built-in command, the commands of an
  application, requests and logons.  The one command that can leave the registry is
  \<^verbatim>\<open>drop_session\<close>, whose arguments are used as indexes; \<open>acceptable\<close> excludes those requests.
\<close>

section \<open>Commands\<close>

lemma sound_session_row:
  assumes i: "i < SESSION_REG_SIZE"
  shows "sound L (session_row i)"
  unfolding session_row_def Let_def
  by (rule sound_bind [OF sound_session_info [OF i]], rule sound_slot_then [OF i])
    (auto intro!: sound_bind sound_deref sound_ret)

lemma sound_session_list_then:
  assumes "\<And>sids. set sids \<subseteq> {1..MAX_SESSIONS} \<Longrightarrow> sound L (f sids)"
  shows "sound L (bindA session_list f)"
  unfolding sound_def
proof (intro allI impI)
  fix w
  assume w: "reg_ok w" "\<forall>a \<in> L. map_find (objs w) a \<noteq> None"
  note l = session_list_ok [OF w(1)]
  have "bindA session_list f w = f (used_slots w) w" by (simp add: bindA_def l(1))
  then show "evolves w (fst (bindA session_list f w)) \<and> reg_ok (fst (bindA session_list f w)) \<and>
      (\<forall>e. snd (bindA session_list f w) = Inl e \<longrightarrow> \<not> undefined_access e)"
    using assms [OF l(2)] w unfolding sound_def by simp
qed

lemma sound_admincmd_sessions: "sound L (admincmd_sessions req)"
  unfolding admincmd_sessions_def
  by (intro sound_session_list_then sound_bind sound_mapA sound_session_row sound_ret) auto

text \<open>Methods that only read.\<close>

lemma sound_reads: "(\<And>w. \<exists>x. act w = (w, Inr x)) \<Longrightarrow> sound L act"
  by (metis evolves_refl fst_conv snd_conv sound_def sum.distinct(1))

lemma sound_readers:
  "sound L (admincmd_help req)" "sound L (admincmd_info env req)" "sound L (admincmd_list_tables req)"
  "sound L (admincmd_table_subs req)"
  by (rule sound_reads,
      auto simp: admincmd_help_def admincmd_info_def admincmd_list_tables_def admincmd_table_subs_def ret_def
        split: list.split option.split prod.split)+

lemma sound_snapshot: "sound L (admincmd_snapshot env req)"
  unfolding admincmd_snapshot_def
  by (intro sound_bind sound_ret sound_run_monitor [of "{}"]) (use mon_behaved_ops [where ss = "[]"] in simp_all)

lemma sound_subscribe_monitor:
  "i \<in> {1..MAX_SESSIONS} \<Longrightarrow>
   sound L (run_monitor lim (\<lambda>live m. case subscribe_all i m of (m', out) \<Rightarrow> (m', out, None)))"
  by (rule sound_run_monitor [of "{i}"]) (auto intro: mon_behaved_subscribe_all)

lemma sound_subscribe: "req_id req \<in> {1..MAX_SESSIONS} \<Longrightarrow> sound L (admincmd_subscribe env req)"
  unfolding admincmd_subscribe_def by (intro sound_bind sound_ret sound_subscribe_monitor)

definition env_ok :: "env \<Rightarrow> bool" where
  "env_ok env \<longleftrightarrow> env_reactor_threads env \<noteq> []"

lemma sound_if: "sound L x \<Longrightarrow> sound L y \<Longrightarrow> sound L (if b then x else y)"
  by simp

lemma sound_diag_sessions: "sound L (diag_sessions env all sections)"
proof -
  define line where "line i = bindA (slot i) (\<lambda>p. case p of
      None \<Rightarrow> ret '''' | Some a \<Rightarrow> bindA (deref a) (\<lambda>s. ret (session_line env s)))" for i
  have "sound L (line i)" if "i < SESSION_REG_SIZE" for i
    unfolding line_def by (rule sound_slot_then [OF that]) (auto intro!: sound_ret sound_bind sound_deref)
  then have l: "sound L (line i)" if "i \<in> set (used_slots w)" for i w
    using that by (simp add: used_slots_def)
  have "\<exists>f. diag_sessions env all sections = (\<lambda>w. (if all \<or> ''sessions'' \<in> set sections
      then bindA (mapA (used_slots w) line) (\<lambda>lines. ret (f lines)) else ret '''') w)"
    unfolding diag_sessions_def line_def by (rule exI) (rule refl)
  then obtain f where f: "diag_sessions env all sections = (\<lambda>w. (if all \<or> ''sessions'' \<in> set sections
      then bindA (mapA (used_slots w) line) (\<lambda>lines. ret (f lines)) else ret '''') w)" ..
  show ?thesis
    unfolding f by (rule sound_state) (intro sound_if sound_bind sound_mapA sound_ret l)
qed

lemma sound_diags: "env_ok env \<Longrightarrow> sound L (admincmd_diags env req)"
  unfolding admincmd_diags_def Let_def
  by (rule sound_state)
    (auto intro!: sound_bind sound_diag_sessions sound_ret simp: diag_threads_def env_ok_def split: list.split)

lemma sound_stop_sessions:
  "list_all (\<lambda>a. SID_fromString a < SESSION_REG_SIZE) args \<Longrightarrow> sound L (stop_sessions args)"
  by (induction args)
    (auto simp: Let_def intro!: sound_bind sound_ret sound_session_exists sound_stop_one)

lemma sound_del_session:
  "list_all (\<lambda>a. SID_fromString a < SESSION_REG_SIZE) (req_args req) \<Longrightarrow> sound L (admincmd_del_session req)"
  unfolding admincmd_del_session_def
  by (auto intro!: sound_raise sound_bind sound_ret sound_stop_sessions simp: new_AdminError_def)

section \<open>Requests\<close>

text \<open>The commands of an application make calls of the interface and raise exceptions only.\<close>

definition user_ok :: "user_command \<Rightarrow> bool" where
  "user_ok user \<longleftrightarrow> (\<forall>n req w. list_all call_ok (fst (user n req w)) \<and>
     (\<forall>e. snd (user n req w) = Inl e \<longrightarrow> \<not> undefined_access e))"

lemma sound_run_user:
  "list_all call_ok (fst cr) \<Longrightarrow> (\<And>e. snd cr = Inl e \<Longrightarrow> \<not> undefined_access e) \<Longrightarrow> sound L (run_user env cr)"
proof -
  assume calls: "list_all call_ok (fst cr)" and r: "\<And>e. snd cr = Inl e \<Longrightarrow> \<not> undefined_access e"
  have 1: "sound L (forA (fst cr) (api env))"
    using calls by (intro sound_forA sound_api) (simp add: list_all_iff)
  have "sound L (case snd cr of Inl e \<Rightarrow> raise e | Inr resp \<Rightarrow> ret resp)"
    using r by (cases "snd cr") (auto intro: sound_raise sound_ret)
  from sound_bind [OF 1 this] show ?thesis by (simp add: run_user_def case_prod_unfold)
qed

lemma sound_call_target:
  assumes "env_ok env" "user_ok user" "req_id req \<in> {1..MAX_SESSIONS}"
    and "t = DropSessionCmd \<Longrightarrow> list_all (\<lambda>a. SID_fromString a < SESSION_REG_SIZE) (req_args req)"
  shows "sound L (call_target env user t req)"
proof (cases t)
  case (UserTarget n)
  have "sound L (\<lambda>w. run_user env (user n req w) w)"
    by (rule sound_state, rule sound_run_user) (use assms(2) in \<open>simp_all add: user_ok_def\<close>)
  then show ?thesis using UserTarget by simp
qed (simp_all only: call_target.simps sound_readers sound_admincmd_sessions sound_snapshot
    sound_diags [OF assms(1)] sound_del_session [OF assms(4)] sound_subscribe [OF assms(3)])

text \<open>The requests that stay inside the registry.\<close>

definition drops_ok :: "string list \<Rightarrow> bool" where
  "drops_ok args = list_all (\<lambda>a. SID_fromString a < SESSION_REG_SIZE) args"

definition acceptable :: "txContainer \<Rightarrow> bool" where
  "acceptable msg \<longleftrightarrow>
     (cont_name msg = id_msg_request \<longrightarrow> command_name msg = Some ''drop_session'' \<longrightarrow>
      (case new_AdminRequest msg 0 of Inl e \<Rightarrow> True | Inr req \<Rightarrow> drops_ok (req_args req)))"

lemma read_args_exn: "read_args body i n = Inl e \<Longrightarrow> \<not> undefined_access e"
proof (induction body i n rule: read_args.induct)
  case (1 body i n)
  then show ?case
    by (subst (asm) read_args.simps)
      (auto simp: bindR_def split: if_splits option.splits sum.splits)
qed

lemma new_AdminRequest_exn: "new_AdminRequest msg sid = Inl e \<Longrightarrow> \<not> undefined_access e"
  by (auto simp: new_AdminRequest_def Let_def bindR_def split: option.splits sum.splits dest: read_args_exn)

lemma new_AdminRequest_sid:
  "new_AdminRequest msg sid = Inr req \<Longrightarrow> req_id req = sid \<and> (\<exists>r. new_AdminRequest msg 0 = Inr r \<and> req_args r = req_args req)"
  by (auto simp: new_AdminRequest_def Let_def bindR_def split: option.splits sum.splits)

lemma sound_request_response:
  assumes "env_ok env" "user_ok user" "sid \<in> {1..MAX_SESSIONS}" "acceptable msg" "cont_name msg = id_msg_request"
  shows "sound L (request_response env user msg sid)"
proof -
  let ?f = "\<lambda>w. case command_name msg of
      None \<Rightarrow> raise (new_AdminError err_admin_not_found)
    | Some name \<Rightarrow> (case admin_find name w of
        None \<Rightarrow> raise (new_AdminError err_admin_not_found)
      | Some admin \<Rightarrow> (case new_AdminRequest msg sid of
          Inl e \<Rightarrow> raise e | Inr req \<Rightarrow> invoke (call_target env user) admin req))"
  have "sound L (?f w)" if w: "reg_ok w" for w
  proof -
    have "sound L (invoke (call_target env user) admin req)"
      if a: "command_name msg = Some name" "admin_find name w = Some admin" "new_AdminRequest msg sid = Inr req"
      for name admin req
    proof (cases "m_target admin")
      case None
      then have "invoke (call_target env user) admin req = raise (RuntimeError ''command not implemented'')"
        by (simp add: invoke_def raise_def fun_eq_iff)
      then show ?thesis by (simp add: sound_raise)
    next
      case (Some t)
      have "name = ''drop_session''" if "t = DropSessionCmd"
        using w a(2) Some that by (auto simp: reg_ok_def admins_ok_def admin_find_def)
      then have "sound L (call_target env user t req)"
        using assms a new_AdminRequest_sid [OF a(3)]
        by (intro sound_call_target) (auto simp: acceptable_def drops_ok_def)
      moreover have "invoke (call_target env user) admin req = call_target env user t req"
        using Some by (simp add: invoke_def fun_eq_iff)
      ultimately show ?thesis by simp
    qed
    then show ?thesis
      by (auto intro!: sound_raise simp: new_AdminError_def new_AdminRequest_exn split: option.split sum.split)
  qed
  moreover have "request_response env user msg sid = (\<lambda>w. ?f w w)"
    by (auto simp: fun_eq_iff request_response_def raise_def split: option.split sum.split)
  ultimately show ?thesis using sound_state [of L ?f] by simp
qed

section \<open>Answers\<close>

lemma sound_read_write_ret:
  assumes "a \<in> L" "\<And>s. kept s (g s)"
  shows "sound L (bindA (deref a) (\<lambda>s. bindA (modify (set_obj a (g s))) (\<lambda>_. ret (h s))))"
  using assms evolves_set_obj reg_ok_set_obj
  by (fastforce simp: sound_def bindA_def deref_def modify_def ret_def split: option.split)

lemma sound_enqueue_ptr: "a \<in> L \<Longrightarrow> sound L (enqueue_ptr lim a msg)"
  unfolding enqueue_ptr_def case_prod_unfold by (rule sound_read_write_ret) simp_all

lemma sound_send_response: "a \<in> L \<Longrightarrow> sound L (send_response lim a seqno resp)"
  unfolding send_response_def Let_def
  by (intro sound_if sound_bind sound_enqueue_ptr sound_ret sound_read_write) simp_all

section \<open>Messages\<close>

definition serving :: "AdminInterfaceImpl \<Rightarrow> nat \<Rightarrow> bool" where
  "serving w a \<longleftrightarrow> (\<exists>i \<in> {1..MAX_SESSIONS}. m_reg w ! i = Some a)"

lemma serving_evolves: "evolves w w' \<Longrightarrow> serving w' a = serving w a"
  by (simp add: serving_def evolves_def)

lemma serving_obj:
  assumes "reg_ok w" "serving w a"
  obtains i s where "i \<in> {1..MAX_SESSIONS}" "m_reg w ! i = Some a" "map_find (objs w) a = Some s" "in_slot i s"
proof -
  obtain i where i: "i \<in> {1..MAX_SESSIONS}" "m_reg w ! i = Some a" using assms(2) by (auto simp: serving_def)
  then have "i < SESSION_REG_SIZE" by simp
  then show ?thesis using slot_pointer [OF assms(1), of i] i that by blast
qed

text \<open>A method that keeps the registry when it works for a session in a slot.\<close>

definition safe_for :: "nat \<Rightarrow> 'a act \<Rightarrow> bool" where
  "safe_for a act \<longleftrightarrow> (\<forall>w. reg_ok w \<longrightarrow> serving w a \<longrightarrow>
     evolves w (fst (act w)) \<and> reg_ok (fst (act w)) \<and> (\<forall>e. snd (act w) = Inl e \<longrightarrow> \<not> undefined_access e))"

lemma safe_for_deref:
  assumes "\<And>i s. i \<in> {1..MAX_SESSIONS} \<Longrightarrow> in_slot i s \<Longrightarrow> sound {a} (f s)"
  shows "safe_for a (bindA (deref a) f)"
  unfolding safe_for_def
proof (intro allI impI)
  fix w
  assume w: "reg_ok w" "serving w a"
  obtain i s where s: "i \<in> {1..MAX_SESSIONS}" "map_find (objs w) a = Some s" "in_slot i s"
    using serving_obj [OF w] .
  have "bindA (deref a) f w = f s w" using s(2) by (simp add: bindA_def deref_def)
  then show "evolves w (fst (bindA (deref a) f w)) \<and> reg_ok (fst (bindA (deref a) f w)) \<and>
      (\<forall>e. snd (bindA (deref a) f w) = Inl e \<longrightarrow> \<not> undefined_access e)"
    using soundD [OF assms [OF s(1,3)] w(1)] s(2) by simp
qed

lemma sound_handle_response:
  assumes "sound {a} r"
  shows "sound {a} (\<lambda>w. case r w of
      (w1, Inl e) \<Rightarrow> if undefined_access e then (w1, Inl e) else send_response lim a seqno (f e) w1
    | (w1, Inr resp) \<Rightarrow> send_response lim a seqno (g resp) w1)"
  unfolding sound_def
proof (intro allI impI)
  fix w
  assume w: "reg_ok w" "\<forall>x \<in> {a}. map_find (objs w) x \<noteq> None"
  obtain w1 x where r: "r w = (w1, x)" by (cases "r w")
  have 1: "evolves w w1" "reg_ok w1" "\<And>e. x = Inl e \<Longrightarrow> \<not> undefined_access e"
    using soundD [OF assms w(1)] w(2) r by auto
  have a: "map_find (objs w1) y \<noteq> None" if "y \<in> {a}" for y
    using w(2) that evolves_live [OF 1(1)] by simp
  have send: "evolves w (fst (send_response lim a seqno y w1)) \<and> reg_ok (fst (send_response lim a seqno y w1)) \<and>
      (\<forall>e. snd (send_response lim a seqno y w1) = Inl e \<longrightarrow> \<not> undefined_access e)" for y
    using soundD [OF sound_send_response [of a "{a}"] 1(2) a] evolves_trans [OF 1(1)] by simp
  show "evolves w (fst (case r w of
      (w1, Inl e) \<Rightarrow> if undefined_access e then (w1, Inl e) else send_response lim a seqno (f e) w1
    | (w1, Inr resp) \<Rightarrow> send_response lim a seqno (g resp) w1)) \<and>
    reg_ok (fst (case r w of
      (w1, Inl e) \<Rightarrow> if undefined_access e then (w1, Inl e) else send_response lim a seqno (f e) w1
    | (w1, Inr resp) \<Rightarrow> send_response lim a seqno (g resp) w1)) \<and>
    (\<forall>e. snd (case r w of
      (w1, Inl e) \<Rightarrow> if undefined_access e then (w1, Inl e) else send_response lim a seqno (f e) w1
    | (w1, Inr resp) \<Rightarrow> send_response lim a seqno (g resp) w1) = Inl e \<longrightarrow> \<not> undefined_access e)"
    using send 1(3) r by (cases x) simp_all
qed

lemma safe_for_request:
  assumes "env_ok env" "user_ok user" "acceptable msg" "cont_name msg = id_msg_request"
  shows "safe_for a (handle_admin_request env user msg a)"
  unfolding handle_admin_request_def
  by (rule safe_for_deref, rule sound_handle_response, rule sound_request_response)
    (use assms in \<open>auto simp: in_slot_def\<close>)

lemma safe_for_logon: "safe_for a (handle_logon_msg env msg a)"
  unfolding handle_logon_msg_def
proof (rule safe_for_deref, intro sound_bind sound_if sound_subscribe_monitor sound_ret sound_update_obj)
  fix i s
  assume "i \<in> {1..MAX_SESSIONS}" "in_slot i s"
  then have "m_id s < SESSION_REG_SIZE" by (auto simp: in_slot_def)
  then show "sound {a} (\<lambda>w. send_one (env_lim env) (serialise_admins w) (m_id s) w)"
    by (intro sound_state [of _ "\<lambda>w. send_one (env_lim env) (serialise_admins w) (m_id s)"] sound_send_one)
qed (auto simp: in_slot_def)

lemma safe_for_message:
  assumes "env_ok env" "user_ok user" "acceptable msg"
  shows "safe_for a (session_msg_received env user msg a)"
  using safe_for_request [OF assms] safe_for_logon [of a env msg]
  by (auto simp: session_msg_received_def safe_for_def ret_def)

end
