(* ===== verification/Service_Listener.thy ===== *)
theory Service_Listener
  imports Service_Requests
begin

text \<open>
  The contract between a session and its listener, as a locale, and what follows from it: the
  session is a receiver of its connection.  The service satisfies the contract.
\<close>

section \<open>The contract\<close>

definition like :: "AdminSession \<Rightarrow> AdminSession \<Rightarrow> bool" where
  "like s s' \<longleftrightarrow> m_id s' = m_id s \<and> m_session_valid s' = m_session_valid s \<and> m_listener s' = m_listener s \<and>
     (m_io_handle s \<noteq> None \<longrightarrow> m_io_handle s' \<noteq> None)"

lemma kept_like: "kept s s' \<Longrightarrow> like s s'"
  by (cases "m_io_handle s"; cases "m_io_handle s'") (auto simp: kept_def like_def)

lemma like_trans: "like s t \<Longrightarrow> like t u \<Longrightarrow> like s u"
  by (auto simp: like_def)

lemma like_updates [simp]:
  "like s (io_init c s)" "like s (s\<lparr>handed := ms\<rparr>)" "like s (logon_session m s)"
  by (auto simp: like_def io_init_def logon_session_def)

lemma logon_session_frame [simp]:
  "handed (logon_session m s) = handed s" "m_io_handle (logon_session m s) = m_io_handle s"
  "m_session_valid (logon_session m s) = m_session_valid s" "m_listener (logon_session m s) = m_listener s"
  by (simp_all add: logon_session_def)

text \<open>
  \<open>good\<close> is an invariant of the session and the rest of the process.  A message that is
  accepted keeps it, may queue output, and does not make an undefined access.
\<close>

locale session_listener =
  fixes lim :: nat
    and h :: "'w listener"
    and hc :: "AdminSession \<times> 'w \<Rightarrow> (AdminSession \<times> 'w) \<times> unit res"
    and accept :: "txContainer \<Rightarrow> bool"
    and good :: "AdminSession \<times> 'w \<Rightarrow> bool"
  assumes good_open: "good (s, w) \<Longrightarrow> m_session_valid s \<and> m_listener s"
    and good_like: "good (s, w) \<Longrightarrow> like s s' \<Longrightarrow> good (s', w)"
    and h_good: "good (s, w) \<Longrightarrow> accept m \<Longrightarrow> \<exists>s' w' r. h m (s, w) = ((s', w'), r) \<and> good (s', w') \<and> kept s s' \<and>
       (\<forall>e. r = Inl e \<longrightarrow> \<not> undefined_access e)"
    and hc_handed: "handed (fst (fst (hc (s, w)))) = handed s"
    and hc_defined: "good (s, w) \<Longrightarrow> snd (hc (s\<lparr>m_session_valid := False\<rparr>, w)) = Inl e \<Longrightarrow> \<not> undefined_access e"
begin

lemma io_onmsg_good:
  assumes "good (s, w)" "accept m"
  obtains s' w' r where "io_onmsg h m (s, w) = ((s', w'), r)" "good (s', w')" "handed s' = handed s @ [m]"
    "rel_option queues (m_io_handle s) (m_io_handle s')" "\<And>e. r = Inl e \<Longrightarrow> \<not> undefined_access e"
proof -
  define s1 where "s1 = (if cont_name m = id_msg_logon then logon_session m s else s)"
  let ?s = "s1\<lparr>handed := handed s1 @ [m]\<rparr>"
  have "like s s1" by (simp add: s1_def) (simp add: like_def)
  then have "good (?s, w)" using good_like [OF assms(1)] like_trans [of s s1 ?s] by simp
  then obtain s' w' r where h: "h m (?s, w) = ((s', w'), r)" "good (s', w')" "kept ?s s'"
    "\<forall>e. r = Inl e \<longrightarrow> \<not> undefined_access e"
    using h_good [OF _ assms(2)] by metis
  have 1: "handed s1 = handed s" "m_io_handle s1 = m_io_handle s" "m_session_valid s1 = m_session_valid s"
    "m_listener s1 = m_listener s"
    by (simp_all add: s1_def)
  have "io_onmsg h m (s, w) = ((s', w'), r)"
    using good_open [OF assms(1)] h(1) 1(3,4) by (simp add: io_onmsg_def s1_def [symmetric] Let_def)
  then show ?thesis
    by (rule that) (use h(2-4) 1(1,2) in \<open>simp_all add: kept_def\<close>)
qed

lemma session_input_message:
  assumes "good (s, w)" "accept m" "length bs < 2 ^ 31" "decodeMsg (new_container '''') bs = Inr (m, n)" "0 < n"
  shows "\<exists>c' e'. session_input lim h (c, s, w) bs = ((c', e'), Inr n) \<and> handed (fst e') = handed s @ [m] \<and> good e' \<and>
    queues c c'"
proof -
  have "good (io_init c s, w)" using good_like [OF assms(1)] by simp
  then obtain s' w' r where m: "io_onmsg h m (io_init c s, w) = ((s', w'), r)" "good (s', w')"
    "handed s' = handed (io_init c s) @ [m]" "rel_option queues (m_io_handle (io_init c s)) (m_io_handle s')"
    "\<And>e. r = Inl e \<Longrightarrow> \<not> undefined_access e"
    using io_onmsg_good [OF _ assms(2)] by blast
  obtain c' where c': "m_io_handle s' = Some c'" "queues c c'"
    using m(4) by (auto simp: io_init_def option_rel_Some1)
  have "process_input lim h bs (io_init c s, w) = ((s', w'), Inr n)"
    using assms(3-5) m(1,5) by (cases r) (auto simp: process_input_def)
  then have "session_input lim h (c, s, w) bs = ((c', s', w'), Inr n)"
    using c' by (simp add: session_input_def handle_of_def)
  then show ?thesis using m(2,3) c'(2) by (auto simp: io_init_def)
qed

end

text \<open>A listener makes the session a receiver of its connection.\<close>

sublocale session_listener \<subseteq> receiver "decodeMsg (new_container '''')" wire "\<lambda>m. sam_sendable m \<and> accept m"
  "session_input lim h" "session_close hc" "\<lambda>e. handed (fst e)" good
proof
  fix c :: Client and e :: "AdminSession \<times> 'w" and bs m n
  assume a: "m_cb c" "good e" "length bs < 2 ^ 31" "decodeMsg (new_container '''') bs = Inr (m, n)" "0 < n"
    "sam_sendable m \<and> accept m"
  obtain s w where e: "e = (s, w)" by (cases e)
  show "\<exists>c' e'. session_input lim h (c, e) bs = ((c', e'), Inr n) \<and> handed (fst e') = handed (fst e) @ [m] \<and> good e' \<and>
      m_cb c' \<and> m_datafifo c' = m_datafifo c \<and> m_io_closed c' = m_io_closed c"
    using session_input_message [of s w m bs n c] a e queues_inbound by (fastforce simp: same_inbound_def)
next
  fix c :: Client and e :: "AdminSession \<times> 'w" and bs m
  assume a: "m_cb c" "good e" "length bs < 2 ^ 31" "decodeMsg (new_container '''') bs = Inr (m, 0)"
  obtain s w where e: "e = (s, w)" by (cases e)
  have "session_input lim h (c, s, w) bs = ((c, io_init c s, w), Inr 0)"
    using a(3,4) by (simp add: session_input_def process_input_def handle_of_def io_init_def)
  moreover have "good (io_init c s, w)" using a(2) e good_like by simp
  ultimately show "\<exists>e'. session_input lim h (c, e) bs = ((c, e'), Inr 0) \<and> handed (fst e') = handed (fst e) \<and> good e'"
    using e by (auto simp: io_init_def)
next
  fix c :: Client and e :: "AdminSession \<times> 'w"
  obtain s w where e: "e = (s, w)" by (cases e)
  let ?s = "(io_init c s)\<lparr>m_session_valid := False\<rparr>"
  have "handed (fst (fst (hc (?s, w)))) = handed s"
    using hc_handed [of ?s w] by (simp add: io_init_def)
  then show "handed (fst (snd (fst (session_close hc (c, e))))) = handed (fst e)"
    using e by (auto simp: session_close_def process_close_def io_init_def Let_def split: prod.split sum.split)
next
  fix c :: Client and e :: "AdminSession \<times> 'w"
  assume a: "good e"
  obtain s w where e: "e = (s, w)" by (cases e)
  have g: "good (io_init c s, w)" using a e good_like by simp
  let ?s = "(io_init c s)\<lparr>m_session_valid := False\<rparr>"
  obtain s2 w2 r where r: "hc (?s, w) = ((s2, w2), r)" by (metis prod_cases3 prod.collapse)
  have "snd (process_close hc (io_init c s, w)) = (case r of Inl x \<Rightarrow> Inl x | Inr u \<Rightarrow> Inr ())"
    using good_open [OF g] r by (simp add: process_close_def Let_def split: sum.split)
  moreover have "\<not> undefined_access x" if "r = Inl x" for x
    using hc_defined [OF g] r that by simp
  ultimately have "uncaught (snd (process_close hc (io_init c s, w))) = None"
    by (simp split: sum.split)
  then show "uncaught (snd (session_close hc (c, e))) = None"
    using e by (auto simp: session_close_def split: prod.split)
qed (use sam.whole sam.partial sam.enc_nonempty in auto)

section \<open>The service is a listener\<close>

lemma in_slot_like: "like s s' \<Longrightarrow> in_slot i s \<Longrightarrow> in_slot i s'"
  by (auto simp: like_def in_slot_def)

text \<open>An object may be replaced by one that is like it.\<close>

lemma reg_ok_like:
  assumes w: "reg_ok w" and s: "map_find (objs w) a = Some s" "like s s'" "session_over s \<Longrightarrow> session_over s'"
  shows "reg_ok (set_obj a s' w)"
proof -
  have f: "map_find (objs (set_obj a s' w)) b = (if b = a then Some s' else map_find (objs w) b)" for b
    by (simp add: set_obj_def map_find_assign)
  have r: "m_reg (set_obj a s' w) = m_reg w" "expired_sessions (set_obj a s' w) = expired_sessions w"
    "ext_sessions (set_obj a s' w) = ext_sessions w" "m_next (set_obj a s' w) = m_next w"
    "m_monitor (set_obj a s' w) = m_monitor w" "m_admins (set_obj a s' w) = m_admins w"
    "next_obj (set_obj a s' w) = next_obj w"
    by (simp_all add: set_obj_def)
  have ok: "slots_ok w" "store_ok w" "lists_ok w" using w by (simp_all add: reg_ok_def)
  have "slots_ok (set_obj a s' w)"
    using ok(1) s(1) in_slot_like [OF s(2)] by (auto simp: slots_ok_def r f)
  moreover have "map_ok (objs (set_obj a s' w))"
    using ok(2) by (simp add: store_ok_def set_obj_def map_ok_assign)
  then have "store_ok (set_obj a s' w)"
    using ok(2) s(1) by (auto simp: store_ok_def r f)
  moreover have "lists_ok (set_obj a s' w)"
    using ok(3) s(1,3) by (auto simp: lists_ok_def r f)
  ultimately show ?thesis using w by (simp add: reg_ok_def r)
qed

definition service_good :: "env \<Rightarrow> user_command \<Rightarrow> nat \<Rightarrow> AdminSession \<times> AdminInterfaceImpl \<Rightarrow> bool" where
  "service_good env user a = (\<lambda>(s, w). env_ok env \<and> user_ok user \<and> reg_ok (set_obj a s w) \<and> serving w a)"

lemma set_obj_same: "map_find (objs (set_obj a s w)) a = Some s" "m_reg (set_obj a s w) = m_reg w"
  by (simp_all add: set_obj_def map_find_assign)

lemma map_assign_twice [simp]: "map_assign a s (map_assign a t m) = map_assign a s m"
  by (induction m) auto

lemma set_obj_twice [simp]: "set_obj a s (set_obj a t w) = set_obj a s w"
  by (simp add: set_obj_def)

lemma through_safe:
  assumes "safe_for a act" "reg_ok (set_obj a s w)" "serving w a"
  obtains s' w' r where "through a act (s, w) = ((s', w'), r)" "reg_ok w'" "serving w' a" "kept s s'"
    "map_find (objs w') a = Some s'" "\<And>e. r = Inl e \<Longrightarrow> \<not> undefined_access e"
proof -
  obtain w' r where act: "act (set_obj a s w) = (w', r)" by (cases "act (set_obj a s w)")
  have sv: "serving (set_obj a s w) a" using assms(3) by (simp add: serving_def set_obj_same)
  have 1: "evolves (set_obj a s w) w'" "reg_ok w'" "\<And>e. r = Inl e \<Longrightarrow> \<not> undefined_access e"
    using assms(1,2) sv act unfolding safe_for_def by (metis fst_conv snd_conv)+
  obtain s' where "map_find (objs w') a = Some s'" "kept s s'"
    using evolves_obj [OF 1(1) set_obj_same(1)] .
  then show ?thesis
    using that [of s' w' r] act 1 sv serving_evolves [OF 1(1)] by (simp add: through_def)
qed

text \<open>What the service does when a session has been closed.\<close>

definition without_session :: "nat \<Rightarrow> nat \<Rightarrow> AdminInterfaceImpl \<Rightarrow> AdminInterfaceImpl" where
  "without_session a i w =
     w\<lparr>m_monitor := unsubscribe_all i (m_monitor w), m_reg := (m_reg w)[i := None],
       expired_sessions := expired_sessions w @ [a]\<rparr>"

lemma session_closed_at:
  assumes "map_find (objs w) a = Some s" "m_id s < length (m_reg w)"
  shows "session_closed a w = (without_session a (m_id s) w, Inr ())"
  using assms
  by (simp add: session_closed_def bindA_def deref_def modify_def set_slot_def slot_def nth_opt_def without_session_def)

interpretation service: session_listener "env_lim env" "service_message env user a" "service_closed a" acceptable
  "service_good env user a" for env user a
proof
  fix s w
  assume g: "service_good env user a (s, w)"
  then have ok: "env_ok env" "user_ok user" "reg_ok (set_obj a s w)" "serving w a"
    by (simp_all add: service_good_def)
  have sv: "serving (set_obj a s w) a" using ok(4) by (simp add: serving_def set_obj_same)
  obtain i where i: "i \<in> {1..MAX_SESSIONS}" "in_slot i s"
    using serving_obj [OF ok(3) sv] by (metis set_obj_same(1) option.inject)
  then show "m_session_valid s \<and> m_listener s" by (simp add: in_slot_def)
  show "service_good env user a (s', w)" if "like s s'" for s'
    using reg_ok_like [OF ok(3) set_obj_same(1) that] ok i(2)
    by (simp add: service_good_def session_over_def in_slot_def)
  show "\<exists>s' w' r. service_message env user a m (s, w) = ((s', w'), r) \<and> service_good env user a (s', w') \<and> kept s s' \<and>
      (\<forall>e. r = Inl e \<longrightarrow> \<not> undefined_access e)" if m: "acceptable m" for m
  proof -
    obtain s' w' r where t: "service_message env user a m (s, w) = ((s', w'), r)" "reg_ok w'" "serving w' a" "kept s s'"
      "map_find (objs w') a = Some s'" "\<And>e. r = Inl e \<Longrightarrow> \<not> undefined_access e"
      unfolding service_message_def
      using through_safe [OF safe_for_message [OF ok(1,2) m] ok(3,4)] by metis
    have "reg_ok (set_obj a s' w')" using reg_ok_set_obj [OF t(2,5)] by simp
    then show ?thesis using t ok by (auto simp: service_good_def)
  qed
  have id: "m_id s < length (m_reg w)"
    using i ok(3) by (auto simp: in_slot_def reg_ok_def slots_ok_def set_obj_same)
  let ?s = "s\<lparr>m_session_valid := False\<rparr>"
  show "\<not> undefined_access e" if "snd (service_closed a (?s, w)) = Inl e" for e
    using that session_closed_at [of "set_obj a ?s w" a ?s] id
    by (simp add: service_closed_def through_def set_obj_same split: option.splits)
next
  fix s w
  show "handed (fst (fst (service_closed a (s, w)))) = handed s"
    by (simp add: service_closed_def through_def session_closed_def bindA_def deref_def set_obj_same(1) modify_def
        set_slot_def slot_def split: option.split prod.split sum.split)
qed

end
