(* ===== verification/Service_Registry.thy ===== *)
theory Service_Registry
  imports Service_Listener
begin

text \<open>
  The life of a session in the registry: a slot is found in cyclic order, the session is
  created in it, works, is closed and later deleted.  Each step keeps the invariant of the
  registry.
\<close>

section \<open>Finding a slot\<close>

definition slot_after :: "nat \<Rightarrow> nat \<Rightarrow> nat" where
  "slot_after nxt j = (nxt + j) mod SESSION_REG_SIZE"

lemma slot_after_simps [simp]:
  "slot_after nxt j < SESSION_REG_SIZE" "slot_after nxt j \<le> MAX_SESSIONS"
  "nxt \<le> MAX_SESSIONS \<Longrightarrow> slot_after nxt 0 = nxt"
  "slot_after (slot_after nxt j) k = slot_after nxt (j + k)"
  by (simp_all add: slot_after_def mod_add_left_eq add.assoc)

lemma next_slot: "nxt \<le> MAX_SESSIONS \<Longrightarrow> (if nxt + 1 > MAX_SESSIONS then 0 else nxt + 1) = slot_after nxt 1"
proof -
  assume "nxt \<le> MAX_SESSIONS"
  then consider "nxt = MAX_SESSIONS" | "nxt + 1 \<le> MAX_SESSIONS" by linarith
  then show ?thesis by cases (auto simp: slot_after_def)
qed

text \<open>The slots that can be given to a session.\<close>

definition free_slot :: "nat option list \<Rightarrow> nat \<Rightarrow> bool" where
  "free_slot reg i \<longleftrightarrow> i \<noteq> 0 \<and> i < length reg \<and> reg ! i = None"

text \<open>The search takes the first free slot in cyclic order, and finds none only if there is none.\<close>

lemma find_slot_spec:
  assumes "length reg = SESSION_REG_SIZE" "nxt \<le> MAX_SESSIONS"
  shows "\<exists>j \<le> k. (\<forall>i < j. \<not> free_slot reg (slot_after nxt i)) \<and>
    (j = k \<and> find_slot k nxt reg = Inr (0, slot_after nxt k) \<or>
     j < k \<and> free_slot reg (slot_after nxt j) \<and> find_slot k nxt reg = Inr (slot_after nxt j, slot_after nxt (j + 1)))"
  using assms
proof (induction k arbitrary: nxt)
  case 0
  then show ?case by simp
next
  case (Suc k)
  let ?n = "slot_after nxt 1"
  note n = next_slot [OF Suc.prems(2)]
  show ?case
  proof (cases "free_slot reg nxt")
    case True
    then have "find_slot (Suc k) nxt reg = Inr (nxt, ?n)"
      using n by (simp add: free_slot_def nth_opt_def Let_def)
    then show ?thesis using True Suc.prems(2) by (intro exI [of _ 0]) simp
  next
    case False
    have "find_slot (Suc k) nxt reg = find_slot k ?n reg"
      using False n Suc.prems by (auto simp: free_slot_def nth_opt_def Let_def)
    moreover obtain j where j: "j \<le> k" "\<forall>i < j. \<not> free_slot reg (slot_after ?n i)"
      "j = k \<and> find_slot k ?n reg = Inr (0, slot_after ?n k) \<or>
       j < k \<and> free_slot reg (slot_after ?n j) \<and> find_slot k ?n reg = Inr (slot_after ?n j, slot_after ?n (j + 1))"
      using Suc.IH [OF Suc.prems(1), of ?n] by auto
    moreover have "\<not> free_slot reg (slot_after nxt i)" if "i < Suc j" for i
      using that j(2) False Suc.prems(2) by (cases i) auto
    ultimately show ?thesis by (intro exI [of _ "Suc j"]) auto
  qed
qed

lemma slot_after_onto:
  assumes "nxt \<le> MAX_SESSIONS" "i < SESSION_REG_SIZE"
  obtains j where "j < SESSION_REG_SIZE" "slot_after nxt j = i"
proof (cases "nxt \<le> i")
  case True
  then show ?thesis using assms that [of "i - nxt"] by (simp add: slot_after_def)
next
  case False
  then have "nxt + (i + SESSION_REG_SIZE - nxt) = i + SESSION_REG_SIZE" using assms by simp
  then have "slot_after nxt (i + SESSION_REG_SIZE - nxt) = i" using assms(2) by (simp only: slot_after_def) simp
  moreover have "i + SESSION_REG_SIZE - nxt < SESSION_REG_SIZE" using False assms by simp
  ultimately show ?thesis by (rule that [rotated])
qed

section \<open>Creating a session\<close>

definition fresh_session :: "nat \<Rightarrow> int \<Rightarrow> string \<Rightarrow> int \<Rightarrow> string \<Rightarrow> nat \<Rightarrow> AdminSession" where
  "fresh_session lim now peer fd svcid i =
     fst (enqueueToSend lim (logon_msg svcid) (io_init (new_Client now) (new_AdminSession fd peer now i)))"

definition with_session :: "nat \<Rightarrow> nat \<Rightarrow> AdminSession \<Rightarrow> AdminInterfaceImpl \<Rightarrow> AdminInterfaceImpl" where
  "with_session nxt i s w =
     w\<lparr>m_next := nxt, objs := map_assign (next_obj w) s (objs w), next_obj := next_obj w + 1,
       createdCount := (createdCount w + 1) mod 2 ^ 64, m_reg := (m_reg w)[i := Some (next_obj w)]\<rparr>"

lemma createNewSession_in:
  assumes "find_slot SESSION_REG_SIZE (m_next w) (m_reg w) = Inr (i, nxt)" "free_slot (m_reg w) i"
  shows "createNewSession lim now peer fd w =
    (with_session nxt i (fresh_session lim now peer fd (m_svcid w) i) w, Inr ())"
  using assms
  by (simp add: createNewSession_def Let_def free_slot_def bindA_def set_slot_def slot_def nth_opt_def modify_def
      init_session_io_def update_obj_def deref_def set_obj_def map_find_assign with_session_def fresh_session_def)

lemma createNewSession_cases:
  assumes w: "reg_ok w"
  obtains (free) j where "j < SESSION_REG_SIZE" "free_slot (m_reg w) (slot_after (m_next w) j)"
      "\<forall>i < j. \<not> free_slot (m_reg w) (slot_after (m_next w) i)"
      "createNewSession lim now peer fd w =
        (with_session (slot_after (m_next w) (j + 1)) (slot_after (m_next w) j)
          (fresh_session lim now peer fd (m_svcid w) (slot_after (m_next w) j)) w, Inr ())"
  | (full) "\<forall>i. \<not> free_slot (m_reg w) i"
      "createNewSession lim now peer fd w = (w, Inl (RuntimeError ''no more sessions allowed''))"
proof -
  have ok: "length (m_reg w) = SESSION_REG_SIZE" "m_next w \<le> MAX_SESSIONS"
    using w by (simp_all add: reg_ok_def slots_ok_def)
  obtain j where j: "j \<le> SESSION_REG_SIZE" "\<forall>i < j. \<not> free_slot (m_reg w) (slot_after (m_next w) i)"
    "j = SESSION_REG_SIZE \<and> find_slot SESSION_REG_SIZE (m_next w) (m_reg w) = Inr (0, slot_after (m_next w) SESSION_REG_SIZE) \<or>
     j < SESSION_REG_SIZE \<and> free_slot (m_reg w) (slot_after (m_next w) j) \<and>
     find_slot SESSION_REG_SIZE (m_next w) (m_reg w) = Inr (slot_after (m_next w) j, slot_after (m_next w) (j + 1))"
    using find_slot_spec [OF ok, of SESSION_REG_SIZE] by blast
  from j(3) show ?thesis
  proof
    assume f: "j = SESSION_REG_SIZE \<and> find_slot SESSION_REG_SIZE (m_next w) (m_reg w) = Inr (0, slot_after (m_next w) SESSION_REG_SIZE)"
    have "\<not> free_slot (m_reg w) i" for i
    proof
      assume i: "free_slot (m_reg w) i"
      then have "i < SESSION_REG_SIZE" using ok(1) by (simp add: free_slot_def)
      then obtain k where "k < SESSION_REG_SIZE" "slot_after (m_next w) k = i"
        using slot_after_onto [OF ok(2)] by blast
      then show False using j(2) f i by blast
    qed
    moreover have "slot_after (m_next w) SESSION_REG_SIZE = m_next w" using ok(2) by (simp add: slot_after_def)
    ultimately show ?thesis using full f by (simp add: createNewSession_def Let_def del: find_slot.simps)
  next
    assume "j < SESSION_REG_SIZE \<and> free_slot (m_reg w) (slot_after (m_next w) j) \<and>
     find_slot SESSION_REG_SIZE (m_next w) (m_reg w) = Inr (slot_after (m_next w) j, slot_after (m_next w) (j + 1))"
    then show ?thesis using free [OF _ _ j(2) createNewSession_in] by blast
  qed
qed

lemma fresh_in_slot: "in_slot i (fresh_session lim now peer fd svcid i)"
proof -
  let ?s = "io_init (new_Client now) (new_AdminSession fd peer now i)"
  have "in_slot i ?s" by (simp add: in_slot_def io_init_def new_AdminSession_def)
  then show ?thesis unfolding fresh_session_def using kept_in_slot kept_enqueue by blast
qed

lemma reg_ok_with_session:
  assumes w: "reg_ok w" and i: "free_slot (m_reg w) i" and n: "nxt \<le> MAX_SESSIONS" and s: "in_slot i s"
  shows "reg_ok (with_session nxt i s w)"
proof -
  have ok: "slots_ok w" "store_ok w" "lists_ok w" using w by (simp_all add: reg_ok_def)
  let ?a = "next_obj w" and ?w = "with_session nxt i s w"
  have fresh: "map_find (objs w) ?a = None"
    using ok(2) unfolding store_ok_def by (metis less_irrefl not_None_eq)
  have f: "map_find (objs ?w) b = (if b = ?a then Some s else map_find (objs w) b)" for b
    by (simp add: with_session_def map_find_assign)
  have r: "expired_sessions ?w = expired_sessions w" "ext_sessions ?w = ext_sessions w" "m_next ?w = nxt"
    "m_monitor ?w = m_monitor w" "m_admins ?w = m_admins w" "next_obj ?w = ?a + 1" "m_reg ?w = (m_reg w)[i := Some ?a]"
    by (simp_all add: with_session_def)
  have len: "i < SESSION_REG_SIZE" "length (m_reg w) = SESSION_REG_SIZE" "i \<noteq> 0"
    using i ok(1) by (simp_all add: free_slot_def slots_ok_def)
  have "\<exists>t. map_find (objs ?w) b = Some t \<and> in_slot k t"
    if b: "k < SESSION_REG_SIZE" "(m_reg w)[i := Some ?a] ! k = Some b" for k b
  proof (cases "k = i")
    case True
    then show ?thesis using b s f len by simp
  next
    case False
    then obtain t where "map_find (objs w) b = Some t" "in_slot k t"
      using b ok(1) unfolding slots_ok_def by auto
    moreover from this have "b \<noteq> ?a" using fresh by auto
    ultimately show ?thesis using f by simp
  qed
  then have "slots_ok ?w" using ok(1) len n unfolding slots_ok_def r by auto
  moreover have "map_ok (objs ?w)" using ok(2) by (simp add: store_ok_def with_session_def map_ok_assign)
  then have "store_ok ?w" using ok(2) f unfolding store_ok_def r by (auto split: if_splits intro: less_SucI)
  moreover have "lists_ok ?w"
    using ok(3) fresh f set_update_subset_insert [of "m_reg w" i "Some ?a"] unfolding lists_ok_def r by fastforce
  ultimately show ?thesis using w by (simp add: reg_ok_def r)
qed

lemma reg_ok_createNewSession: "reg_ok w \<Longrightarrow> reg_ok (fst (createNewSession lim now peer fd w))"
  by (cases rule: createNewSession_cases [of w lim now peer fd]) (auto intro: reg_ok_with_session fresh_in_slot)

section \<open>Closing a session\<close>

lemma service_close:
  assumes "m_id s < length (m_reg w)" "m_listener s"
  shows "process_close (service_closed a) (s, w) =
    ((s\<lparr>m_session_valid := False, m_listener := False\<rparr>,
      without_session a (m_id s) (set_obj a (s\<lparr>m_session_valid := False\<rparr>) w)), Inr ())"
proof -
  let ?s = "s\<lparr>m_session_valid := False\<rparr>"
  have "session_closed a (set_obj a ?s w) = (without_session a (m_id s) (set_obj a ?s w), Inr ())"
    using session_closed_at [of "set_obj a ?s w" a ?s] assms(1) by (simp add: set_obj_same)
  moreover have "map_find (objs (without_session a (m_id s) (set_obj a ?s w))) a = Some ?s"
    by (simp add: without_session_def set_obj_same)
  ultimately show ?thesis
    using assms(2) by (simp add: process_close_def service_closed_def through_def Let_def)
qed

lemma tables_ok_unsubscribe: "tables_ok m \<Longrightarrow> tables_ok (unsubscribe_all i m)"
proof -
  assume m: "tables_ok m"
  have "subs_of (unsubscribe_all i m) \<subseteq> subs_of m"
    using set_remove1_subset by (fastforce simp: subs_of_def unsubscribe_all_def del_subscriber_def)
  then show ?thesis using m by (auto simp: tables_ok_def mon_ok_unsubscribe_all)
qed

lemma one_slot:
  assumes "reg_ok w" "i < SESSION_REG_SIZE" "m_reg w ! i = Some a" "j < SESSION_REG_SIZE" "m_reg w ! j = Some a"
  shows "i = j"
  using slot_pointer [OF assms(1,2)] slot_pointer [OF assms(1,4)] assms(3,5) by (auto simp: in_slot_def)

text \<open>The slot of a session that is closed becomes free; the session itself is kept as expired.\<close>

lemma reg_ok_without_session:
  assumes w: "reg_ok w" and i: "i \<in> {1..MAX_SESSIONS}" "m_reg w ! i = Some a" and s: "session_over s"
  shows "reg_ok (set_obj a s (without_session a i w))"
proof -
  have ok: "slots_ok w" "store_ok w" "lists_ok w" "tables_ok (m_monitor w)" using w by (simp_all add: reg_ok_def)
  have i': "i < SESSION_REG_SIZE" "i \<noteq> 0" using i(1) by simp_all
  have len: "length (m_reg w) = SESSION_REG_SIZE" using ok(1) by (simp add: slots_ok_def)
  obtain t where t: "map_find (objs w) a = Some t" "in_slot i t" using slot_pointer [OF w i'(1)] i(2) by blast
  let ?w = "set_obj a s (without_session a i w)"
  have f: "map_find (objs ?w) b = (if b = a then Some s else map_find (objs w) b)" for b
    by (simp add: set_obj_def without_session_def map_find_assign)
  have r: "expired_sessions ?w = expired_sessions w @ [a]" "ext_sessions ?w = ext_sessions w" "m_next ?w = m_next w"
    "m_monitor ?w = unsubscribe_all i (m_monitor w)" "m_admins ?w = m_admins w" "next_obj ?w = next_obj w"
    "m_reg ?w = (m_reg w)[i := None]"
    by (simp_all add: set_obj_def without_session_def)
  have "\<exists>u. map_find (objs ?w) b = Some u \<and> in_slot k u"
    if b: "k < SESSION_REG_SIZE" "(m_reg w)[i := None] ! k = Some b" for k b
  proof -
    have "k \<noteq> i" using b len by auto
    with b(2) have k: "k \<noteq> i" "m_reg w ! k = Some b" by simp_all
    then have "b \<noteq> a" using one_slot [OF w i'(1) i(2) b(1)] by auto
    moreover obtain u where "map_find (objs w) b = Some u" "in_slot k u" using slot_pointer [OF w b(1)] k(2) by blast
    ultimately show ?thesis using f by simp
  qed
  then have "slots_ok ?w" using ok(1) len i'(2) unfolding slots_ok_def r by (auto simp: nth_list_update)
  moreover have "map_ok (objs ?w)" using ok(2) by (simp add: store_ok_def set_obj_def without_session_def map_ok_assign)
  then have "store_ok ?w" using ok(2) t(1) f unfolding store_ok_def r by (auto split: if_splits)
  moreover have new: "a \<notin> set (expired_sessions w)" using ok(3) t by (auto simp: lists_ok_def in_slot_def session_over_def)
  have "Some a \<in> set (m_reg w)" using i(2) i'(1) len by (metis nth_mem)
  then have "a \<notin> set (ext_sessions w)" using ok(3) unfolding lists_ok_def by blast
  then have "lists_ok ?w"
    using ok(3) new s f set_update_subset_insert [of "m_reg w" i None] unfolding lists_ok_def r by auto
  ultimately show ?thesis using w tables_ok_unsubscribe [OF ok(4)] by (simp add: reg_ok_def r)
qed

section \<open>Deleting expired sessions\<close>

lemma cleanup_loop_ok:
  assumes "distinct as" "\<And>a. a \<in> set as \<Longrightarrow> \<exists>s. map_find (objs w) a = Some s" "map_ok (objs w)"
  obtains w' later where "cleanup_loop now as w = (w', Inr later)"
    "later = filter (\<lambda>a. \<not> safe_to_delete (the (map_find (objs w) a))) as"
    "\<And>b. map_find (objs w') b = (if b \<in> set as \<and> safe_to_delete (the (map_find (objs w) b)) then None else map_find (objs w) b)"
    "map_ok (objs w')" "\<exists>os orph. w' = w\<lparr>objs := os, orphans := orph\<rparr>"
  using assms
proof (induction as arbitrary: w thesis)
  case Nil
  have "\<exists>os orph. w = w\<lparr>objs := os, orphans := orph\<rparr>"
    by (rule exI [of _ "objs w"], rule exI [of _ "orphans w"]) simp
  then show ?case using Nil(1) [of w "[]"] Nil(4) by (simp add: ret_def)
next
  case (Cons a as)
  obtain s where s: "map_find (objs w) a = Some s" using Cons.prems(3) by auto
  show ?case
  proof (cases "safe_to_delete s")
    case True
    let ?w = "delete_session now a s w"
    have f: "map_find (objs ?w) b = (if b = a then None else map_find (objs w) b)" for b
      using Cons.prems(4) by (simp add: delete_session_def map_find_erase)
    have rest: "distinct as" "a \<notin> set as" using Cons.prems(2) by simp_all
    obtain w' later where IH: "cleanup_loop now as ?w = (w', Inr later)"
      "later = filter (\<lambda>a. \<not> safe_to_delete (the (map_find (objs ?w) a))) as"
      "\<And>b. map_find (objs w') b = (if b \<in> set as \<and> safe_to_delete (the (map_find (objs ?w) b)) then None else map_find (objs ?w) b)"
      "map_ok (objs w')" "\<exists>os orph. w' = ?w\<lparr>objs := os, orphans := orph\<rparr>"
    proof (rule Cons.IH [of ?w])
      show "\<exists>s. map_find (objs ?w) b = Some s" if "b \<in> set as" for b
        using that rest(2) f Cons.prems(3) [of b] by auto
      show "map_ok (objs ?w)" using Cons.prems(4) by (simp add: delete_session_def map_ok_erase)
    qed (use rest in auto)
    have "filter (\<lambda>a. \<not> safe_to_delete (the (map_find (objs ?w) a))) as = filter (\<lambda>a. \<not> safe_to_delete (the (map_find (objs w) a))) as"
      using rest(2) f by (intro filter_cong) auto
    then have l: "later = filter (\<lambda>a. \<not> safe_to_delete (the (map_find (objs w) a))) (a # as)"
      using IH(2) s True by simp
    have "cleanup_loop now (a # as) w = (w', Inr later)"
      using IH(1) s True by (simp add: bindA_def deref_def modify_def)
    moreover have "map_find (objs w') b = (if b \<in> set (a # as) \<and> safe_to_delete (the (map_find (objs w) b)) then None else map_find (objs w) b)" for b
      using IH(3) [of b] f rest(2) s True by auto
    moreover have "\<exists>os orph. w' = w\<lparr>objs := os, orphans := orph\<rparr>"
      using IH(5) by (auto simp: delete_session_def)
    ultimately show ?thesis using Cons.prems(1) l IH(4) by blast
  next
    case False
    obtain w' later where IH: "cleanup_loop now as w = (w', Inr later)"
      "later = filter (\<lambda>a. \<not> safe_to_delete (the (map_find (objs w) a))) as"
      "\<And>b. map_find (objs w') b = (if b \<in> set as \<and> safe_to_delete (the (map_find (objs w) b)) then None else map_find (objs w) b)"
      "map_ok (objs w')" "\<exists>os orph. w' = w\<lparr>objs := os, orphans := orph\<rparr>"
      using Cons.IH [of w] Cons.prems by auto
    show ?thesis
      by (rule Cons.prems(1) [of w' "a # later"])
        (use IH s False in \<open>auto simp: bindA_def deref_def ret_def\<close>)
  qed
qed

end
