(* ===== verification/Service_Runs.thy ===== *)
theory Service_Runs
  imports Service_Registry
begin

text \<open>
  Runs of the service: connections arrive, the reactor moves bytes, workers handle messages,
  the application calls the interface and the housekeeping timer fires, in any order.  In
  every state reached the registry is sound.
\<close>

section \<open>Housekeeping\<close>

lemma reg_ok_cleanup:
  assumes w: "reg_ok w"
  obtains w' where "session_cleanup now w = (w', Inr ())" "reg_ok w'"
    "\<And>b. map_find (objs w') b =
      (if b \<in> set (expired_sessions w) \<and> safe_to_delete (the (map_find (objs w) b)) then None else map_find (objs w) b)"
    "expired_sessions w' = filter (\<lambda>a. \<not> safe_to_delete (the (map_find (objs w) a))) (expired_sessions w)"
    "m_reg w' = m_reg w" "ext_sessions w' = ext_sessions w"
proof -
  have ok: "slots_ok w" "store_ok w" "lists_ok w" using w by (simp_all add: reg_ok_def)
  let ?del = "\<lambda>a. safe_to_delete (the (map_find (objs w) a))" and ?as = "expired_sessions w"
  have as: "distinct ?as" "\<And>a. a \<in> set ?as \<Longrightarrow> \<exists>s. map_find (objs w) a = Some s \<and> session_over s" "map_ok (objs w)"
    using ok(2,3) by (simp_all add: lists_ok_def store_ok_def)
  obtain w1 later where l: "cleanup_loop now ?as w = (w1, Inr later)" "later = filter (\<lambda>a. \<not> ?del a) ?as"
    "\<And>b. map_find (objs w1) b = (if b \<in> set ?as \<and> ?del b then None else map_find (objs w) b)"
    "map_ok (objs w1)" "\<exists>os orph. w1 = w\<lparr>objs := os, orphans := orph\<rparr>"
    using cleanup_loop_ok [OF as(1) _ as(3), of now] as(2) by blast
  let ?w = "w1\<lparr>expired_sessions := later\<rparr>"
  have r: "m_reg ?w = m_reg w" "ext_sessions ?w = ext_sessions w" "m_next ?w = m_next w" "next_obj ?w = next_obj w"
    "m_monitor ?w = m_monitor w" "m_admins ?w = m_admins w" "expired_sessions ?w = later" "objs ?w = objs w1"
    using l(5) by auto
  have "\<exists>s. map_find (objs w1) a = Some s \<and> in_slot i s" if i: "i < SESSION_REG_SIZE" "m_reg w ! i = Some a" for i a
  proof -
    obtain s where s: "map_find (objs w) a = Some s" "in_slot i s" using slot_pointer [OF w i(1)] i(2) by blast
    then have "a \<notin> set ?as" using as(2) by (fastforce simp: in_slot_def session_over_def)
    then show ?thesis using s l(3) by simp
  qed
  then have "slots_ok ?w" using ok(1) unfolding slots_ok_def r by blast
  moreover have "store_ok ?w" using ok(2) l(3,4) unfolding store_ok_def r by (auto split: if_splits)
  moreover have "lists_ok ?w" using ok(3) as l(2,3) unfolding lists_ok_def r by auto
  ultimately have "reg_ok ?w" using w by (simp add: reg_ok_def r)
  moreover have "session_cleanup now w = (?w, Inr ())"
    using l(1) by (simp add: session_cleanup_def bindA_def modify_def)
  ultimately show ?thesis using that [of ?w] l(2,3) r by simp
qed

lemma housekeeping_ok:
  assumes w: "reg_ok w"
  shows "reg_ok (fst (housekeeping lim now w))" "\<And>e. snd (housekeeping lim now w) = Inl e \<Longrightarrow> \<not> undefined_access e"
    "m_reg (fst (housekeeping lim now w)) = m_reg w"
proof -
  obtain w1 where w1: "session_cleanup now w = (w1, Inr ())" "reg_ok w1" "m_reg w1 = m_reg w" using reg_ok_cleanup [OF w] by metis
  let ?beat = "every_slot (\<lambda>a. bindA (deref a) (\<lambda>s.
      if is_open s then modify (set_obj a (session_housekeeping lim now s)) else ret ()))"
  let ?ext = "\<lambda>w. forA (ext_sessions w) (\<lambda>a. update_obj a (session_housekeeping lim now)) w"
  let ?L = "set (ext_sessions w1)"
  have live: "map_find (objs w1) a \<noteq> None" if "a \<in> ?L" for a
    using w1(2) that by (simp add: reg_ok_def lists_ok_def)
  have "sound ?L ?beat" by (rule sound_every_slot) (auto intro: sound_read_write)
  moreover have "sound ?L (forA (ext_sessions w1) (\<lambda>a. update_obj a (session_housekeeping lim now)))"
    by (intro sound_forA sound_update_obj) simp_all
  ultimately have s: "sound ?L (bindA ?beat (\<lambda>_. forA (ext_sessions w1) (\<lambda>a. update_obj a (session_housekeeping lim now))))"
    by (intro sound_bind)
  have "evolves w1 (fst (?beat w1))" using soundD(1) [OF \<open>sound ?L ?beat\<close> w1(2) live] by simp
  then have "ext_sessions (fst (?beat w1)) = ext_sessions w1" by (simp add: evolves_def)
  then have "housekeeping lim now w =
      bindA ?beat (\<lambda>_. forA (ext_sessions w1) (\<lambda>a. update_obj a (session_housekeeping lim now))) w1"
    using w1(1) by (auto simp: housekeeping_def bindA_def split: prod.split sum.split)
  then show "reg_ok (fst (housekeeping lim now w))" "\<And>e. snd (housekeeping lim now w) = Inl e \<Longrightarrow> \<not> undefined_access e"
    "m_reg (fst (housekeeping lim now w)) = m_reg w"
    using soundD [OF s w1(2) live] w1(3) by (simp_all add: evolves_def)
qed

section \<open>Requests outside the registry\<close>

lemma stop_sessions_outside:
  assumes "reg_ok w" "\<not> drops_ok args"
  shows "\<exists>e. snd (stop_sessions args w) = Inl e \<and> undefined_access e"
  using assms
proof (induction args arbitrary: w)
  case (Cons x args)
  let ?i = "SID_fromString x"
  show ?case
  proof (cases "?i < SESSION_REG_SIZE")
    case False
    then show ?thesis
      using Cons.prems(1)
      by (auto simp: reg_ok_def slots_ok_def bindA_def session_exists_def slot_def nth_opt_def no_session_def Let_def)
  next
    case True
    then have rest: "\<not> drops_ok args" using Cons.prems(2) by (simp add: drops_ok_def)
    have s: "slot ?i w = (w, Inr (m_reg w ! ?i))" using slot_pointer [OF Cons.prems(1) True] by simp
    obtain w1 r where w1: "session_stop_one ?i w = (w1, r)" by (cases "session_stop_one ?i w")
    have "reg_ok w1" using soundD(2) [OF sound_stop_one [OF True, of "{}"] Cons.prems(1)] w1 by simp
    obtain e1 where e1: "snd (stop_sessions args w1) = Inl e1" "undefined_access e1"
      using Cons.IH [OF \<open>reg_ok w1\<close> rest] by blast
    obtain e2 where e2: "snd (stop_sessions args w) = Inl e2" "undefined_access e2"
      using Cons.IH [OF Cons.prems(1) rest] by blast
    have "r = Inr ()"
      using w1 slot_pointer [OF Cons.prems(1) True]
      by (auto simp: session_stop_one_def on_slot_def update_obj_def bindA_def deref_def modify_def ret_def split: option.splits)
    then show ?thesis
      using e1 e2 s w1
      by (cases "stop_sessions args w1") (auto simp: bindA_def session_exists_def ret_def Let_def)
  qed
qed (simp add: drops_ok_def)

lemma unacceptable_message:
  assumes w: "reg_ok w" "serving w a" and m: "\<not> acceptable msg"
  shows "\<exists>e. snd (session_msg_received env user msg a w) = Inl e \<and> undefined_access e"
proof -
  obtain i s where s: "i \<in> {1..MAX_SESSIONS}" "map_find (objs w) a = Some s" "in_slot i s"
    using serving_obj [OF w] .
  obtain r where r: "cont_name msg = id_msg_request" "command_name msg = Some ''drop_session''"
    "new_AdminRequest msg 0 = Inr r" "\<not> drops_ok (req_args r)"
    using m by (auto simp: acceptable_def split: sum.splits)
  obtain req where req: "new_AdminRequest msg (m_id s) = Inr req" "req_args req = req_args r"
    using r(3) by (auto simp: new_AdminRequest_def Let_def bindR_def split: option.splits sum.splits)
  obtain c where c: "admin_find ''drop_session'' w = Some c" "m_target c = Some DropSessionCmd"
    using w(1) by (auto simp: reg_ok_def admins_ok_def admin_find_def)
  have ne: "req_args req \<noteq> []" using r(4) req(2) by (auto simp: drops_ok_def)
  obtain e where e: "snd (stop_sessions (req_args req) w) = Inl e" "undefined_access e"
    using stop_sessions_outside [OF w(1)] r(4) req(2) by metis
  have "\<exists>w1. request_response env user msg (m_id s) w = (w1, Inl e)"
    using r(2) c req(1) ne e(1)
    by (cases "stop_sessions (req_args req) w")
      (auto simp: request_response_def invoke_def admincmd_del_session_def bindA_def)
  then show ?thesis
    using s(2) r(1) e(2)
    by (auto simp: session_msg_received_def handle_admin_request_def bindA_def deref_def)
qed

section \<open>A round of work\<close>

text \<open>
  What the callbacks keep of the rest of the state, a round of work keeps: \<open>P\<close> before the
  connection is closed, \<open>Q\<close> after that.
\<close>

lemma deliver_keeps:
  assumes pi: "\<And>c e bs c' e' r. P e \<Longrightarrow> pi (c, e) bs = ((c', e'), r) \<Longrightarrow> uncaught r = None \<Longrightarrow> P e'"
    and "deliver pi b s = ((b', c', e'), err)" "P (snd s)" "\<forall>x. err = Some x \<longrightarrow> \<not> undefined_access x"
  shows "P e'"
  using assms(2,3)
proof (induction "m_bytesavail b" arbitrary: b s rule: less_induct)
  case less
  note d = less.prems(1) [unfolded deliver.simps [of pi b s]]
  show ?case
  proof (cases "m_bytesavail b = 0 \<or> \<not> m_cb (fst s) \<or> (\<exists>e. read_rp b = Inl e)")
    case True
    then show ?thesis using d less.prems(2) by (auto split: if_splits)
  next
    case False
    then obtain bytes where bytes: "read_rp b = Inr bytes" by (cases "read_rp b") auto
    obtain c1 e1 r where r: "pi s bytes = ((c1, e1), r)" by (metis prod_cases3 prod.collapse)
    have u: "uncaught r = None"
      using d False bytes r assms(4) by (auto simp: uncaught_def Let_def split: sum.splits if_splits)
    have P1: "P e1" using pi [of "snd s" "fst s" bytes c1 e1 r] less.prems(2) r u by simp
    show ?thesis
    proof (cases "consumed_of r = 0 \<or> consumed_of r > m_bytesavail b")
      case True
      then show ?thesis using d False bytes r u P1 by (auto simp: Let_def split: if_splits)
    next
      case False
      let ?b = "consume (consumed_of r) b"
      have "deliver pi ?b (c1, e1) = ((b', c', e'), err)"
        using d False bytes r u \<open>\<not> (m_bytesavail b = 0 \<or> _)\<close> by (simp add: Let_def)
      moreover have "m_bytesavail ?b < m_bytesavail b" using False by (simp add: consume_def sub64_less)
      ultimately show ?thesis using less.hyps [of ?b "(c1, e1)"] P1 by simp
    qed
  qed
qed

lemma do_work_keeps:
  assumes pi: "\<And>c e bs c' e' r. P e \<Longrightarrow> pi (c, e) bs = ((c', e'), r) \<Longrightarrow> uncaught r = None \<Longrightarrow> P e'"
    and pc: "\<And>c e c' e' r. P e \<Longrightarrow> pc (c, e) = ((c', e'), r) \<Longrightarrow> Q e'"
    and work: "do_work lim pi pc (c, e) = ((c', e'), err)" "P e" "\<forall>x. err = Some x \<longrightarrow> \<not> undefined_access x"
  shows "P e' \<or> Q e' \<and> \<not> m_cb c'"
proof (cases "m_cb c")
  case False
  then show ?thesis using work by (auto simp: do_work_def)
next
  case True
  obtain items n b closing err1 where dr:
    "drain_fifo lim (fifo_items (m_datafifo c)) (fifo_itemcount (m_datafifo c)) (m_rbuf c) = (items, n, b, closing, err1)"
    by (metis prod_cases5)
  let ?c = "c\<lparr>m_datafifo := (m_datafifo c)\<lparr>fifo_items := items, fifo_itemcount := n\<rparr>, m_rbuf := b\<rparr>"
  show ?thesis
  proof (cases err1)
    case (Some x)
    then show ?thesis using work True dr by (auto simp: do_work_def Let_def)
  next
    case None
    obtain b1 c2 e2 err2 where d: "deliver pi b (?c, e) = ((b1, c2, e2), err2)" by (metis prod_cases4 prod.collapse)
    have P2: "P e2" if "\<forall>x. err2 = Some x \<longrightarrow> \<not> undefined_access x"
      using deliver_keeps [OF pi d] work(2) that by simp
    note w = work(1) [unfolded do_work_def Let_def]
    show ?thesis
    proof (cases err2)
      case (Some x)
      then show ?thesis using w True dr None d P2 work(3) by auto
    next
      case err2: None
      show ?thesis
      proof (cases "shift_pending_to_array_start b1")
        case (Inl x)
        then show ?thesis using w True dr None d err2 P2 by auto
      next
        case (Inr b2)
        obtain c4 e4 r where r: "pc (c2\<lparr>m_rbuf := b2\<rparr>, e2) = ((c4, e4), r)" by (metis prod_cases3 prod.collapse)
        have Q4: "Q e4" using pc [OF P2 r] err2 by simp
        show ?thesis
          using w True dr None d err2 P2 r Q4 Inr work(3)
          by (cases closing; cases "m_cb c2") (auto simp: clear_fifo_def uncaught_def split: if_splits sum.splits)
      qed
    qed
  qed
qed

section \<open>A round of work for a session\<close>

lemma decodeMsg_le:
  assumes "decodeMsg old bs = Inr (m, n)"
  shows "n \<le> length bs"
  using assms by (cases rule: decodeMsg_cases) auto

lemma handle_queues: "rel_option queues (Some c) (m_io_handle s) \<Longrightarrow> queues c (handle_of c s)"
  by (auto simp: handle_of_def option_rel_Some1)

lemma service_input_keeps:
  assumes g: "service_good env user a e"
    and pi: "session_input lim (service_message env user a) (c, e) bs = ((c', e'), r)" "uncaught r = None"
  shows "service_good env user a e' \<and> queues c c' \<and> consumed_of r \<le> length bs"
proof -
  obtain s w where e: "e = (s, w)" by (cases e)
  let ?s = "io_init c s" and ?h = "service_message env user a"
  have io: "m_io_handle ?s = Some c" by (simp add: io_init_def)
  have g1: "service_good env user a (?s, w)" using g e service.good_like by simp
  obtain s' w' where p: "process_input lim ?h bs (?s, w) = ((s', w'), r)" "e' = (s', w')" "c' = handle_of c s'"
    using pi(1) e by (auto simp: session_input_def split: prod.splits)
  have big: "length bs < 2 ^ 31"
    using p(1) pi(2) by (auto simp: process_input_def uncaught_def split: if_splits)
  show ?thesis
  proof (cases "decodeMsg (new_container '''') bs")
    case (Inl x)
    then have s': "s' = close_session (fst (enqueueToSend lim (badmsg x) ?s))" "w' = w" "r = Inr 0"
      using p(1) pi(2) big by (auto simp: process_input_def uncaught_def split: if_splits)
    then have k: "kept ?s s'" using kept_trans kept_enqueue kept_close by metis
    then have "queues c c'" using handle_queues io p(3) by (simp add: kept_def)
    then show ?thesis
      using p(2) s'(2,3) service.good_like [OF g1 kept_like [OF k]] by (simp add: consumed_of_def)
  next
    case (Inr mn)
    obtain m n where mn: "mn = (m, n)" by (cases mn)
    show ?thesis
    proof (cases "n = 0")
      case True
      then show ?thesis using p Inr mn big g1 io by (auto simp: process_input_def handle_of_def consumed_of_def)
    next
      case False
      obtain s2 w2 r2 where o: "io_onmsg ?h m (?s, w) = ((s2, w2), r2)" by (metis prod_cases3 prod.collapse)
      have r2: "s' = s2" "w' = w2" "uncaught r2 = None" "r = Inr n"
        using p(1) Inr mn big False o pi(2) by (auto simp: process_input_def uncaught_def split: sum.splits if_splits)
      have acc: "acceptable m"
      proof (rule ccontr)
        assume bad: "\<not> acceptable m"
        define s1 where "s1 = (if cont_name m = id_msg_logon then logon_session m ?s else ?s)"
        let ?t = "s1\<lparr>handed := handed s1 @ [m]\<rparr>"
        have "like ?s s1" by (simp add: s1_def) (simp add: like_def)
        then have g2: "service_good env user a (?t, w)" using service.good_like [OF g1] like_trans [of ?s s1 ?t] by simp
        then have ok: "reg_ok (set_obj a ?t w)" "serving (set_obj a ?t w) a"
          by (simp_all add: service_good_def serving_def set_obj_same)
        have "io_onmsg ?h m (?s, w) = ?h m (?t, w)"
          using service.good_open [OF g1] by (simp add: io_onmsg_def s1_def [symmetric] Let_def) (simp add: s1_def)
        then have "snd (session_msg_received env user m a (set_obj a ?t w)) = r2"
          using o by (simp add: service_message_def through_def split: prod.splits option.splits)
        then show False using unacceptable_message [OF ok bad, of env user] r2(3) by (auto simp: uncaught_def)
      qed
      obtain s3 w3 r3 where "io_onmsg ?h m (?s, w) = ((s3, w3), r3)" "service_good env user a (s3, w3)"
        "rel_option queues (m_io_handle ?s) (m_io_handle s3)"
        by (rule service.io_onmsg_good [OF g1 acc])
      then show ?thesis
        using o r2 p(2,3) handle_queues io decodeMsg_le [OF Inr [unfolded mn]] by (simp add: consumed_of_def)
    qed
  qed
qed

definition closed_good :: "nat \<Rightarrow> AdminSession \<times> AdminInterfaceImpl \<Rightarrow> bool" where
  "closed_good a = (\<lambda>(s, w). \<not> m_session_valid s \<and> (\<forall>t. session_over t \<longrightarrow> reg_ok (set_obj a t w)))"

lemma service_close_keeps:
  assumes g: "service_good env user a e" and pc: "session_close (service_closed a) (c, e) = ((c', e'), r)"
  shows "closed_good a e'"
proof -
  obtain s w where e: "e = (s, w)" by (cases e)
  let ?s = "io_init c s"
  have g1: "service_good env user a (?s, w)" using g e service.good_like by simp
  then have ok: "reg_ok (set_obj a ?s w)" "serving (set_obj a ?s w) a"
    by (simp_all add: service_good_def serving_def set_obj_same)
  obtain i where i: "i \<in> {1..MAX_SESSIONS}" "m_reg (set_obj a ?s w) ! i = Some a" "in_slot i ?s"
    using serving_obj [OF ok] by (metis set_obj_same(1) option.inject)
  have id: "m_id ?s = i" "m_listener ?s" "i < length (m_reg w)"
    using i ok(1) by (simp_all add: in_slot_def reg_ok_def slots_ok_def set_obj_same)
  let ?t = "?s\<lparr>m_session_valid := False\<rparr>"
  have e': "e' = (?t\<lparr>m_listener := False\<rparr>, without_session a i (set_obj a ?t w))"
    using service_close [of ?s w a] id pc e by (simp add: session_close_def)
  have "reg_ok (set_obj a u (without_session a i (set_obj a ?t w)))" if "session_over u" for u
  proof -
    have "set_obj a u (without_session a i (set_obj a x w)) = without_session a i (set_obj a u w)" for x
      by (simp add: set_obj_def without_session_def)
    then show ?thesis using reg_ok_without_session [OF ok(1) i(1,2) that] by metis
  qed
  then show ?thesis using e' by (simp add: closed_good_def)
qed

lemma work_on_ok:
  assumes w: "reg_ok w" "serving w a" and env: "env_ok env" "user_ok user"
    and r: "work_on env user a w = (w', r)" "uncaught r = None"
  shows "reg_ok w'"
proof -
  obtain i s where s: "i \<in> {1..MAX_SESSIONS}" "map_find (objs w) a = Some s" "in_slot i s"
    using serving_obj [OF w] .
  obtain c where c: "m_io_handle s = Some c" using s(3) by (auto simp: in_slot_def)
  have g: "service_good env user a (s, w)"
    using w env reg_ok_set_obj [OF w(1) s(2), of s] by (simp add: service_good_def)
  obtain c' s' w1 err where d: "service_work env user a (c, s, w) = ((c', s', w1), err)"
    by (cases "service_work env user a (c, s, w)") (metis prod_cases3)
  have e: "w' = set_obj a (io_init c' s') w1" "\<forall>x. err = Some x \<longrightarrow> \<not> undefined_access x"
    using r s(2) c d by (auto simp: work_on_def bindA_def deref_def uncaught_def split: option.splits if_splits)
  have "service_good env user a (s', w1) \<or> closed_good a (s', w1) \<and> \<not> m_cb c'"
    by (rule do_work_keeps [OF _ _ d [unfolded service_work_def]])
      (use service_input_keeps service_close_keeps g e(2) in blast)+
  then show ?thesis
  proof
    assume "service_good env user a (s', w1)"
    then show ?thesis using service.good_like [of env user a s' w1 "io_init c' s'"] e(1) by (simp add: service_good_def)
  next
    assume "closed_good a (s', w1) \<and> \<not> m_cb c'"
    then show ?thesis using e(1) by (simp add: closed_good_def session_over_def io_init_def)
  qed
qed

text \<open>A session that is over is not worked for any more: only its queue is emptied.\<close>

lemma work_on_over:
  assumes "reg_ok w" "map_find (objs w) a = Some s" "session_over s"
  shows "reg_ok (fst (work_on env user a w))" "snd (work_on env user a w) = Inr ()"
proof -
  have "reg_ok (set_obj a (io_init (clear_fifo c) s) w)" if "m_io_handle s = Some c" for c
    using reg_ok_like [OF assms(1,2), of "io_init (clear_fifo c) s"] assms(3) that
    by (simp add: session_over_def io_init_def clear_fifo_def) (simp add: like_def)
  then show "reg_ok (fst (work_on env user a w))" "snd (work_on env user a w) = Inr ()"
    using assms
    by (auto simp: work_on_def bindA_def deref_def ret_def service_work_def do_work_def session_over_def split: option.split)
qed

section \<open>Steps of the service\<close>

text \<open>
  What the reactor does with the connection of a session; it changes neither the callbacks nor
  the session.
\<close>

inductive reactor_turn :: "Client \<Rightarrow> Client \<Rightarrow> bool" where
  turn_in: "handle_input now r c = (c', st) \<Longrightarrow> reactor_turn c c'"
| turn_out: "handle_output now rs c = Inr (c', st) \<Longrightarrow> reactor_turn c c'"
| turn_close: "reactor_turn c (handle_close c)"
| turn_runstate: "reactor_turn c (c\<lparr>m_runstate := x\<rparr>)"

inductive_simps reactor_turn_iff: "reactor_turn c c'"

lemma do_shutdown_cb [simp]: "m_cb (do_shutdown_SHUT_WR c) = m_cb c"
  by (simp add: do_shutdown_SHUT_WR_def log_io_def)

lemma output_turn_cb: "output_turn now r c = Inr (c', st) \<Longrightarrow> m_cb c' = m_cb c"
  by (auto simp: output_turn_def after_send_def pop_out_def log_io_def Let_def split: list.splits if_splits send_result.splits)

lemma handle_output_cb: "handle_output now rs c = Inr (c', st) \<Longrightarrow> m_cb c' = m_cb c"
proof (induction rs arbitrary: c)
  case Nil
  then obtain st' where "output_turn now (Room 0) c = Inr (c', st')"
    by (auto simp: bindR_def split: sum.splits)
  then show ?case by (rule output_turn_cb)
next
  case (Cons r rs)
  then obtain c1 st1 where "output_turn now r c = Inr (c1, st1)" "st1 = None \<and> handle_output now rs c1 = Inr (c', st) \<or> c1 = c'"
    by (auto simp: bindR_def split: sum.splits option.splits)
  then show ?case using output_turn_cb Cons.IH by metis
qed

lemma handle_input_cb: "m_cb (fst (handle_input now r c)) = m_cb c"
  by (simp add: handle_input_def push_chunk_def Let_def split: read_result.split)

lemma reactor_turn_cb: "reactor_turn c c' \<Longrightarrow> m_cb c' = m_cb c"
proof (induction rule: reactor_turn.induct)
  case (turn_in now r c c' st)
  then show ?case using handle_input_cb [of now r c] by simp
qed (simp_all add: handle_output_cb handle_close_ok(3) handle_close_def push_chunk_def log_io_def)

text \<open>An application creates a session of its own and registers it.\<close>

definition attach_ext :: "int \<Rightarrow> string \<Rightarrow> int \<Rightarrow> nat \<Rightarrow> unit act" where
  "attach_ext now peer fd sid = (\<lambda>w.
     register_ext_session now (next_obj w)
       ((set_obj (next_obj w) (new_AdminSession fd peer now sid) w)\<lparr>next_obj := next_obj w + 1\<rparr>))"

text \<open>
  A step that does not make an undefined access.  \<open>user\<close> is the application's commands; the
  environment may differ from step to step.
\<close>

inductive service_step :: "user_command \<Rightarrow> AdminInterfaceImpl \<Rightarrow> AdminInterfaceImpl \<Rightarrow> bool" for user where
  connect: "createNewSession lim now peer fd w = (w', r) \<Longrightarrow> service_step user w w'"
| call: "call_ok c \<Longrightarrow> api env c w = (w', r) \<Longrightarrow> service_step user w w'"
| input_output: "map_find (objs w) a = Some s \<Longrightarrow> m_io_handle s = Some c \<Longrightarrow> reactor_turn c c' \<Longrightarrow>
    service_step user w (set_obj a (io_init c' s) w)"
| work: "serving w a \<or> a \<in> set (expired_sessions w) \<Longrightarrow> env_ok env \<Longrightarrow> work_on env user a w = (w', r) \<Longrightarrow>
    uncaught r = None \<Longrightarrow> service_step user w w'"
| timer: "housekeeping lim now w = (w', r) \<Longrightarrow> service_step user w w'"
| stop_all: "session_stop_all w = (w', r) \<Longrightarrow> service_step user w w'"
| attach: "attach_ext now peer fd sid w = (w', r) \<Longrightarrow> service_step user w w'"
| detach: "deregister_ext_session a w = (w', r) \<Longrightarrow> service_step user w w'"


lemma reg_ok_attach:
  assumes w: "reg_ok w"
  shows "reg_ok (fst (attach_ext now peer fd sid w))"
proof -
  let ?a = "next_obj w" and ?s = "io_init (new_Client now) (new_AdminSession fd peer now sid)"
  have ok: "slots_ok w" "store_ok w" "lists_ok w" using w by (simp_all add: reg_ok_def)
  have fresh: "map_find (objs w) ?a = None"
    using ok(2) unfolding store_ok_def by (metis less_irrefl not_None_eq)
  let ?w = "w\<lparr>objs := map_assign ?a ?s (objs w), next_obj := ?a + 1, ext_sessions := ext_sessions w @ [?a]\<rparr>"
  have eq: "fst (attach_ext now peer fd sid w) = ?w"
    by (simp add: attach_ext_def register_ext_session_def init_session_io_def update_obj_def bindA_def deref_def
        set_obj_def map_find_assign modify_def)
  have f: "map_find (objs ?w) b = (if b = ?a then Some ?s else map_find (objs w) b)" for b
    by (simp add: map_find_assign)
  have "Some ?a \<notin> set (m_reg w)"
  proof
    assume "Some ?a \<in> set (m_reg w)"
    then obtain i where "i < SESSION_REG_SIZE" "m_reg w ! i = Some ?a"
      using ok(1) by (metis in_set_conv_nth slots_ok_def)
    then show False using slot_pointer [OF w, of i] fresh by auto
  qed
  moreover have "?a \<notin> set (expired_sessions w)" using ok(3) fresh by (auto simp: lists_ok_def)
  moreover have "\<exists>t. map_find (objs ?w) b = Some t \<and> in_slot k t" if "k < SESSION_REG_SIZE" "m_reg w ! k = Some b" for k b
    using slot_pointer [OF w that(1)] that(2) f fresh by (metis option.discI)
  ultimately have "slots_ok ?w" "lists_ok ?w"
    using ok f unfolding slots_ok_def lists_ok_def by simp_all
  moreover have "store_ok ?w"
    using ok(2) f unfolding store_ok_def by (auto simp: map_ok_assign split: if_splits intro: less_SucI)
  ultimately show ?thesis using w eq by (simp add: reg_ok_def)
qed

lemma reg_ok_step:
  assumes "service_step user w w'" "reg_ok w" "user_ok user"
  shows "reg_ok w'"
  using assms(1)
proof (cases rule: service_step.cases)
  case (connect lim now peer fd r)
  then show ?thesis using reg_ok_createNewSession [OF assms(2)] by (metis fst_conv)
next
  case (call c env r)
  then show ?thesis using soundD(2) [OF sound_api [OF call(1)] assms(2), of "{}"] by (metis empty_iff fst_conv)
next
  case (input_output a s c c')
  have "like s (io_init c' s)" by simp
  then show ?thesis
    using reg_ok_like [OF assms(2) input_output(2)] input_output reactor_turn_cb
    by (simp add: session_over_def io_init_def)
next
  case (work a env r)
  show ?thesis
  proof (cases "serving w a")
    case True
    then show ?thesis using work_on_ok assms(2,3) work by blast
  next
    case False
    then obtain s where "map_find (objs w) a = Some s" "session_over s"
      using work(1) assms(2) by (auto simp: reg_ok_def lists_ok_def)
    then show ?thesis using work_on_over(1) [OF assms(2)] work(3) by (metis fst_conv)
  qed
next
  case (timer lim now r)
  then show ?thesis using housekeeping_ok(1) [OF assms(2)] by (metis fst_conv)
next
  case (stop_all r)
  then show ?thesis using soundD(2) [OF sound_stop_all assms(2), of "{}"] by (metis empty_iff fst_conv)
next
  case (attach now peer fd sid r)
  then show ?thesis using reg_ok_attach [OF assms(2)] by (metis fst_conv)
next
  case (detach a r)
  then have "w' = w\<lparr>ext_sessions := remove1 a (ext_sessions w)\<rparr>"
    by (simp add: deregister_ext_session_def modify_def)
  then show ?thesis
    using assms(2) set_remove1_subset [of a "ext_sessions w"]
    by (auto simp: reg_ok_def slots_ok_def store_ok_def lists_ok_def)
qed

text \<open>The commands a service starts with.\<close>

definition started_admins :: "(string, target AdminCommand) stdmap" where
  "started_admins = fold (\<lambda>c. map_insert (cmd_name c) c) builtin_commands []"

lemma fold_admin_add: "fold admin_add cs w = w\<lparr>m_admins := fold (\<lambda>c. map_insert (cmd_name c) c) cs (m_admins w)\<rparr>"
  by (induction cs arbitrary: w) (simp_all add: admin_add_def)

lemma new_service: "new_AdminInterfaceImpl sid now =
  \<lparr>m_svcid = sid, objs = [], next_obj = 1, m_reg = replicate SESSION_REG_SIZE None, m_next = 1,
   createdCount = 0, expired_sessions = [], ext_sessions = [], m_admins = started_admins,
   m_monitor = new_Monitor, m_start_time = now, orphans = []\<rparr>"
  by (simp add: new_AdminInterfaceImpl_def fold_admin_add started_admins_def)

definition no_drop :: "(string, target AdminCommand) stdmap \<Rightarrow> bool" where
  "no_drop as \<longleftrightarrow> map_ok as \<and> map_find as ''drop_session'' = None \<and>
     (\<forall>n c. map_find as n = Some c \<longrightarrow> m_target c \<noteq> Some DropSessionCmd)"

lemma no_drop_insert:
  "no_drop as \<Longrightarrow> cmd_name c \<noteq> ''drop_session'' \<Longrightarrow> m_target c \<noteq> Some DropSessionCmd \<Longrightarrow>
   no_drop (map_insert (cmd_name c) c as)"
  unfolding no_drop_def by (auto simp: map_find_insert map_ok_insert split: option.splits)

lemma no_drop_fold:
  "no_drop as \<Longrightarrow> list_all (\<lambda>c. cmd_name c \<noteq> ''drop_session'' \<and> m_target c \<noteq> Some DropSessionCmd) cs \<Longrightarrow>
   no_drop (fold (\<lambda>c. map_insert (cmd_name c) c) cs as)"
  by (induction cs arbitrary: as) (simp_all add: no_drop_insert)

lemma drop_insert:
  "no_drop as \<Longrightarrow> cmd_name c = ''drop_session'' \<Longrightarrow> m_target c = Some DropSessionCmd \<Longrightarrow>
   admins_ok (map_insert (cmd_name c) c as)"
  unfolding no_drop_def admins_ok_def by (auto simp: map_find_insert map_ok_insert split: if_splits)

lemma admins_ok_builtin: "admins_ok started_admins"
proof -
  let ?cs = "butlast builtin_commands" and ?c = "last builtin_commands"
  have split: "builtin_commands = ?cs @ [?c]" by (simp add: builtin_commands_def Let_def)
  have "list_all (\<lambda>c. cmd_name c \<noteq> ''drop_session'' \<and> m_target c \<noteq> Some DropSessionCmd) ?cs"
    by (simp add: builtin_commands_def new_AdminCommand_def Let_def)
  then have "no_drop (fold (\<lambda>c. map_insert (cmd_name c) c) ?cs [])" by (intro no_drop_fold) (simp_all add: no_drop_def)
  moreover have "cmd_name ?c = ''drop_session''" "m_target ?c = Some DropSessionCmd"
    by (simp_all add: builtin_commands_def new_AdminCommand_def Let_def)
  ultimately show ?thesis
    unfolding started_admins_def using drop_insert [of _ ?c] by (subst split) simp
qed

lemma reg_ok_new: "reg_ok (new_AdminInterfaceImpl sid now)"
proof -
  have "tables_ok new_Monitor" by (simp add: tables_ok_def mon_ok_def subs_of_def new_Monitor_def)
  then show ?thesis
    using admins_ok_builtin by (simp add: new_service reg_ok_def slots_ok_def store_ok_def lists_ok_def)
qed

text \<open>The states the service can reach.\<close>

definition service_reach :: "user_command \<Rightarrow> AdminInterfaceImpl \<Rightarrow> bool" where
  "service_reach user w \<longleftrightarrow> (\<exists>sid now. (service_step user)\<^sup>*\<^sup>* (new_AdminInterfaceImpl sid now) w)"

lemma reg_ok_reach:
  assumes "service_reach user w" "user_ok user"
  shows "reg_ok w"
proof -
  obtain sid now where "(service_step user)\<^sup>*\<^sup>* (new_AdminInterfaceImpl sid now) w"
    using assms(1) by (auto simp: service_reach_def)
  then show ?thesis by (induction rule: rtranclp_induct) (auto intro: reg_ok_new reg_ok_step assms(2))
qed

end
