(* ===== verification/Service_Answers.thy ===== *)
theory Service_Answers
  imports Service_Runs
begin

text \<open>
  The answers of the service: what the head of a response says, and that an answer reaches the
  outbound queue of the connection that asked.
\<close>

section \<open>Heads of messages\<close>

definition head_value :: "txContainer \<Rightarrow> string \<Rightarrow> string option" where
  "head_value m n = map_option field_value (find_field_q m [id_head, n])"

declare put_field_q_simps(3) [simp del] put_child_q_simps(3) [simp del]

lemma cont_name_put_child_q [simp]:
  "(\<And>d. cont_name (g d) = cont_name d) \<Longrightarrow> cont_name (put_child_q qn g c) = cont_name c"
  by (simp add: put_child_q_def cont_name_buid_tree)

lemma wf_put_child_q:
  "wf_cont c \<Longrightarrow> (\<And>d. cont_name (g d) = cont_name d) \<Longrightarrow> (\<And>d. wf_cont d \<Longrightarrow> wf_cont (g d)) \<Longrightarrow>
   wf_cont (put_child_q qn g c)"
  by (simp add: put_child_q_def wf_intros)

lemma find_field_new [simp]: "find_field (new_container n) m = None"
  by (simp add: find_field_def field_ptr_def new_container_def)

lemma head_put_head [simp]:
  assumes c: "wf_cont c"
  shows "head_value (put_field_q [id_head, k] v c) n = (if n = k then Some v else head_value c n)"
proof (cases "find_child c id_head")
  case None
  then show ?thesis
    using c by (simp add: head_value_def put_field_q_def find_field_q_def find_child_put_child_then find_field_put_field)
next
  case (Some d)
  then show ?thesis
    using c find_child_wf [OF c Some]
    by (simp add: head_value_def put_field_q_def find_field_q_def find_child_put_child_then find_field_put_field)
qed

lemma head_put_body [simp]:
  "wf_cont c \<Longrightarrow> head_value (put_child_then id_body g c) n = head_value c n"
  by (simp add: head_value_def find_field_q_def find_child_put_child_then)

lemma head_put_head_child [simp]:
  "wf_cont c \<Longrightarrow> head_value (put_child_then id_head id c) n = head_value c n"
  by (cases "find_child c id_head") (simp_all add: head_value_def find_field_q_def find_child_put_child_then)

section \<open>Well-formed responses\<close>

lemma cont_name_fold: "(\<And>x c. cont_name (f x c) = cont_name c) \<Longrightarrow> cont_name (fold f xs c) = cont_name c"
  by (induction xs arbitrary: c) simp_all

lemma wf_fold: "(\<And>x c. wf_cont c \<Longrightarrow> wf_cont (f x c)) \<Longrightarrow> wf_cont c \<Longrightarrow> wf_cont (fold f xs c)"
  by (induction xs arbitrary: c) simp_all

lemma clear_container_simps [simp]: "cont_name (clear_container c) = cont_name c" "wf_cont (clear_container c)"
  by (simp_all add: clear_container_def)

lemma formatreply_string_wf [simp]:
  "cont_name (formatreply_string v b) = cont_name b" "wf_cont b \<Longrightarrow> wf_cont (formatreply_string v b)"
  by (simp_all add: formatreply_string_def wf_put_child_then wf_put_field)

lemma simplelist_rows_wf [simp]:
  "cont_name (simplelist_rows vs cn b) = cont_name b" "wf_cont b \<Longrightarrow> wf_cont (simplelist_rows vs cn b)"
  unfolding simplelist_rows_def case_prod_unfold
  by (simp add: cont_name_fold, intro wf_fold wf_put_field) (simp_all add: wf_put_child_then wf_put_field)

lemma formatreply_simplelist_wf [simp]:
  "cont_name (formatreply_simplelist vs cn b) = cont_name b" "wf_cont b \<Longrightarrow> wf_cont (formatreply_simplelist vs cn b)"
  by (simp_all add: formatreply_simplelist_def Let_def wf_put_child_then wf_put_field wf_put_child_q)

lemma set_columns_wf [simp]:
  "cont_name (snd (set_columns cs tb)) = cont_name (snd tb)" "wf_cont (snd tb) \<Longrightarrow> wf_cont (snd (set_columns cs tb))"
proof -
  let ?g = "\<lambda>columns. fold (\<lambda>(i, c). put_child_then (id_msg_prefix @ dec i) (put_field id_colname c))
      (enumerate 0 cs) (put_field id_msgcount (dec (length cs)) (clear_container columns))"
  have g: "cont_name (?g d) = cont_name d" "wf_cont (?g d)" for d
    unfolding case_prod_unfold
    by (simp add: cont_name_fold, intro wf_fold) (simp_all add: wf_put_child_then wf_put_field)
  show "cont_name (snd (set_columns cs tb)) = cont_name (snd tb)" "wf_cont (snd tb) \<Longrightarrow> wf_cont (snd (set_columns cs tb))"
    using g by (cases tb, simp add: set_columns_def wf_put_child_q)+
qed

lemma add_row_wf [simp]:
  "cont_name (snd (add_row k vs tb)) = cont_name (snd tb)" "wf_cont (snd tb) \<Longrightarrow> wf_cont (snd (add_row k vs tb))"
proof -
  have g: "cont_name (fold (\<lambda>(c, v). put_field c v) xs d) = cont_name d"
    "wf_cont d \<Longrightarrow> wf_cont (fold (\<lambda>(c, v). put_field c v) xs d)" for xs d
    unfolding case_prod_unfold by (simp add: cont_name_fold, intro wf_fold) (simp_all add: wf_put_field)
  show "cont_name (snd (add_row k vs tb)) = cont_name (snd tb)" "wf_cont (snd tb) \<Longrightarrow> wf_cont (snd (add_row k vs tb))"
    by (cases tb, simp add: add_row_def Let_def g wf_put_child_q wf_put_child_then wf_put_field)+
qed

lemma build_table_wf [simp]:
  "cont_name (build_table cs rows b) = cont_name b" "wf_cont b \<Longrightarrow> wf_cont (build_table cs rows b)"
proof -
  have "cont_name (snd (fold (\<lambda>(k, vs). add_row k vs) rows tb)) = cont_name (snd tb) \<and>
      (wf_cont (snd tb) \<longrightarrow> wf_cont (snd (fold (\<lambda>(k, vs). add_row k vs) rows tb)))" for tb
  proof (induction rows arbitrary: tb)
    case (Cons r rows)
    show ?case using Cons [of "add_row (fst r) (snd r) tb"] by (cases r) simp
  qed simp
  then show "cont_name (build_table cs rows b) = cont_name b" "wf_cont b \<Longrightarrow> wf_cont (build_table cs rows b)"
    by (simp_all add: build_table_def new_TableBuilder_def wf_put_field wf_put_child_q)
qed

section \<open>The head of a response\<close>

text \<open>The answer to a request with the given sequence number: finished, with a result code.\<close>

definition answers :: "string \<Rightarrow> AdminResponse \<Rightarrow> bool" where
  "answers seqno r \<longleftrightarrow> wf_cont (resp_msg r) \<and> resp_send r \<and> cont_name (resp_msg r) = id_msg_response \<and>
     head_value (resp_msg r) id_reqseqno = Some seqno"

definition finished :: "int \<Rightarrow> AdminResponse \<Rightarrow> bool" where
  "finished code r \<longleftrightarrow> head_value (resp_msg r) id_rescode = Some (dec_int code) \<and> \<not> has_pending (resp_msg r)"

lemma has_pending_head: "has_pending m \<longleftrightarrow> head_value m id_pending = Some id_True"
  by (auto simp: has_pending_def check_field_q_def head_value_def split: option.split)

lemma answers_new: "answers seqno (new_AdminResponse seqno)"
  by (simp add: answers_def new_AdminResponse_def wf_put_field_q wf_put_child_then)

lemma answers_on_msg:
  assumes "answers seqno r" "\<And>m. wf_cont m \<Longrightarrow> wf_cont (f m) \<and> cont_name (f m) = cont_name m \<and>
    head_value (f m) id_reqseqno = head_value m id_reqseqno"
  shows "answers seqno (on_msg f r)"
  using assms by (simp add: answers_def on_msg_def)

lemma answers_ok: "answers seqno (ok_response seqno)" "finished 0 (ok_response seqno)"
proof -
  show "answers seqno (ok_response seqno)"
    unfolding ok_response_def
    by (rule answers_on_msg [OF answers_new]) (simp add: set_pending_def add_rescode_def wf_put_field_q)
  show "finished 0 (ok_response seqno)"
    using answers_new [of seqno]
    by (simp add: finished_def ok_response_def on_msg_def set_pending_def add_rescode_def wf_put_field_q has_pending_head answers_def)
qed

lemma answers_body:
  assumes "answers seqno r" "finished code r" "\<And>b. cont_name (f b) = cont_name b" "\<And>b. wf_cont b \<Longrightarrow> wf_cont (f b)"
  shows "answers seqno (on_body f r)" "finished code (on_body f r)"
  using assms by (simp_all add: answers_def finished_def on_body_def on_msg_def wf_put_child_then has_pending_head)

lemma answers_text: "answers seqno (text_response seqno t)" "finished 0 (text_response seqno t)"
  unfolding text_response_def by (rule answers_body [OF answers_ok]; simp)+

lemma answers_error: "answers seqno (error_response seqno code t)" "finished code (error_response seqno code t)"
proof -
  let ?r = "on_msg (\<lambda>m. set_pending False (add_rescode code m)) (new_AdminResponse seqno)"
  have "answers seqno ?r"
    by (rule answers_on_msg [OF answers_new]) (simp add: set_pending_def add_rescode_def wf_put_field_q)
  moreover have "finished code ?r"
    using answers_new [of seqno]
    by (simp add: finished_def on_msg_def set_pending_def add_rescode_def wf_put_field_q has_pending_head answers_def)
  moreover have "error_response seqno code t = on_body (formatreply_string t) ?r"
    by (simp add: error_response_def on_body_def on_msg_def)
  ultimately show "answers seqno (error_response seqno code t)" "finished code (error_response seqno code t)"
    by (simp_all add: answers_body)
qed

lemma answers_success: "answers seqno (success seqno t code)" "finished code (success seqno t code)"
  using answers_error [where seqno = seqno and code = code and t = t] by (simp_all add: success_def error_response_def)

text \<open>Sending marks the response and copies it; both keep the head.\<close>

lemma answers_sent:
  assumes "answers seqno r"
  shows "answers seqno (mark_response (copy_AdminResponse r))"
    "head_value (resp_msg (mark_response (copy_AdminResponse r))) id_msgtype = Some id_msg_response"
    "finished code r \<Longrightarrow> finished code (mark_response (copy_AdminResponse r))"
  using assms
  by (simp_all add: answers_def finished_def has_pending_head mark_response_def copy_AdminResponse_def on_msg_def
      copy_container_clone wf_put_field_q wf_put_child_then)

section \<open>Built-in commands\<close>

lemma bindA_ret: "bindA m (\<lambda>x. ret (f x)) w = (w1, Inr y) \<Longrightarrow> \<exists>x. y = f x"
  by (auto simp: bindA_def ret_def split: prod.splits sum.splits)

lemma bindA_result: "bindA m f w = (w1, Inr y) \<Longrightarrow> \<exists>x w'. f x w' = (w1, Inr y)"
  by (auto simp: bindA_def split: prod.splits sum.splits)

fun builtin :: "target \<Rightarrow> bool" where
  "builtin (UserTarget n) \<longleftrightarrow> False"
| "builtin SubscribeCmd \<longleftrightarrow> False"
| "builtin _ \<longleftrightarrow> True"

definition replies :: "string \<Rightarrow> AdminResponse \<Rightarrow> bool" where
  "replies seqno r \<longleftrightarrow> answers seqno r \<and> (\<exists>code. finished code r)"

lemma replies_simps [simp]:
  "replies seqno (text_response seqno t)" "replies seqno (error_response seqno code t)"
  "replies seqno (success seqno t code)" "replies seqno (ok_response seqno)"
  using answers_text [where seqno = seqno and t = t] answers_error [where seqno = seqno and code = code and t = t]
    answers_success [where seqno = seqno and code = code and t = t] answers_ok [of seqno]
  by (auto simp: replies_def)

lemma replies_body:
  "replies seqno r \<Longrightarrow> (\<And>b. cont_name (f b) = cont_name b) \<Longrightarrow> (\<And>b. wf_cont b \<Longrightarrow> wf_cont (f b)) \<Longrightarrow> replies seqno (on_body f r)"
  unfolding replies_def using answers_body by blast

lemma replies_rescode:
  assumes "replies seqno r"
  shows "replies seqno (on_msg (add_rescode code) r)"
proof -
  have "answers seqno (on_msg (add_rescode code) r)" "finished code (on_msg (add_rescode code) r)"
    using assms
    by (auto simp: replies_def answers_def finished_def on_msg_def add_rescode_def wf_put_field_q has_pending_head)
  then show ?thesis by (auto simp: replies_def)
qed

lemma builtin_replies:
  assumes "builtin t" "call_target env user t req w = (w1, Inr resp)"
  shows "replies (reqseqno req) resp"
proof (cases t)
  case TableCmd
  then show ?thesis
    using assms(2)
    by (auto simp: admincmd_list_tables_def ret_def replies_body replies_rescode split: list.splits if_splits prod.splits)
next
  case SessionsCmd
  then have "\<exists>rows. resp = on_body (build_table [''addr'', ''sessionid'', ''serviceid''] rows) (ok_response (reqseqno req))"
    using assms(2) by (auto simp: admincmd_sessions_def dest!: bindA_result bindA_ret)
  then show ?thesis by (auto simp: replies_body)
next
  case HelpCmd
  then show ?thesis
    using assms(2) by (auto simp: admincmd_help_def ret_def replies_body split: list.splits option.splits)
next
  case SnapshotCmd
  then show ?thesis using assms(2) by (auto simp: admincmd_snapshot_def dest!: bindA_ret)
next
  case DiagsCmd
  then have "\<exists>t. resp = text_response (reqseqno req) t"
    using assms(2) by (auto simp: admincmd_diags_def Let_def dest!: bindA_result bindA_ret)
  then show ?thesis by auto
next
  case DropSessionCmd
  then show ?thesis
    using assms(2) by (auto simp: admincmd_del_session_def raise_def dest!: bindA_ret split: if_splits)
qed (use assms in \<open>auto simp: admincmd_info_def admincmd_table_subs_def ret_def\<close>)

lemma replies_exn: "replies seqno (response_for seqno e)"
  by (cases e) (simp_all add: response_for_def)

lemma new_AdminRequest_seqno: "new_AdminRequest msg sid = Inr req \<Longrightarrow> reqseqno req = reqseqno_of msg"
  by (auto simp: new_AdminRequest_def reqseqno_of_def Let_def bindR_def split: option.splits sum.splits)

text \<open>The response to a request, as it is sent.\<close>

definition answer :: "string \<Rightarrow> AdminResponse res \<Rightarrow> AdminResponse" where
  "answer seqno r = mark_response (copy_AdminResponse (case r of Inl e \<Rightarrow> response_for seqno e | Inr resp \<Rightarrow> resp))"

lemma request_replies:
  assumes "request_response env user msg sid w = (w1, r)"
    "\<And>name c n. command_name msg = Some name \<Longrightarrow> admin_find name w = Some c \<Longrightarrow> m_target c = Some n \<Longrightarrow> builtin n"
  shows "replies (reqseqno_of msg) (case r of Inl e \<Rightarrow> response_for (reqseqno_of msg) e | Inr resp \<Rightarrow> resp)"
proof (cases r)
  case (Inl e)
  then show ?thesis by (simp add: replies_exn)
next
  case (Inr resp)
  then obtain name c req where c: "command_name msg = Some name" "admin_find name w = Some c"
    "new_AdminRequest msg sid = Inr req" "invoke (call_target env user) c req w = (w1, Inr resp)"
    using assms(1) by (auto simp: request_response_def split: option.splits sum.splits)
  then obtain t where t: "m_target c = Some t" "call_target env user t req w = (w1, Inr resp)"
    by (auto simp: invoke_def split: option.splits)
  then show ?thesis
    using builtin_replies [OF assms(2) [OF c(1,2) t(1)] t(2)] new_AdminRequest_seqno [OF c(3)] Inr by simp
qed

lemma replies_sent:
  "replies seqno r \<Longrightarrow> replies seqno (mark_response (copy_AdminResponse r)) \<and>
   head_value (resp_msg (mark_response (copy_AdminResponse r))) id_msgtype = Some id_msg_response"
  unfolding replies_def using answers_sent by blast

section \<open>The answer in the outbound queue\<close>

definition encodable :: "nat \<Rightarrow> txContainer \<Rightarrow> bool" where
  "encodable lim m \<longleftrightarrow> length (enc_body m) \<le> dyn_cap lim \<and> length (enc_body m) + 30 < 2 ^ 32"

lemma wire_nonempty: "encodable lim m \<Longrightarrow> wire m \<noteq> []"
  using length_wire [of m] wire_len_ge [of m] by (auto simp: encodable_def)

lemma enqueue_wire:
  assumes "m_session_valid s" "m_io_handle s = Some c" "encodable lim m"
  shows "enqueueToSend lim m s =
    (s\<lparr>m_io_handle := Some (fst (queue (wire m) False c))\<rparr>, snd (queue (wire m) False c) = -1)"
proof -
  have m: "length (enc_body m) \<le> dyn_cap lim" "length (enc_body m) + 30 < 2 ^ 32"
    using assms(3) by (simp_all add: encodable_def)
  obtain sb where sb: "encodeMsg lim m (new_DynamicSamBuffer 512) = Inr (sb, wire_len m)" "msg_bytes sb = wire m"
    using encodeMsg_wire [OF m] .
  have "msg_size sb = wire_len m"
    using sb(1) by (auto simp: encodeMsg_def bindR_def split: sum.splits)
  then have "take (wire_len m) (msg_start sb) = wire m"
    using sb(2) by (simp add: msg_bytes_def)
  then show ?thesis
    using assms(1,2) sb(1) by (simp add: enqueueToSend_def split: prod.split)
qed

text \<open>There is room for a message in the queue of a connection.\<close>

definition takes :: "string \<Rightarrow> Client \<Rightarrow> bool" where
  "takes bytes c \<longleftrightarrow> bytes \<noteq> [] \<and> acceptmore (m_out_q c) \<and> m_out_pend_max c < 2 ^ 64 \<and>
     out_pending (m_out_q c) + length bytes \<le> m_out_pend_max c"

lemma queue_takes:
  assumes "takes bytes c"
  shows "snd (queue bytes False c) = 0" "unsent (fst (queue bytes False c)) = unsent c @ bytes"
    "acceptmore (m_out_q (fst (queue bytes False c)))"
  using assms by (auto simp: takes_def queue_def unsent_def Let_def)

lemma unsent_close: "unsent (fst (queue [] True c)) = unsent c" "\<not> acceptmore (m_out_q (fst (queue [] True c)))"
  by (auto simp: queue_def unsent_def Let_def push_out_def)

lemma send_response_queues:
  assumes s: "map_find (objs w) a = Some s" "m_session_valid s" "m_io_handle s = Some c"
    and r: "resp_send resp" "encodable lim (resp_msg (mark_response resp))" "takes (wire (resp_msg (mark_response resp))) c"
  shows "\<exists>w' s' c'. send_response lim a seqno resp w = (w', Inr ()) \<and> map_find (objs w') a = Some s' \<and>
    m_io_handle s' = Some c' \<and> unsent c' = unsent c @ wire (resp_msg (mark_response resp)) \<and>
    (acceptmore (m_out_q c') \<longleftrightarrow> \<not> (m_autoclose s \<and> \<not> has_pending (resp_msg (mark_response resp)))) \<and>
    (\<forall>b. b \<noteq> a \<longrightarrow> map_find (objs w') b = map_find (objs w) b)"
proof -
  let ?m = "resp_msg (mark_response resp)"
  let ?c = "fst (queue (wire ?m) False c)"
  let ?s = "s\<lparr>m_io_handle := Some ?c\<rparr>"
  note q = queue_takes [OF r(3)]
  have e: "enqueueToSend lim ?m s = (?s, False)"
    using enqueue_wire [OF s(2,3) r(2)] q(1) by simp
  have send: "resp_send (mark_response resp)" using r(1) by (simp add: mark_response_def on_msg_def)
  show ?thesis
  proof (cases "\<not> has_pending ?m \<and> m_autoclose s")
    case True
    let ?t = "close_session ?s"
    have "send_response lim a seqno resp w = (set_obj a ?t w, Inr ())"
      using True s(1) e send
      by (simp add: send_response_def Let_def bindA_def enqueue_ptr_def deref_def modify_def ret_def set_obj_same)
    moreover have "m_io_handle ?t = Some (fst (queue [] True ?c))" by (simp add: close_session_def)
    ultimately show ?thesis
      using q(2) unsent_close [of ?c] True by (simp add: set_obj_def map_find_assign)
  next
    case False
    have "send_response lim a seqno resp w = (set_obj a ?s w, Inr ())"
      using False s(1) e send
      by (auto simp: send_response_def Let_def bindA_def enqueue_ptr_def deref_def modify_def ret_def set_obj_same)
    then show ?thesis using q(2,3) False by (auto simp: set_obj_def map_find_assign)
  qed
qed

lemma resp_send_copy [simp]: "resp_send (copy_AdminResponse r) = resp_send r" "resp_send (mark_response r) = resp_send r"
  by (simp_all add: copy_AdminResponse_def mark_response_def on_msg_def)

lemma request_queues:
  assumes w: "map_find (objs w) a = Some s" "request_response env user msg (m_id s) w = (w1, r)" "uncaught r = None"
    and s1: "map_find (objs w1) a = Some s1" "m_session_valid s1" "m_io_handle s1 = Some c1"
    and r: "resp_send (answer (reqseqno_of msg) r)" "encodable (env_lim env) (resp_msg (answer (reqseqno_of msg) r))"
      "takes (wire (resp_msg (answer (reqseqno_of msg) r))) c1"
  shows "\<exists>w2 s2 c2. handle_admin_request env user msg a w = (w2, Inr ()) \<and> map_find (objs w2) a = Some s2 \<and>
    m_io_handle s2 = Some c2 \<and> unsent c2 = unsent c1 @ wire (resp_msg (answer (reqseqno_of msg) r)) \<and>
    (acceptmore (m_out_q c2) \<longleftrightarrow> \<not> (m_autoclose s1 \<and> \<not> has_pending (resp_msg (answer (reqseqno_of msg) r)))) \<and>
    (\<forall>b. b \<noteq> a \<longrightarrow> map_find (objs w2) b = map_find (objs w1) b)"
proof -
  let ?seq = "reqseqno_of msg"
  let ?resp = "copy_AdminResponse (case r of Inl e \<Rightarrow> response_for ?seq e | Inr resp \<Rightarrow> resp)"
  have "handle_admin_request env user msg a w = send_response (env_lim env) a ?seq ?resp w1"
    using w by (auto simp: handle_admin_request_def bindA_def deref_def uncaught_def split: sum.splits if_splits)
  then show ?thesis
    using send_response_queues [OF s1, of ?resp "env_lim env" ?seq] r by (simp add: answer_def)
qed

end
