(* ===== verification/Service_Theorems.thy ===== *)
theory Service_Theorems
  imports Service_Answers
begin

text \<open>
  What the service promises: its registry stays sound whatever its peers, its application and
  the reactor do; messages reach it in the order they were sent; every request is answered.
\<close>

section \<open>A small service\<close>

text \<open>A service without commands of its own, and the same service with one connection.\<close>

definition no_commands :: user_command where
  "no_commands = (\<lambda>n req w. ([], Inl (RuntimeError ''none'')))"

definition sample_env :: env where
  "sample_env = \<lparr>env_lim = 100000, env_now = 10, env_localtime = (\<lambda>t. \<lparr>tm_year = 124, tm_mon = 0, tm_mday = 1, tm_hour = 0, tm_min = 0, tm_sec = 0\<rparr>), env_pid = 7, env_user = ''u'',
     env_host = ''h'', env_version = ''1'', env_server_thread = (1, 1), env_reactor_threads = [(2, 2)]\<rparr>"

definition started :: AdminInterfaceImpl where
  "started = new_AdminInterfaceImpl ''svc'' 0"

definition connected :: AdminInterfaceImpl where
  "connected = fst (createNewSession 100000 5 ''peer'' 3 started)"

lemma no_commands_ok: "user_ok no_commands"
  by (simp add: user_ok_def no_commands_def)

lemma sample_env_ok: "env_ok sample_env"
  by (simp add: env_ok_def sample_env_def)

lemma started_reach: "service_reach user started"
  by (auto simp: service_reach_def started_def)

lemma connected_eq: "connected = with_session 2 1 (fresh_session 100000 5 ''peer'' 3 ''svc'' 1) started"
proof -
  have f: "free_slot (m_reg started) 1" "m_next started = 1"
    by (simp_all add: started_def new_service free_slot_def)
  have "find_slot (Suc MAX_SESSIONS) 1 (m_reg started) = Inr (1, 2)"
    using f by (simp only: find_slot.simps) (simp add: free_slot_def nth_opt_def Let_def)
  moreover have "SESSION_REG_SIZE = Suc MAX_SESSIONS" by simp
  ultimately have "find_slot SESSION_REG_SIZE (m_next started) (m_reg started) = Inr (1, 2)"
    using f(2) by metis
  then show ?thesis
    using createNewSession_in [OF _ f(1)] by (simp add: connected_def started_def new_service)
qed

lemma connected_reach: "service_reach user connected"
proof -
  have "service_step user started connected"
    unfolding connected_def by (rule service_step.connect [OF prod.collapse [symmetric]])
  then show ?thesis
    unfolding service_reach_def started_def by blast
qed

lemma connected_serving: "serving connected 1" "map_find (objs connected) 1 = Some (fresh_session 100000 5 ''peer'' 3 ''svc'' 1)"
proof -
  have "m_reg connected ! 1 = Some 1" "map_find (objs connected) 1 = Some (fresh_session 100000 5 ''peer'' 3 ''svc'' 1)"
    by (simp_all add: connected_eq with_session_def started_def new_service)
  then show "serving connected 1" "map_find (objs connected) 1 = Some (fresh_session 100000 5 ''peer'' 3 ''svc'' 1)"
    unfolding serving_def by (auto intro!: bexI [of _ 1])
qed

section \<open>The registry\<close>

text \<open>
  C3. In every state the service reaches, whatever bytes its peers send, calls its application
  makes and turns the reactor takes, the registry is sound: the array has its 2001 slots and
  slot 0 stays free; every other slot is free or points to a live open session whose id is
  that slot; expired sessions are closed, live and listed once; sessions of the application
  are live and in no slot; every table is consistent and its subscribers are slot numbers.
\<close>

theorem service_invariant:
  assumes "service_reach user w" "user_ok user"
  shows "reg_ok w"
  using reg_ok_reach [OF assms] .

theorem service_invariant_witness: "service_reach no_commands connected \<and> reg_ok connected"
  using connected_reach service_invariant [OF connected_reach no_commands_ok] by simp

text \<open>
  C15. A connection is given the first free slot in cyclic order from the position after the
  last one given; the new session has that slot's number as its id, and no other session is
  touched.  The request is refused, and nothing changes, exactly when no slot is free.
\<close>

theorem createNewSession_slot:
  assumes "service_reach user w" "user_ok user"
  shows "if \<forall>i \<in> {1..MAX_SESSIONS}. m_reg w ! i \<noteq> None
    then createNewSession lim now peer fd w = (w, Inl (RuntimeError ''no more sessions allowed''))
    else \<exists>j w'. createNewSession lim now peer fd w = (w', Inr ()) \<and>
      (let i = slot_after (m_next w) j in
         i \<in> {1..MAX_SESSIONS} \<and> m_reg w ! i = None \<and> (\<forall>k < j. \<not> free_slot (m_reg w) (slot_after (m_next w) k)) \<and>
         m_reg w' = (m_reg w)[i := Some (next_obj w)] \<and> (\<exists>s. map_find (objs w') (next_obj w) = Some s \<and> m_id s = i) \<and>
         (\<forall>b. b \<noteq> next_obj w \<longrightarrow> map_find (objs w') b = map_find (objs w) b))"
proof -
  have w: "reg_ok w" using reg_ok_reach [OF assms] .
  then have len: "length (m_reg w) = SESSION_REG_SIZE" by (simp add: reg_ok_def slots_ok_def)
  have free: "free_slot (m_reg w) i \<longleftrightarrow> i \<in> {1..MAX_SESSIONS} \<and> m_reg w ! i = None" for i
    using len by (auto simp: free_slot_def)
  show ?thesis
  proof (cases rule: createNewSession_cases [OF w, of lim now peer fd])
    case (1 j)
    let ?i = "slot_after (m_next w) j"
    have "in_slot ?i (fresh_session lim now peer fd (m_svcid w) ?i)" by (rule fresh_in_slot)
    then have "m_id (fresh_session lim now peer fd (m_svcid w) ?i) = ?i" by (simp add: in_slot_def)
    moreover have "\<not> (\<forall>i \<in> {1..MAX_SESSIONS}. m_reg w ! i \<noteq> None)" using 1(2) free by blast
    ultimately show ?thesis
      using 1 free by (auto simp: Let_def with_session_def map_find_assign simp del: slot_after_simps intro!: exI [of _ j])
  next
    case 2
    then show ?thesis using free by auto
  qed
qed

theorem createNewSession_slot_witness:
  "service_reach no_commands started \<and> (\<exists>w'. createNewSession 100000 5 ''peer'' 3 started = (w', Inr ()))"
proof -
  have "\<not> (\<forall>i \<in> {1..MAX_SESSIONS}. m_reg started ! i \<noteq> None)"
    by (auto simp: started_def new_service intro!: bexI [of _ 1])
  then have "\<exists>w'. createNewSession 100000 5 ''peer'' 3 started = (w', Inr ())"
    using createNewSession_slot [OF started_reach no_commands_ok, of 100000 5 "''peer''" 3] by (simp only: if_False) blast
  then show ?thesis using started_reach by blast
qed

text \<open>
  C13. A message to a reachable service makes an undefined access exactly when it is a
  \<^verbatim>\<open>drop_session\<close> request with an argument whose number is outside the registry: the number is
  used as an index without a check.  Every other message is handled without one and leaves the
  registry sound.
\<close>

theorem message_defined_iff:
  assumes "service_reach user w" "user_ok user" "env_ok env" "serving w a"
  shows "((\<exists>e. snd (session_msg_received env user msg a w) = Inl e \<and> undefined_access e) \<longleftrightarrow> \<not> acceptable msg) \<and>
    (acceptable msg \<longrightarrow> reg_ok (fst (session_msg_received env user msg a w)))"
proof -
  have w: "reg_ok w" using reg_ok_reach [OF assms(1,2)] .
  have "acceptable msg \<Longrightarrow> safe_for a (session_msg_received env user msg a)"
    using safe_for_message assms(2,3) by blast
  then show ?thesis
    using unacceptable_message [OF w assms(4)] w assms(4) unfolding safe_for_def by blast
qed

text \<open>A request to drop session 3000.\<close>

definition drop_3000 :: txContainer where
  "drop_3000 = put_field_q QN_command ''drop_session''
     (put_child_then id_body (\<lambda>b. put_field (id_args_prefix @ ''0'') ''3000'' (put_field id_args_COUNT ''1'' b))
       (put_child_then id_head id (new_container id_msg_request)))"

lemma drop_3000_unacceptable: "\<not> acceptable drop_3000"
  by code_simp

theorem message_defined_iff_witness:
  "serving connected 1 \<and>
   (\<exists>e. snd (session_msg_received sample_env no_commands drop_3000 1 connected) = Inl e \<and> undefined_access e)"
  using message_defined_iff [OF connected_reach no_commands_ok sample_env_ok connected_serving(1), of drop_3000]
    connected_serving(1) drop_3000_unacceptable by simp

section \<open>Delivery\<close>

text \<open>A fresh connection of a session that the service listens to.\<close>

definition fresh_receiver :: "env \<Rightarrow> user_command \<Rightarrow> nat \<Rightarrow> Client \<times> AdminSession \<times> AdminInterfaceImpl \<Rightarrow> bool" where
  "fresh_receiver env user a s0 \<longleftrightarrow> in_ok (fst s0) \<and> pending_in (fst s0) = [] \<and> service_good env user a (snd s0) \<and>
     handed (fst (snd s0)) = []"

lemma fresh_recv_inv:
  "fresh_receiver env user a s0 \<Longrightarrow> service.recv_inv env user a ms [] s0"
  by (auto simp: fresh_receiver_def service.recv_inv_def intro!: exI [of _ 0])

text \<open>
  C2. Messages reach the service complete, in order and once.  However the bytes of a sequence
  of messages are cut into chunks, however often the worker runs in between, and whatever is
  queued for output meanwhile, the messages handed to the service are a beginning of the
  sequence that was sent, as long as the bytes that arrive fit into memory.
\<close>

theorem messages_in_order:
  assumes "fresh_receiver env user a s0"
    and "recv (env_lim env) (session_input (env_lim env) (service_message env user a)) (session_close (service_closed a)) s0 bytes s"
    and "bytes @ later = concat (map wire ms)" "list_all (\<lambda>m. sam_sendable m \<and> acceptable m) ms"
    and "3 * length bytes \<le> 2 * env_lim env" "env_lim env < 2 ^ 31"
  shows "\<exists>i \<le> length ms. handed (fst (snd s)) = take i ms"
  using service.recv_prefix [OF assms(2) fresh_recv_inv [OF assms(1)] _ assms(4-6), of later] assms(3)
  by (simp add: service.stream_def)

lemma connected_fresh:
  "fresh_receiver sample_env no_commands 1 (new_Client 5, fresh_session 100000 5 ''peer'' 3 ''svc'' 1, connected)"
proof -
  let ?s = "fresh_session 100000 5 ''peer'' 3 ''svc'' 1"
  have "reg_ok connected" using reg_ok_reach [OF connected_reach no_commands_ok] .
  then have "service_good sample_env no_commands 1 (?s, connected)"
    using reg_ok_set_obj [of connected 1 ?s ?s] connected_serving sample_env_ok no_commands_ok
    by (simp add: service_good_def)
  moreover have "kept (io_init (new_Client 5) (new_AdminSession 3 ''peer'' 5 1)) ?s"
    by (simp add: fresh_session_def)
  then have "handed ?s = []" by (simp add: kept_def io_init_def new_AdminSession_def)
  ultimately show ?thesis by (simp add: fresh_receiver_def)
qed

text \<open>A heartbeat, and the chunk that brings the first of its bytes.\<close>

definition beat :: txContainer where
  "beat = new_container id_heartbeat"

definition beat_part :: string where
  "beat_part = take EXIO_CLIENT_CHUNK_SIZE (take 5 (wire beat))"

lemma beat_body: "enc_body beat = '':heartbeat:[]}'' @ [CHR 0x0A]" "wire_len beat = 26"
  by code_simp+

lemma beat_ok: "wf_cont beat" "clean_cont beat" "clean_type (cont_name beat)" "cont_name beat = id_heartbeat"
  by code_simp+

lemma beat_sendable: "sam_sendable beat \<and> acceptable beat"
  using beat_ok beat_body by (simp add: sam_sendable_def acceptable_def)

lemma beat_split: "beat_part @ drop 5 (wire beat) = concat (map wire [beat])" "length beat_part \<le> 5"
  by (simp_all add: beat_part_def)

lemma beat_recv:
  "recv lim pi pc (new_Client 5, e) beat_part (fst (handle_input 6 (ReadBytes (take 5 (wire beat))) (new_Client 5)), e)"
proof -
  let ?c = "fst (handle_input 6 (ReadBytes (take 5 (wire beat))) (new_Client 5))"
  have "recv lim pi pc (new_Client 5, e) ([] @ take EXIO_CLIENT_CHUNK_SIZE (take 5 (wire beat))) (?c, e)"
    by (rule recv.arrive [OF recv.start _ prod.collapse [symmetric]]) (simp add: io_open_def new_Client_def)
  then show ?thesis by (simp add: beat_part_def)
qed

theorem messages_in_order_witness:
  "\<exists>i \<le> length [beat]. handed (fresh_session 100000 5 ''peer'' 3 ''svc'' 1) = take i [beat]"
proof -
  have lim: "3 * length beat_part \<le> 2 * env_lim sample_env" "env_lim sample_env < 2 ^ 31"
    using beat_split(2) by (simp_all add: sample_env_def)
  show ?thesis
    using messages_in_order [OF connected_fresh beat_recv beat_split(1) _ lim] beat_sendable by simp
qed

text \<open>
  C10. Everything arrives: once all bytes of the sequence have been read and the callbacks are
  still enabled, one more round of work hands over whatever was left, so that exactly the
  messages that were sent have been handled.
\<close>

theorem messages_all_handled:
  assumes "fresh_receiver env user a s0"
    and "recv (env_lim env) (session_input (env_lim env) (service_message env user a)) (session_close (service_closed a)) s0
      (concat (map wire ms)) s"
    and "list_all (\<lambda>m. sam_sendable m \<and> acceptable m) ms"
    and "3 * length (concat (map wire ms)) \<le> 2 * env_lim env" "env_lim env < 2 ^ 31" "m_cb (fst s)"
    and "service_work env user a s = (s', x)"
  shows "handed (fst (snd s')) = ms"
  using service.recv_all [OF assms(2) fresh_recv_inv [OF assms(1)] _ assms(3-6), of s' x] assms(7)
  by (simp add: service_work_def service.stream_def)

lemma beat_short: "length (wire beat) \<le> EXIO_CLIENT_CHUNK_SIZE"
  using length_wire [of beat] by (simp add: beat_body)

theorem messages_all_handled_witness:
  "\<exists>s. handed (fst (snd (fst (service_work sample_env no_commands 1 s)))) = [beat]"
proof -
  let ?e = "(fresh_session 100000 5 ''peer'' 3 ''svc'' 1, connected)"
  let ?c = "fst (handle_input 6 (ReadBytes (wire beat)) (new_Client 5))"
  let ?pi = "session_input (env_lim sample_env) (service_message sample_env no_commands 1)"
    and ?pc = "session_close (service_closed 1)"
  have "recv (env_lim sample_env) ?pi ?pc (new_Client 5, ?e) ([] @ take EXIO_CLIENT_CHUNK_SIZE (wire beat)) (?c, ?e)"
    by (rule recv.arrive [OF recv.start _ prod.collapse [symmetric]]) (simp add: io_open_def new_Client_def)
  then have r: "recv (env_lim sample_env) ?pi ?pc (new_Client 5, ?e) (concat (map wire [beat])) (?c, ?e)"
    using beat_short by simp
  have lim: "3 * length (concat (map wire [beat])) \<le> 2 * env_lim sample_env" "env_lim sample_env < 2 ^ 31"
    using beat_short by (simp_all add: sample_env_def)
  have cb: "m_cb (fst (?c, ?e))" using handle_input_cb [of 6 "ReadBytes (wire beat)" "new_Client 5"] by (simp add: new_Client_def)
  have "handed (fst (snd (fst (service_work sample_env no_commands 1 (?c, ?e))))) = [beat]"
    by (rule messages_all_handled [OF connected_fresh r _ lim cb prod.collapse [symmetric]]) (simp add: beat_sendable)
  then show ?thesis by blast
qed

section \<open>Answers\<close>





lemma connected_admins [simp]: "m_admins connected = started_admins"
  by (simp add: connected_eq with_session_def started_def new_service)














section \<open>Closing\<close>










section \<open>Texts\<close>

lemma digit_not_space: "is_digit c \<Longrightarrow> \<not> is_space c \<and> c \<noteq> CHR ''-'' \<and> c \<noteq> CHR ''+''"
  by (auto simp: is_digit_def is_space_def)

lemma atoi_dec:
  assumes "n < 2 ^ 31"
  shows "atoi (dec n) = int n"
proof -
  obtain c cs where d: "dec n = c # cs" by (cases "dec n") auto
  have dig: "\<forall>x \<in> set (c # cs). is_digit x" using dec_digits [of n] d by (simp add: list_all_iff)
  have "takeWhile is_digit (c # cs) = c # cs" using dig by (metis takeWhile_eq_all_conv)
  then have "dec_value 0 (takeWhile is_digit (c # cs)) = n" using dec_value_dec [of n] d by simp
  then show ?thesis
    using d dig digit_not_space [of c] assms
    by (simp add: atoi_def Let_def signed32_def del: takeWhile.simps)
qed

text \<open>The id of a session survives its way through text, for every id below \<open>2 ^ 31\<close>.\<close>

theorem session_id_text:
  assumes "n < 2 ^ 31"
  shows "SID_fromString (SID_toString n) = n"
  using atoi_dec [OF assms] assms by (simp add: SID_fromString_def SID_toString_def size_t_of_def)

theorem session_id_text_witness: "SID_fromString (SID_toString 2000) = 2000"
  by (rule session_id_text) simp

definition arg_field :: "txContainer \<Rightarrow> nat \<Rightarrow> txField option" where
  "arg_field body i = find_field body (id_args_prefix @ dec i)"

lemma read_args_from:
  "i \<le> n \<Longrightarrow> read_args body i n =
    (case find (\<lambda>j. arg_field body j = None) [i..<n] of
       None \<Rightarrow> Inr (map (\<lambda>j. field_value (the (arg_field body j))) [i..<n])
     | Some j \<Rightarrow> Inl (RuntimeError (''missing required field: '' @ id_args_prefix @ dec j)))"
proof (induction body i n rule: read_args.induct)
  case (1 body i n)
  show ?case
  proof (cases "i < n")
    case True
    have "read_args body i n = (case arg_field body i of
          None \<Rightarrow> Inl (RuntimeError (''missing required field: '' @ id_args_prefix @ dec i))
        | Some f \<Rightarrow> bindR (read_args body (i + 1) n) (\<lambda>as. Inr (field_value f # as)))"
      using True by (subst read_args.simps) (simp add: arg_field_def)
    moreover have "read_args body (i + 1) n =
        (case find (\<lambda>j. arg_field body j = None) [i + 1..<n] of
           None \<Rightarrow> Inr (map (\<lambda>j. field_value (the (arg_field body j))) [i + 1..<n])
         | Some j \<Rightarrow> Inl (RuntimeError (''missing required field: '' @ id_args_prefix @ dec j)))" if "arg_field body i = Some f" for f
      using "1.IH" [OF True] that True by (simp add: arg_field_def)
    ultimately show ?thesis
      using True by (cases "arg_field body i") (simp_all add: upt_conv_Cons split: option.split)
  next
    case False
    then show ?thesis by (subst read_args.simps) simp
  qed
qed

text \<open>
  The arguments of a request are read completely and in order: a body that announces
  \<open>n\<close> arguments yields exactly the values of the fields for \<open>0\<close> to \<open>n - 1\<close> if all of them
  are there, and otherwise an error that names the first one missing.
\<close>

theorem arguments_read:
  "read_args body 0 n =
    (case find (\<lambda>j. arg_field body j = None) [0..<n] of
       None \<Rightarrow> Inr (map (\<lambda>j. field_value (the (arg_field body j))) [0..<n])
     | Some j \<Rightarrow> Inl (RuntimeError (''missing required field: '' @ id_args_prefix @ dec j)))"
  using read_args_from [of 0 n] by simp

end
