(* ===== verification/Reactor_Model.thy ===== *)
theory Reactor_Model
  imports Client_Inbound
begin

unbundle bit_operations_syntax

text \<open>
  The reactor (\<^verbatim>\<open>libexio/exio/Reactor.h\<close>, \<^verbatim>\<open>libexio/Reactor.cc\<close>): one thread that polls the
  sockets of all connections and worker threads that handle what has arrived.  Connections are
  objects in a heap, named by their address; an access to a deleted one is an undefined access.
  The reactor thread and the workers are modelled with the place where each of them stands, so
  that their steps can be interleaved; a step is what a thread does between two points where
  another thread can be seen: one connection of a loop, one message, one lock.  What the
  operating system says in a step is the argument \<open>os\<close>.
\<close>

section \<open>Events and notifications\<close>

definition POLLPRI :: flags where "POLLPRI = 0x002"

definition POLLERR :: flags where "POLLERR = 0x008"

definition POLLHUP :: flags where "POLLHUP = 0x010"

definition POLLNVAL :: flags where "POLLNVAL = 0x020"

definition POLLRDHUP :: flags where "POLLRDHUP = 0x2000"

definition event_names :: "(flags \<times> string) list" where
  "event_names = [(POLLIN, ''POLLIN''), (POLLPRI, ''POLLPRI''), (POLLOUT, ''POLLOUT''), (POLLRDHUP, ''POLLRDHUP''),
     (POLLERR, ''POLLERR''), (POLLHUP, ''POLLHUP''), (POLLNVAL, ''POLLNVAL'')]"

text \<open>The names of the events, with a bar before all but the first one.\<close>

definition eventstr :: "flags \<Rightarrow> string" where
  "eventstr e =
     fst (fold (\<lambda>(f, n) (os, delim). if e AND f \<noteq> 0 then (os @ delim @ n, ''|'') else (os, delim)) event_names ([], []))"

datatype MsgType = eNoEvent | eClose | eAdd | eAttn | eDelete | eTerminate

fun MsgType_str :: "MsgType \<Rightarrow> string" where
  "MsgType_str eNoEvent = ''eNoEvent''"
| "MsgType_str eClose = ''eClose''"
| "MsgType_str eAdd = ''eAdd''"
| "MsgType_str eAttn = ''eAttn''"
| "MsgType_str eDelete = ''eDelete''"
| "MsgType_str eTerminate = ''eTerminate''"

record ReactorMsg =
  msg_type :: MsgType
  msg_ptr :: "nat option"

definition new_ReactorMsg :: "MsgType \<Rightarrow> nat option \<Rightarrow> ReactorMsg" where
  "new_ReactorMsg t p = \<lparr>msg_type = t, msg_ptr = p\<rparr>"

text \<open>The queue of notifications, with the number of bytes in the pipe that wakes the reactor.\<close>

record ReactorNotifQ =
  m_pending :: "ReactorMsg list"
  m_pipe :: nat

definition PIPE_CAPACITY :: nat where "PIPE_CAPACITY = 65536"

text \<open>A write to a full pipe fails, which is ignored.\<close>

definition write_pipe :: "nat \<Rightarrow> nat" where
  "write_pipe n = (if n < PIPE_CAPACITY then n + 1 else n)"

definition push_msg :: "ReactorMsg \<Rightarrow> ReactorNotifQ \<Rightarrow> ReactorNotifQ" where
  "push_msg m q =
     (if msg_type m = eNoEvent \<and> m_pending q \<noteq> [] then q
      else q\<lparr>m_pending := m_pending q @ [m], m_pipe := write_pipe (m_pipe q)\<rparr>)"

definition pull :: "ReactorNotifQ \<Rightarrow> ReactorNotifQ \<times> ReactorMsg list" where
  "pull q = (q\<lparr>m_pending := [], m_pipe := 0\<rparr>, m_pending q)"

section \<open>State\<close>

text \<open>A connection in the heap: its descriptor, which never changes, and the rest.\<close>

record ReactorClient =
  rc_fd :: int
  conn :: Client

record pollfd =
  pfd_fd :: int
  pfd_events :: flags
  pfd_revents :: flags

text \<open>
  Where the reactor thread stands: at the top of its loop, before \<^verbatim>\<open>poll\<close> with the descriptors
  collected, before the descriptors not yet dispatched (with the events of the pipe), before
  the notifications not yet handled, before the connections not yet searched for work, between
  marking a connection and putting it into the run queue, before the connections not yet looked
  at for destruction (with the time and those to be deleted), and at the end of the thread.
\<close>

datatype position =
    AtTop
  | AtPoll "pollfd list" "int \<Rightarrow> nat option"
  | AtDispatch "pollfd list" "int \<Rightarrow> nat option" flags
  | AtMessages "ReactorMsg list"
  | AtSearch "nat list"
  | AtPush nat "nat list"
  | AtCycle int "nat list" "nat list"
  | AtEnd

text \<open>
  Where a worker stands: waiting for the run queue, after taking a connection, before and
  after working on it, and at the end of the thread.
\<close>

datatype worker = Waiting | Took nat | Working nat | Worked nat | Finished

text \<open>\<^verbatim>\<open>m_destroying\<close> is ordered by address, as a set of pointers is iterated.\<close>

record Reactor =
  heap :: "nat \<Rightarrow> ReactorClient option"
  m_is_stopping :: bool
  m_pipefd :: int
  m_clients :: "nat list"
  m_destroying :: "nat list"
  m_last_cleanup :: int
  m_notifq :: ReactorNotifQ
  runq_items :: "nat option list"
  runq_itemcount :: nat
  m_io :: position
  m_workers :: "worker list"

text \<open>The constructor: \<open>pipe\<close> is the reading end of the pipe, \<open>None\<close> when there is none.\<close>

definition new_Reactor :: "int option \<Rightarrow> bool \<Rightarrow> nat \<Rightarrow> Reactor res" where
  "new_Reactor pipe fcntlerr nworkers =
     (case pipe of
        None \<Rightarrow> Inl (RuntimeError ''cannot create pipe'')
      | Some fd \<Rightarrow>
          if fcntlerr then Inl (RuntimeError ''cannot set pipe to O_NONBLOCK'')
          else Inr \<lparr>heap = (\<lambda>p. None), m_is_stopping = False, m_pipefd = fd, m_clients = [],
                    m_destroying = [], m_last_cleanup = 0, m_notifq = \<lparr>m_pending = [], m_pipe = 0\<rparr>,
                    runq_items = [], runq_itemcount = 0, m_io = AtTop, m_workers = replicate nworkers Waiting\<rparr>)"

record os =
  os_nready :: int
  os_revents :: "int \<Rightarrow> flags"
  os_read :: "int \<Rightarrow> read_result"
  os_send :: "int \<Rightarrow> send_result list"
  os_time :: int

section \<open>Connections\<close>

definition client_at :: "nat \<Rightarrow> Reactor \<Rightarrow> ReactorClient res" where
  "client_at p R = (case heap R p of None \<Rightarrow> Inl (UndefinedAccess ''deleted connection'') | Some h \<Rightarrow> Inr h)"

text \<open>
  A connection notifies the reactor by \<^verbatim>\<open>invalidate\<close> and \<^verbatim>\<open>request_attn\<close>: what an operation
  has logged is passed on when the connection is stored back.
\<close>

fun notifications :: "io_event \<Rightarrow> ReactorMsg list" where
  "notifications Invalidate = [new_ReactorMsg eNoEvent None]"
| "notifications RequestAttn = [new_ReactorMsg eAttn None]"
| "notifications _ = []"

definition logged :: "Client \<Rightarrow> Client \<Rightarrow> ReactorMsg list" where
  "logged c c' = concat (map notifications (drop (length (io_log c)) (io_log c')))"

definition put_client :: "nat \<Rightarrow> ReactorClient \<Rightarrow> Client \<Rightarrow> Reactor \<Rightarrow> Reactor" where
  "put_client p h c' R =
     R\<lparr>heap := (heap R)(p \<mapsto> h\<lparr>conn := c'\<rparr>), m_notifq := fold push_msg (logged (conn h) c') (m_notifq R)\<rparr>"

definition notify :: "ReactorMsg \<Rightarrow> Reactor \<Rightarrow> Reactor" where
  "notify m R = R\<lparr>m_notifq := push_msg m (m_notifq R)\<rparr>"

definition invalidate :: "Reactor \<Rightarrow> Reactor" where
  "invalidate = notify (new_ReactorMsg eNoEvent None)"

definition add_client :: "nat \<Rightarrow> Reactor \<Rightarrow> Reactor" where
  "add_client p = notify (new_ReactorMsg eAdd (Some p))"

definition request_attn :: "Reactor \<Rightarrow> Reactor" where
  "request_attn = notify (new_ReactorMsg eAttn None)"

section \<open>Polling\<close>

definition stdevents :: flags where
  "stdevents = POLLRDHUP OR POLLERR OR POLLHUP OR POLLNVAL"

fun build_fdset :: "Reactor \<Rightarrow> nat list \<Rightarrow> pollfd list \<times> (int \<Rightarrow> nat option) \<Rightarrow>
  (pollfd list \<times> (int \<Rightarrow> nat option)) res" where
  "build_fdset R [] acc = Inr acc"
| "build_fdset R (p # ps) (fdset, fdmap) =
     bindR (client_at p R) (\<lambda>h.
     build_fdset R ps
       (if io_open (conn h)
        then (fdset @ [\<lparr>pfd_fd = rc_fd h, pfd_events = events (conn h) OR stdevents, pfd_revents = 0\<rparr>],
              fdmap(rc_fd h \<mapsto> p))
        else (fdset, fdmap)))"

definition pipe_pollfd :: "Reactor \<Rightarrow> pollfd" where
  "pipe_pollfd R = \<lparr>pfd_fd = m_pipefd R, pfd_events = POLLIN OR POLLHUP, pfd_revents = 0\<rparr>"

text \<open>What happens to a connection whose descriptor has events: read, write, close.\<close>

definition close_events :: "flags \<Rightarrow> bool" where
  "close_events revents \<longleftrightarrow>
     revents AND POLLRDHUP \<noteq> 0 \<or> revents AND POLLERR \<noteq> 0 \<or> revents AND POLLHUP \<noteq> 0 \<or> revents AND POLLNVAL \<noteq> 0"

definition handle_events :: "int \<Rightarrow> flags \<Rightarrow> read_result \<Rightarrow> send_result list \<Rightarrow> Client \<Rightarrow> Client res" where
  "handle_events now revents r rs c =
     (let (c1, st1) = (if revents AND POLLIN \<noteq> 0 \<and> io_open c then handle_input now r c else (c, IO_default)) in
      bindR (if revents AND POLLOUT \<noteq> 0 \<and> io_open c1 then handle_output now rs c1 else Inr (c1, IO_default)) (\<lambda>(c2, st2).
      let iost = IO_default OR st1 OR st2 in
      Inr (if close_events revents \<and> iost AND IO_read_again = 0 \<or> iost AND IO_close \<noteq> 0 then handle_close c2 else c2)))"

definition dispatch :: "os \<Rightarrow> pollfd \<Rightarrow> (int \<Rightarrow> nat option) \<Rightarrow> Reactor \<Rightarrow> Reactor res" where
  "dispatch os pfd fdmap R =
     (if pfd_fd pfd = m_pipefd R then Inr R
      else
        case fdmap (pfd_fd pfd) of
          None \<Rightarrow> Inl (UndefinedAccess ''null connection'')
        | Some p \<Rightarrow>
            bindR (client_at p R) (\<lambda>h.
            bindR (handle_events (os_time os) (pfd_revents pfd) (os_read os (rc_fd h)) (os_send os (rc_fd h)) (conn h))
              (\<lambda>c'. Inr (put_client p h c' R))))"

section \<open>Notifications\<close>

fun attend_clients :: "nat list \<Rightarrow> Reactor \<Rightarrow> Reactor res" where
  "attend_clients [] R = Inr R"
| "attend_clients (p # ps) R =
     bindR (client_at p R) (\<lambda>h.
     attend_clients ps
       (if attn_flag (conn h) AND eWantDelete \<noteq> 0 then R\<lparr>m_destroying := insort_insert p (m_destroying R)\<rparr> else R))"

text \<open>A null pointer in the list of connections would be followed by the loops that come next.\<close>

definition handle_reactor_msg :: "ReactorMsg \<Rightarrow> Reactor \<Rightarrow> Reactor res" where
  "handle_reactor_msg msg R =
     (case msg_type msg of
        eNoEvent \<Rightarrow> Inr R
      | eAdd \<Rightarrow>
          (case msg_ptr msg of
             None \<Rightarrow> Inl (UndefinedAccess ''null connection'')
           | Some p \<Rightarrow> Inr (R\<lparr>m_clients := m_clients R @ [p]\<rparr>))
      | eTerminate \<Rightarrow> Inr (R\<lparr>m_is_stopping := True\<rparr>)
      | eAttn \<Rightarrow> attend_clients (m_clients R) R
      | _ \<Rightarrow> Inr R)"

section \<open>Run queue and deletion\<close>

definition runq_push :: "nat option \<Rightarrow> Reactor \<Rightarrow> Reactor" where
  "runq_push x R = R\<lparr>runq_items := runq_items R @ [x], runq_itemcount := runq_itemcount R + 1\<rparr>"

definition cleanup_due :: "int \<Rightarrow> Reactor \<Rightarrow> bool" where
  "cleanup_due now R \<longleftrightarrow> m_destroying R \<noteq> [] \<and>
     (now > m_last_cleanup R \<and> now - m_last_cleanup R > 2 \<or> now < m_last_cleanup R)"

fun delete_all :: "nat list \<Rightarrow> Reactor \<Rightarrow> Reactor res" where
  "delete_all [] R = Inr R"
| "delete_all (p # ps) R =
     bindR (client_at p R) (\<lambda>h.
     delete_all ps (R\<lparr>m_destroying := filter (\<lambda>q. q \<noteq> p) (m_destroying R), heap := (heap R)(p := None)\<rparr>))"

definition delete_now :: "nat list \<Rightarrow> Reactor \<Rightarrow> Reactor res" where
  "delete_now del R =
     (if del = [] then Inr R
      else delete_all del (R\<lparr>m_clients := filter (\<lambda>p. p \<notin> set del) (m_clients R)\<rparr>))"

section \<open>The reactor thread\<close>

definition reactor_main_loop :: "os \<Rightarrow> Reactor \<Rightarrow> Reactor res" where
  "reactor_main_loop os R =
     (case m_io R of
        AtTop \<Rightarrow>
          if m_is_stopping R then Inr (R\<lparr>m_io := AtEnd\<rparr>)
          else
            bindR (build_fdset R (m_clients R) ([pipe_pollfd R], \<lambda>fd. None)) (\<lambda>(fdset, fdmap).
            Inr (R\<lparr>m_io := AtPoll fdset fdmap\<rparr>))
      | AtPoll fdset fdmap \<Rightarrow>
          if os_nready os \<le> 0 then Inr (R\<lparr>m_io := AtSearch (m_clients R)\<rparr>)
          else
            Inr (R\<lparr>m_io := AtDispatch (map (\<lambda>f. f\<lparr>pfd_revents := os_revents os (pfd_fd f)\<rparr>) fdset) fdmap
                              (os_revents os (pfd_fd (hd fdset)))\<rparr>)
      | AtDispatch (f # fs) fdmap ready \<Rightarrow>
          bindR (dispatch os f fdmap R) (\<lambda>R'. Inr (R'\<lparr>m_io := AtDispatch fs fdmap ready\<rparr>))
      | AtDispatch [] fdmap ready \<Rightarrow>
          if ready \<noteq> 0 then
            let (q, nl) = pull (m_notifq R) in Inr (R\<lparr>m_notifq := q, m_io := AtMessages nl\<rparr>)
          else Inr (R\<lparr>m_io := AtSearch (m_clients R)\<rparr>)
      | AtMessages (n # nl) \<Rightarrow>
          bindR (handle_reactor_msg n R) (\<lambda>R'. Inr (R'\<lparr>m_io := AtMessages nl\<rparr>))
      | AtMessages [] \<Rightarrow> Inr (R\<lparr>m_io := AtSearch (m_clients R)\<rparr>)
      | AtSearch (p # ps) \<Rightarrow>
          bindR (client_at p R) (\<lambda>h.
          case update_run_state_for_reactor (conn h) of
            (c', oldstate, newstate) \<Rightarrow>
              Inr ((put_client p h c' R)
                \<lparr>m_io := if oldstate = CHR ''N'' \<and> newstate = CHR ''Q'' then AtPush p ps else AtSearch ps\<rparr>))
      | AtSearch [] \<Rightarrow>
          if cleanup_due (os_time os) R
          then Inr (R\<lparr>m_last_cleanup := os_time os, m_io := AtCycle (os_time os) (m_destroying R) []\<rparr>)
          else Inr (R\<lparr>m_io := AtTop\<rparr>)
      | AtPush p ps \<Rightarrow> Inr ((runq_push (Some p) R)\<lparr>m_io := AtSearch ps\<rparr>)
      | AtCycle now (p # ps) del \<Rightarrow>
          bindR (client_at p R) (\<lambda>h.
          case destroy_cycle now (conn h) of
            (c', gone) \<Rightarrow>
              Inr ((put_client p h c' R)
                \<lparr>m_io := AtCycle now ps (if gone \<and> get_run_state c' = CHR ''N'' then insort_insert p del else del)\<rparr>))
      | AtCycle now [] del \<Rightarrow> bindR (delete_now del R) (\<lambda>R'. Inr (R'\<lparr>m_io := AtTop\<rparr>))
      | AtEnd \<Rightarrow> Inr R)"

section \<open>The workers\<close>

definition set_worker :: "nat \<Rightarrow> worker \<Rightarrow> Reactor \<Rightarrow> Reactor" where
  "set_worker i x R = R\<lparr>m_workers := (m_workers R)[i := x]\<rparr>"

text \<open>
  \<open>pi\<close> and \<open>pc\<close> are the callbacks of the connections, \<open>e\<close> what they find behind them.  A worker
  that waits does not move while the count of items is zero.  Exceptions of the work are logged.
\<close>

definition worker_TEP_impl ::
  "nat \<Rightarrow> (nat \<Rightarrow> 'e process_input_cb) \<Rightarrow> (nat \<Rightarrow> 'e process_close_cb) \<Rightarrow> 'e \<Rightarrow> nat \<Rightarrow> Reactor \<Rightarrow> Reactor res" where
  "worker_TEP_impl lim pi pc e i R =
     (case m_workers R ! i of
        Waiting \<Rightarrow>
          if runq_itemcount R = 0 then Inr R
          else
            (case runq_items R of
               [] \<Rightarrow> Inl (UndefinedAccess ''front of an empty list'')
             | None # _ \<Rightarrow> Inr (set_worker i Finished R)
             | Some p # items \<Rightarrow>
                 Inr (set_worker i (Took p) (R\<lparr>runq_items := items, runq_itemcount := runq_itemcount R - 1\<rparr>)))
      | Took p \<Rightarrow>
          bindR (client_at p R) (\<lambda>h. Inr (set_worker i (Working p) (put_client p h (set_run_state (conn h)) R)))
      | Working p \<Rightarrow>
          bindR (client_at p R) (\<lambda>h.
          case do_work lim (pi p) (pc p) (conn h, e) of
            ((c', e'), err) \<Rightarrow>
              (case err of
                 Some x \<Rightarrow>
                   if undefined_access x then Inl x else Inr (set_worker i (Worked p) (put_client p h c' R))
               | None \<Rightarrow> Inr (set_worker i (Worked p) (put_client p h c' R))))
      | Worked p \<Rightarrow>
          bindR (client_at p R) (\<lambda>h.
          case update_run_state_for_worker (conn h) of
            (c', oldstate, newstate) \<Rightarrow>
              Inr (set_worker i (if newstate \<noteq> CHR ''R'' then Waiting else Working p) (put_client p h c' R)))
      | Finished \<Rightarrow> Inr R)"

section \<open>Destruction of the reactor\<close>

text \<open>
  The destructor stops the reactor thread and waits for its end, then ends the workers and
  waits for them, then closes and deletes the connections.
\<close>

definition destroy_begin :: "Reactor \<Rightarrow> Reactor" where
  "destroy_begin R = notify (new_ReactorMsg eTerminate None) (R\<lparr>m_is_stopping := True\<rparr>)"

definition destroy_workers :: "Reactor \<Rightarrow> Reactor" where
  "destroy_workers = runq_push None"

fun destroy_clients :: "nat list \<Rightarrow> Reactor \<Rightarrow> Reactor res" where
  "destroy_clients [] R = Inr R"
| "destroy_clients (p # ps) R =
     bindR (client_at p R) (\<lambda>h.
     let R' = put_client p h (handle_close (conn h)) R in
     destroy_clients ps (R'\<lparr>heap := (heap R')(p := None)\<rparr>))"

end
