(* ===== verification/Reactor_Laws.thy ===== *)
theory Reactor_Laws
  imports Reactor_Model Client_Hosting
begin

unbundle bit_operations_syntax

text \<open>
  What holds of a reactor at any time, and that every step of the reactor thread is defined and
  keeps it: each connection is queued once or worked on by one worker or
  neither, as its run state says; no list holds a deleted connection; a notification that waits
  has its byte in the pipe; a released connection is on its way to destruction; output that
  waits while the reactor is about to poll is polled for or notified.
\<close>

section \<open>Notifications\<close>

definition joining :: "ReactorMsg list \<Rightarrow> nat list" where
  "joining ms = List.map_filter (\<lambda>m. if msg_type m = eAdd then msg_ptr m else None) ms"

lemma joining_simps [simp]:
  "joining [] = []" "joining (a @ b) = joining a @ joining b"
  "joining (m # ms) = (if msg_type m = eAdd then case msg_ptr m of None \<Rightarrow> [] | Some p \<Rightarrow> [p] else []) @ joining ms"
  by (simp_all add: joining_def List.map_filter_def split: option.split)

text \<open>The notifications that the reactor has not handled yet.\<close>

definition messages :: "Reactor \<Rightarrow> ReactorMsg list" where
  "messages R = (case m_io R of AtMessages ms \<Rightarrow> ms | _ \<Rightarrow> []) @ m_pending (m_notifq R)"

text \<open>The attention a connection waits for comes after the connection has been added.\<close>

definition coming :: "nat \<Rightarrow> ReactorMsg list \<Rightarrow> bool" where
  "coming p ms \<longleftrightarrow> (\<exists>xs m ys. ms = xs @ m # ys \<and> msg_type m = eAttn \<and> p \<notin> set (joining ys))"

lemma coming_append: "coming p ms \<Longrightarrow> p \<notin> set (joining xs) \<Longrightarrow> coming p (ms @ xs)"
  unfolding coming_def by (metis append.assoc append_Cons Un_iff joining_simps(2) set_append)

lemma coming_last: "m \<in> set xs \<Longrightarrow> msg_type m = eAttn \<Longrightarrow> joining xs = [] \<Longrightarrow> coming p (ms @ xs)"
proof -
  assume m: "m \<in> set xs" "msg_type m = eAttn" "joining xs = []"
  then obtain as bs where "xs = as @ m # bs" by (auto simp: in_set_conv_decomp)
  then show ?thesis
    unfolding coming_def using m(2,3) by (intro exI [of _ "ms @ as"] exI [of _ m] exI [of _ bs]) auto
qed

lemma coming_Cons: "coming p (m # ms) \<Longrightarrow> coming p ms \<or> msg_type m = eAttn \<and> p \<notin> set (joining ms)"
  unfolding coming_def by (auto simp: Cons_eq_append_conv)

lemma coming_skip: "coming p (m # ms) \<Longrightarrow> msg_type m \<noteq> eAttn \<Longrightarrow> coming p ms"
  using coming_Cons by blast

definition notif_ok :: "ReactorNotifQ \<Rightarrow> bool" where
  "notif_ok q \<longleftrightarrow> (m_pending q \<noteq> [] \<longrightarrow> 0 < m_pipe q) \<and> (\<forall>m \<in> set (tl (m_pending q)). msg_type m \<noteq> eNoEvent) \<and>
     m_pipe q \<le> PIPE_CAPACITY"

lemma push_msg_cases:
  obtains "push_msg m q = q" "msg_type m = eNoEvent" "m_pending q \<noteq> []"
  | "m_pending (push_msg m q) = m_pending q @ [m]" "m_pipe (push_msg m q) = write_pipe (m_pipe q)"
    "msg_type m = eNoEvent \<longrightarrow> m_pending q = []"
  by (cases "msg_type m = eNoEvent \<and> m_pending q \<noteq> []") (auto simp: push_msg_def)

lemma notif_ok_push: "notif_ok q \<Longrightarrow> notif_ok (push_msg m q)"
  by (cases q rule: push_msg_cases [of m]) (auto simp: notif_ok_def write_pipe_def PIPE_CAPACITY_def tl_append split: list.splits)

lemma notif_ok_pushes: "notif_ok q \<Longrightarrow> notif_ok (fold push_msg ms q)"
  by (induction ms arbitrary: q) (auto simp: notif_ok_push)

lemma pushes_append: "\<exists>xs. m_pending (fold push_msg ms q) = m_pending q @ xs \<and> set xs \<subseteq> set ms \<and>
  {m \<in> set ms. msg_type m \<noteq> eNoEvent} \<subseteq> set xs \<and> (ms \<noteq> [] \<longrightarrow> m_pending q @ xs \<noteq> [])"
proof (induction ms arbitrary: q)
  case (Cons m ms)
  obtain xs where xs: "m_pending (fold push_msg ms (push_msg m q)) = m_pending (push_msg m q) @ xs" "set xs \<subseteq> set ms"
    "{m \<in> set ms. msg_type m \<noteq> eNoEvent} \<subseteq> set xs"
    using Cons.IH [of "push_msg m q"] by blast
  show ?case
  proof (cases q rule: push_msg_cases [of m])
    case 1
    then show ?thesis using xs by (intro exI [of _ xs]) auto
  next
    case 2
    then show ?thesis using xs by (intro exI [of _ "m # xs"]) auto
  qed
qed simp

lemma logged_types: "m \<in> set (logged c c') \<Longrightarrow> msg_type m = eNoEvent \<or> msg_type m = eAttn"
proof -
  have "msg_type m = eNoEvent \<or> msg_type m = eAttn" if "m \<in> set (notifications x)" for x
    using that by (cases x) (auto simp: new_ReactorMsg_def)
  then show "m \<in> set (logged c c') \<Longrightarrow> ?thesis" by (auto simp: logged_def)
qed

lemma logged_events:
  assumes "io_log c' = io_log c @ l"
  shows "Invalidate \<in> set l \<Longrightarrow> logged c c' \<noteq> []" "RequestAttn \<in> set l \<Longrightarrow> new_ReactorMsg eAttn None \<in> set (logged c c')"
    "l = [] \<Longrightarrow> logged c c' = []"
  using assms by (force simp: logged_def)+

section \<open>The lists of connections\<close>

text \<open>
  The connections that take part in the loops are live, in one list and in it once; those
  marked for destruction have been released, and a released one is marked or will be.
\<close>

definition lists_ok :: "Reactor \<Rightarrow> bool" where
  "lists_ok R \<longleftrightarrow> distinct (m_clients R @ joining (messages R)) \<and>
     (\<forall>p \<in> set (m_clients R @ joining (messages R)). heap R p \<noteq> None) \<and>
     (\<forall>m \<in> set (messages R). msg_type m = eAdd \<longrightarrow> msg_ptr m \<noteq> None)"

definition destroying_ok :: "Reactor \<Rightarrow> bool" where
  "destroying_ok R \<longleftrightarrow> distinct (m_destroying R) \<and> set (m_destroying R) \<subseteq> set (m_clients R) \<and>
     (\<forall>p h. heap R p = Some h \<longrightarrow> (p \<in> set (m_destroying R) \<longrightarrow> wants_delete (conn h)) \<and>
        (wants_delete (conn h) \<longrightarrow> p \<in> set (m_clients R @ joining (messages R)) \<longrightarrow>
           p \<in> set (m_destroying R) \<or> coming p (messages R)))"

definition hosting :: "Reactor \<Rightarrow> bool" where
  "hosting R \<longleftrightarrow> (\<forall>p h. heap R p = Some h \<longrightarrow> hosted (conn h))"

text \<open>The descriptors collected for \<^verbatim>\<open>poll\<close>.\<close>

definition fds_ok :: "Reactor \<Rightarrow> pollfd list \<Rightarrow> (int \<Rightarrow> nat option) \<Rightarrow> bool" where
  "fds_ok R fs fm \<longleftrightarrow> (\<forall>f \<in> set fs. pfd_fd f = m_pipefd R \<or> fm (pfd_fd f) \<noteq> None) \<and> ran fm \<subseteq> set (m_clients R)"

text \<open>Before \<^verbatim>\<open>poll\<close> the waiting output of a connection is polled for, or a notification waits.\<close>

definition output_seen :: "Reactor \<Rightarrow> pollfd list \<Rightarrow> bool" where
  "output_seen R fs \<longleftrightarrow> m_pending (m_notifq R) \<noteq> [] \<or>
     (\<forall>p \<in> set (m_clients R). \<forall>h. heap R p = Some h \<longrightarrow> io_open (conn h) \<longrightarrow> out_items (m_out_q (conn h)) \<noteq> [] \<longrightarrow>
        (\<exists>f \<in> set fs. pfd_fd f = rc_fd h \<and> pfd_events f AND POLLOUT \<noteq> 0))"

definition position_ok :: "Reactor \<Rightarrow> bool" where
  "position_ok R \<longleftrightarrow>
     (case m_io R of
        AtPoll fs fm \<Rightarrow> fds_ok R fs fm \<and> output_seen R fs
      | AtDispatch fs fm ready \<Rightarrow> fds_ok R fs fm
      | AtSearch ps \<Rightarrow> set ps \<subseteq> set (m_clients R)
      | AtPush p ps \<Rightarrow> set (p # ps) \<subseteq> set (m_clients R)
      | AtCycle now ps del \<Rightarrow> set (ps @ del) \<subseteq> set (m_destroying R) \<and> distinct (ps @ del)
      | _ \<Rightarrow> True)"

section \<open>Run states\<close>

text \<open>How often a connection waits for a worker, and how many workers work on it.\<close>

definition waits :: "nat \<Rightarrow> Reactor \<Rightarrow> nat" where
  "waits p R = count_list (runq_items R) (Some p) + (case m_io R of AtPush q ps \<Rightarrow> if p = q then 1 else 0 | _ \<Rightarrow> 0) +
     count_list (m_workers R) (Took p)"

definition works :: "nat \<Rightarrow> Reactor \<Rightarrow> nat" where
  "works p R = count_list (m_workers R) (Working p) + count_list (m_workers R) (Worked p)"

definition runstate :: "Reactor \<Rightarrow> nat \<Rightarrow> char option" where
  "runstate R p = map_option (\<lambda>h. m_runstate (conn h)) (heap R p)"

definition owned :: "Reactor \<Rightarrow> bool" where
  "owned R \<longleftrightarrow> (\<forall>p. waits p R = (if runstate R p = Some (CHR ''Q'') then 1 else 0) \<and>
     works p R = (if runstate R p = Some (CHR ''R'') then 1 else 0))"

text \<open>
  Only connections of the reactor's list are queued or worked on; those about to be deleted
  are neither, and are closed.
\<close>

definition ending :: "Reactor \<Rightarrow> nat \<Rightarrow> bool" where
  "ending R p \<longleftrightarrow> (\<exists>h. heap R p = Some h \<and> m_runstate (conn h) = CHR ''N'' \<and> m_io_closed (conn h))"

definition deletions :: "Reactor \<Rightarrow> nat list" where
  "deletions R = (case m_io R of AtCycle now ps del \<Rightarrow> del | _ \<Rightarrow> [])"

definition states_ok :: "Reactor \<Rightarrow> bool" where
  "states_ok R \<longleftrightarrow> (\<forall>p h. heap R p = Some h \<longrightarrow> m_runstate (conn h) \<in> {CHR ''N'', CHR ''Q'', CHR ''R''} \<and>
       (p \<notin> set (m_clients R) \<longrightarrow> m_runstate (conn h) = CHR ''N'')) \<and>
     (\<forall>p \<in> set (deletions R). ending R p)"

definition runq_ok :: "Reactor \<Rightarrow> bool" where
  "runq_ok R \<longleftrightarrow> runq_itemcount R = length (runq_items R) \<and> (None \<in> set (runq_items R) \<longrightarrow> m_io R = AtEnd)"

definition objects_ok :: "Reactor \<Rightarrow> bool" where
  "objects_ok R \<longleftrightarrow> hosting R \<and> lists_ok R \<and> destroying_ok R \<and> notif_ok (m_notifq R) \<and> position_ok R"

definition reactor_ok :: "Reactor \<Rightarrow> bool" where
  "reactor_ok R \<longleftrightarrow> objects_ok R \<and> owned R \<and> states_ok R \<and> runq_ok R"

lemmas objects_defs = objects_ok_def hosting_def lists_ok_def destroying_ok_def position_ok_def fds_ok_def

lemma reactor_ok_new: "new_Reactor pipe err n = Inr R \<Longrightarrow> reactor_ok R"
  by (auto simp: new_Reactor_def reactor_ok_def objects_defs notif_ok_def owned_def states_ok_def runq_ok_def
      waits_def works_def runstate_def messages_def deletions_def count_list_0_iff split: option.splits if_splits)

section \<open>Storing a connection back\<close>

lemma put_client_simps [simp]:
  "m_clients (put_client p h c R) = m_clients R" "m_destroying (put_client p h c R) = m_destroying R"
  "m_io (put_client p h c R) = m_io R" "m_workers (put_client p h c R) = m_workers R"
  "runq_items (put_client p h c R) = runq_items R" "runq_itemcount (put_client p h c R) = runq_itemcount R"
  "m_pipefd (put_client p h c R) = m_pipefd R" "heap (put_client p h c R) = (heap R)(p \<mapsto> h\<lparr>conn := c\<rparr>)"
  "m_is_stopping (put_client p h c R) = m_is_stopping R"
  by (simp_all add: put_client_def)

lemma put_client_messages:
  obtains xs where "m_pending (m_notifq (put_client p h c R)) = m_pending (m_notifq R) @ xs"
    "messages (put_client p h c R) = messages R @ xs" "joining xs = []"
    "new_ReactorMsg eAttn None \<in> set (logged (conn h) c) \<longrightarrow> new_ReactorMsg eAttn None \<in> set xs"
    "logged (conn h) c \<noteq> [] \<longrightarrow> m_pending (m_notifq R) @ xs \<noteq> []" "\<forall>m \<in> set xs. msg_type m \<noteq> eAdd"
proof -
  obtain xs where xs: "m_pending (fold push_msg (logged (conn h) c) (m_notifq R)) = m_pending (m_notifq R) @ xs"
    "set xs \<subseteq> set (logged (conn h) c)" "{m \<in> set (logged (conn h) c). msg_type m \<noteq> eNoEvent} \<subseteq> set xs"
    "logged (conn h) c \<noteq> [] \<longrightarrow> m_pending (m_notifq R) @ xs \<noteq> []"
    using pushes_append [of "logged (conn h) c" "m_notifq R"] by blast
  have "\<forall>m \<in> set xs. msg_type m \<noteq> eAdd" using xs(2) logged_types by fastforce
  moreover from this have "joining xs = []" by (induction xs) auto
  moreover have "new_ReactorMsg eAttn None \<in> set xs" if "new_ReactorMsg eAttn None \<in> set (logged (conn h) c)"
    using that xs(3) by (auto simp: new_ReactorMsg_def)
  ultimately show ?thesis
    by (intro that [of xs]) (use xs(1,4) in \<open>auto simp: put_client_def messages_def split: position.split\<close>)
qed

lemma objects_ok_put:
  assumes R: "objects_ok R" "heap R p = Some h"
    and c: "hosted c" "announces (conn h) c" "m_io_closed (conn h) \<longrightarrow> m_io_closed c"
      "wants_delete (conn h) \<longrightarrow> wants_delete c"
  shows "objects_ok (put_client p h c R)"
proof -
  obtain xs where xs: "m_pending (m_notifq (put_client p h c R)) = m_pending (m_notifq R) @ xs"
    "messages (put_client p h c R) = messages R @ xs" "joining xs = []"
    "new_ReactorMsg eAttn None \<in> set (logged (conn h) c) \<longrightarrow> new_ReactorMsg eAttn None \<in> set xs"
    "logged (conn h) c \<noteq> [] \<longrightarrow> m_pending (m_notifq R) @ xs \<noteq> []" "\<forall>m \<in> set xs. msg_type m \<noteq> eAdd"
    by (rule put_client_messages [of p h c R])
  let ?R = "put_client p h c R"
  obtain l where l: "io_log c = io_log (conn h) @ l"
    "out_items (m_out_q (conn h)) = [] \<longrightarrow> out_items (m_out_q c) \<noteq> [] \<longrightarrow> Invalidate \<in> set l"
    "wants_delete c \<longrightarrow> wants_delete (conn h) \<or> RequestAttn \<in> set l"
    using c(2) by (auto simp: announces_def)
  have "hosting ?R" using R c(1) by (auto simp: objects_ok_def hosting_def)
  moreover have "lists_ok ?R" using R xs(2,3,6) by (auto simp: objects_ok_def lists_ok_def)
  moreover have "destroying_ok ?R"
  proof -
    have co: "coming q (messages R) \<Longrightarrow> coming q (messages ?R)" for q
      using coming_append [of q "messages R" xs] xs(2,3) by simp
    have new: "coming p (messages ?R)" if "\<not> wants_delete (conn h)" "wants_delete c"
      using coming_last [of "new_ReactorMsg eAttn None" xs p] that l(3) logged_events(2) [OF l(1)] xs(2-4)
      by (simp add: new_ReactorMsg_def)
    show ?thesis
      using R co new c(4) xs(2,3) unfolding objects_ok_def destroying_ok_def by (auto split: if_splits)
  qed
  moreover have "notif_ok (m_notifq ?R)"
    using R notif_ok_pushes by (simp add: objects_ok_def put_client_def)
  moreover have "position_ok ?R"
  proof -
    have "output_seen ?R fs" if "output_seen R fs" for fs
    proof (cases "m_pending (m_notifq ?R) = []")
      case True
      then have e: "m_pending (m_notifq R) = []" "logged (conn h) c = []" using xs(1,5) by auto
      then have "out_items (m_out_q c) \<noteq> [] \<longrightarrow> out_items (m_out_q (conn h)) \<noteq> []"
        using l(2) logged_events(1) [OF l(1)] by blast
      then show ?thesis
        using that e(1) c(3) R(2) unfolding output_seen_def by (auto simp: io_open_def split: if_splits)
    qed (simp add: output_seen_def)
    moreover have "fds_ok ?R = fds_ok R" by (intro ext) (simp add: fds_ok_def)
    ultimately show ?thesis using R by (auto simp: objects_ok_def position_ok_def split: position.split)
  qed
  ultimately show ?thesis by (simp add: objects_ok_def)
qed

lemma runstate_put: "heap R p = Some h \<Longrightarrow> m_runstate c = m_runstate (conn h) \<Longrightarrow> runstate (put_client p h c R) = runstate R"
  by (auto simp: runstate_def)

lemma states_ok_put:
  assumes R: "states_ok R" "heap R p = Some h"
    and c: "m_runstate c = m_runstate (conn h)" "m_io_closed (conn h) \<longrightarrow> m_io_closed c"
  shows "states_ok (put_client p h c R)"
proof -
  have "ending (put_client p h c R) q" if "ending R q" for q
    using that R(2) c by (auto simp: ending_def)
  moreover have "deletions (put_client p h c R) = deletions R" by (simp add: deletions_def)
  ultimately show ?thesis
    using R c unfolding states_ok_def by auto
qed

lemma reactor_ok_put:
  assumes R: "reactor_ok R" "heap R p = Some h" and c: "tended (conn h) c"
  shows "reactor_ok (put_client p h c R)"
proof -
  let ?R = "put_client p h c R"
  have "objects_ok ?R"
    using objects_ok_put [of R p h c] R c by (simp add: reactor_ok_def tended_def)
  moreover have "owned ?R"
    using R runstate_put [OF R(2), of c] c by (simp add: reactor_ok_def owned_def waits_def works_def tended_def)
  moreover have "states_ok ?R"
    using states_ok_put R c by (simp add: reactor_ok_def tended_def)
  moreover have "runq_ok ?R" using R by (simp add: reactor_ok_def runq_ok_def)
  ultimately show ?thesis by (simp add: reactor_ok_def)
qed

section \<open>Steps of the reactor thread\<close>

lemma reactor_ok_goto:
  assumes R: "reactor_ok R" "m_io R \<noteq> AtEnd"
    and x: "messages (R\<lparr>m_io := x\<rparr>) = messages R" "\<And>p. waits p (R\<lparr>m_io := x\<rparr>) = waits p R"
      "position_ok (R\<lparr>m_io := x\<rparr>)" "\<forall>p \<in> set (deletions (R\<lparr>m_io := x\<rparr>)). ending R p"
  shows "reactor_ok (R\<lparr>m_io := x\<rparr>)"
proof -
  have "owned (R\<lparr>m_io := x\<rparr>)"
    using R x(2) by (simp add: reactor_ok_def owned_def works_def runstate_def)
  moreover have "states_ok (R\<lparr>m_io := x\<rparr>)"
    using R x(4) by (simp add: reactor_ok_def states_ok_def ending_def)
  moreover have "objects_ok (R\<lparr>m_io := x\<rparr>)"
    using R x(1,3) by (simp add: reactor_ok_def objects_ok_def hosting_def lists_ok_def destroying_ok_def)
  moreover have "runq_ok (R\<lparr>m_io := x\<rparr>)" using R by (simp add: reactor_ok_def runq_ok_def)
  ultimately show ?thesis by (simp add: reactor_ok_def)
qed

lemmas goto_simps = messages_def waits_def deletions_def position_ok_def

lemma client_live: "reactor_ok R \<Longrightarrow> p \<in> set (m_clients R) \<Longrightarrow> \<exists>h. heap R p = Some h \<and> hosted (conn h)"
  by (simp add: reactor_ok_def objects_ok_def lists_ok_def hosting_def) blast

lemma build_fdset_ok:
  assumes "\<And>p. p \<in> set ps \<Longrightarrow> heap R p \<noteq> None"
  obtains fs' fm' where "build_fdset R ps (fs, fm) = Inr (fs @ fs', fm')" "\<forall>f \<in> set fs'. fm' (pfd_fd f) \<noteq> None"
    "\<forall>fd. fm fd \<noteq> None \<longrightarrow> fm' fd \<noteq> None" "ran fm' \<subseteq> ran fm \<union> set ps"
    "\<forall>p \<in> set ps. \<forall>h. heap R p = Some h \<longrightarrow> io_open (conn h) \<longrightarrow>
       (\<exists>f \<in> set fs'. pfd_fd f = rc_fd h \<and> pfd_events f = events (conn h) OR stdevents)"
  using assms
proof (induction ps arbitrary: fs fm thesis)
  case Nil
  then show ?case using Nil.prems(1) [of "[]" fm] by simp
next
  case (Cons p ps)
  obtain h where h: "heap R p = Some h" using Cons.prems(2) [of p] by auto
  have live: "\<And>q. q \<in> set ps \<Longrightarrow> heap R q \<noteq> None" using Cons.prems(2) by simp
  show ?case
  proof (cases "io_open (conn h)")
    case True
    let ?f = "\<lparr>pfd_fd = rc_fd h, pfd_events = events (conn h) OR stdevents, pfd_revents = 0\<rparr>"
    obtain fs' fm' where r: "build_fdset R ps (fs @ [?f], fm(rc_fd h \<mapsto> p)) = Inr ((fs @ [?f]) @ fs', fm')"
      "\<forall>f \<in> set fs'. fm' (pfd_fd f) \<noteq> None" "\<forall>fd. (fm(rc_fd h \<mapsto> p)) fd \<noteq> None \<longrightarrow> fm' fd \<noteq> None"
      "ran fm' \<subseteq> ran (fm(rc_fd h \<mapsto> p)) \<union> set ps"
      "\<forall>p \<in> set ps. \<forall>h. heap R p = Some h \<longrightarrow> io_open (conn h) \<longrightarrow>
         (\<exists>f \<in> set fs'. pfd_fd f = rc_fd h \<and> pfd_events f = events (conn h) OR stdevents)"
      by (rule Cons.IH [OF _ live, where fs = "fs @ [?f]" and fm = "fm(rc_fd h \<mapsto> p)"]) blast+
    have "ran (fm(rc_fd h \<mapsto> p)) \<subseteq> ran fm \<union> {p}" by (auto simp: ran_def)
    then show ?thesis
      by (intro Cons.prems(1) [of "?f # fs'" fm']) (use r h True in \<open>auto simp: client_at_def split: if_splits\<close>)
  next
    case False
    obtain fs' fm' where r: "build_fdset R ps (fs, fm) = Inr (fs @ fs', fm')"
      "\<forall>f \<in> set fs'. fm' (pfd_fd f) \<noteq> None" "\<forall>fd. fm fd \<noteq> None \<longrightarrow> fm' fd \<noteq> None" "ran fm' \<subseteq> ran fm \<union> set ps"
      "\<forall>p \<in> set ps. \<forall>h. heap R p = Some h \<longrightarrow> io_open (conn h) \<longrightarrow>
         (\<exists>f \<in> set fs'. pfd_fd f = rc_fd h \<and> pfd_events f = events (conn h) OR stdevents)"
      by (rule Cons.IH [OF _ live, where fs = fs and fm = fm]) blast+
    then show ?thesis
      by (intro Cons.prems(1) [of fs' fm']) (use h False in \<open>auto simp: client_at_def\<close>)
  qed
qed

lemma polls_output: "io_open c \<Longrightarrow> out_items (m_out_q c) \<noteq> [] \<Longrightarrow> (events c OR stdevents) AND POLLOUT \<noteq> 0"
  by (simp add: events_def bit.conj_disj_distrib2 POLLOUT_def POLLIN_def)

lemma io_top:
  assumes R: "reactor_ok R" "m_io R = AtTop"
  shows "\<exists>R'. reactor_main_loop os R = Inr R' \<and> reactor_ok R'"
proof (cases "m_is_stopping R")
  case True
  have "reactor_ok (R\<lparr>m_io := AtEnd\<rparr>)" by (rule reactor_ok_goto) (use R in \<open>simp_all add: goto_simps\<close>)
  then show ?thesis using R True by (simp add: reactor_main_loop_def)
next
  case False
  obtain fs fm where b: "build_fdset R (m_clients R) ([pipe_pollfd R], \<lambda>fd. None) = Inr ([pipe_pollfd R] @ fs, fm)"
    "\<forall>f \<in> set fs. fm (pfd_fd f) \<noteq> None" "ran fm \<subseteq> set (m_clients R)"
    "\<forall>p \<in> set (m_clients R). \<forall>h. heap R p = Some h \<longrightarrow> io_open (conn h) \<longrightarrow>
       (\<exists>f \<in> set fs. pfd_fd f = rc_fd h \<and> pfd_events f = events (conn h) OR stdevents)"
  proof (rule build_fdset_ok [of "m_clients R" R "[pipe_pollfd R]" "\<lambda>fd. None"])
    show "heap R p \<noteq> None" if "p \<in> set (m_clients R)" for p using client_live [OF R(1) that] by auto
  qed (use that in \<open>auto simp: ran_def\<close>)
  let ?x = "AtPoll (pipe_pollfd R # fs) fm"
  have "output_seen (R\<lparr>m_io := ?x\<rparr>) (pipe_pollfd R # fs)"
    unfolding output_seen_def using b(4) polls_output by fastforce
  moreover have "fds_ok (R\<lparr>m_io := ?x\<rparr>) (pipe_pollfd R # fs) fm"
    using b(2,3) by (auto simp: fds_ok_def pipe_pollfd_def)
  ultimately have "reactor_ok (R\<lparr>m_io := ?x\<rparr>)"
    by (intro reactor_ok_goto) (use R in \<open>simp_all add: goto_simps\<close>)
  then show ?thesis using R False b(1) by (simp add: reactor_main_loop_def)
qed

lemma io_poll:
  assumes R: "reactor_ok R" "m_io R = AtPoll fs fm"
  shows "\<exists>R'. reactor_main_loop os R = Inr R' \<and> reactor_ok R'"
proof -
  have f: "fds_ok R fs fm" using R by (simp add: reactor_ok_def objects_ok_def position_ok_def)
  let ?x = "AtDispatch (map (\<lambda>f. f\<lparr>pfd_revents := os_revents os (pfd_fd f)\<rparr>) fs) fm (os_revents os (pfd_fd (hd fs)))"
  have "reactor_ok (R\<lparr>m_io := AtSearch (m_clients R)\<rparr>)"
    by (rule reactor_ok_goto) (use R in \<open>simp_all add: goto_simps\<close>)
  moreover have "reactor_ok (R\<lparr>m_io := ?x\<rparr>)"
    by (rule reactor_ok_goto) (use R f in \<open>simp_all add: goto_simps fds_ok_def\<close>)
  ultimately show ?thesis using R(2) by (simp add: reactor_main_loop_def)
qed

lemma handle_events_ok:
  assumes "hosted c"
  obtains c' where "handle_events now revents r rs c = Inr c'" "tended c c'"
proof -
  obtain c1 st1 where c1: "(if revents AND POLLIN \<noteq> 0 \<and> io_open c then handle_input now r c else (c, IO_default)) = (c1, st1)"
    by (metis prod.exhaust)
  then have 1: "tended c c1"
    using tended_input [OF assms, of now r] assms by (auto split: if_splits)
  obtain c2 st2 where 2: "(if revents AND POLLOUT \<noteq> 0 \<and> io_open c1 then handle_output now rs c1 else Inr (c1, IO_default)) = Inr (c2, st2)"
    "tended c1 c2"
    using handle_output_defined [OF tended_hosted [OF 1], of now rs] tended_refl [OF tended_hosted [OF 1]] by metis
  have 3: "tended c c2" using tended_trans [OF 1 2(2)] .
  have "tended c (handle_close c2)" using tended_trans [OF 3 tended_close [OF tended_hosted [OF 3]]] .
  moreover let ?st = "IO_default OR st1 OR st2"
  let ?c = "if close_events revents \<and> ?st AND IO_read_again = 0 \<or> ?st AND IO_close \<noteq> 0 then handle_close c2 else c2"
  have "handle_events now revents r rs c = Inr ?c" unfolding handle_events_def c1 using 2(1) by (simp add: Let_def)
  ultimately show ?thesis using that [of ?c] 3 by simp
qed

lemma io_dispatch:
  assumes R: "reactor_ok R" "m_io R = AtDispatch (f # fs) fm ready"
  shows "\<exists>R'. reactor_main_loop os R = Inr R' \<and> reactor_ok R'"
proof -
  have f: "fds_ok R (f # fs) fm" using R by (simp add: reactor_ok_def objects_ok_def position_ok_def)
  have "\<exists>R'. dispatch os f fm R = Inr R' \<and> reactor_ok R' \<and> m_io R' = m_io R \<and> m_clients R' = m_clients R \<and> m_pipefd R' = m_pipefd R"
  proof (cases "pfd_fd f = m_pipefd R")
    case False
    then obtain p where p: "fm (pfd_fd f) = Some p" "p \<in> set (m_clients R)"
      using f by (auto simp: fds_ok_def ran_def)
    obtain h where h: "heap R p = Some h" "hosted (conn h)" using client_live [OF R(1) p(2)] by blast
    obtain c' where "handle_events (os_time os) (pfd_revents f) (os_read os (rc_fd h)) (os_send os (rc_fd h)) (conn h) = Inr c'"
      "tended (conn h) c'" using handle_events_ok [OF h(2)] .
    then show ?thesis using reactor_ok_put [OF R(1) h(1)] False p h(1) by (simp add: dispatch_def client_at_def)
  qed (use R in \<open>simp add: dispatch_def\<close>)
  then obtain R' where R': "dispatch os f fm R = Inr R'" "reactor_ok R'" "m_io R' = m_io R" "m_clients R' = m_clients R"
    "m_pipefd R' = m_pipefd R" by blast
  have "reactor_ok (R'\<lparr>m_io := AtDispatch fs fm ready\<rparr>)"
    by (rule reactor_ok_goto) (use R R' f in \<open>simp_all add: goto_simps fds_ok_def\<close>)
  then show ?thesis using R(2) R'(1) by (simp add: reactor_main_loop_def)
qed

lemma io_pull:
  assumes R: "reactor_ok R" "m_io R = AtDispatch [] fm ready"
  shows "\<exists>R'. reactor_main_loop os R = Inr R' \<and> reactor_ok R'"
proof (cases "ready = 0")
  case True
  have "reactor_ok (R\<lparr>m_io := AtSearch (m_clients R)\<rparr>)"
    by (rule reactor_ok_goto) (use R in \<open>simp_all add: goto_simps\<close>)
  then show ?thesis using R True by (simp add: reactor_main_loop_def)
next
  case False
  let ?q = "m_notifq R"
  let ?R = "R\<lparr>m_notifq := ?q\<lparr>m_pending := [], m_pipe := 0\<rparr>, m_io := AtMessages (m_pending ?q)\<rparr>"
  have "messages ?R = messages R" using R(2) by (simp add: messages_def)
  then have "reactor_ok ?R"
    using R unfolding reactor_ok_def objects_ok_def
    by (simp add: hosting_def lists_ok_def destroying_ok_def notif_ok_def position_ok_def owned_def waits_def works_def
        runstate_def states_ok_def ending_def deletions_def runq_ok_def)
  then show ?thesis using R False by (simp add: reactor_main_loop_def pull_def)
qed

text \<open>Attention marks the released connections of the list.\<close>

lemma attend_clients_ok:
  assumes "\<And>p. p \<in> set ps \<Longrightarrow> heap R p \<noteq> None"
  shows "\<exists>ds. attend_clients ps R = Inr (R\<lparr>m_destroying := ds\<rparr>) \<and> (distinct (m_destroying R) \<longrightarrow> distinct ds) \<and>
    set ds = set (m_destroying R) \<union> {p \<in> set ps. \<exists>h. heap R p = Some h \<and> wants_delete (conn h)}"
  using assms
proof (induction ps arbitrary: R)
  case Nil
  show ?case by (intro exI [of _ "m_destroying R"]) simp
next
  case (Cons p ps)
  obtain h where h: "heap R p = Some h" using Cons.prems [of p] by auto
  let ?ds = "if wants_delete (conn h) then insort_insert p (m_destroying R) else m_destroying R"
  let ?R = "R\<lparr>m_destroying := ?ds\<rparr>"
  obtain ds where ds: "attend_clients ps ?R = Inr (?R\<lparr>m_destroying := ds\<rparr>)" "distinct ?ds \<longrightarrow> distinct ds"
    "set ds = set ?ds \<union> {p \<in> set ps. \<exists>h. heap R p = Some h \<and> wants_delete (conn h)}"
    using Cons.IH [of ?R] Cons.prems by auto
  have "attend_clients (p # ps) R = attend_clients ps ?R"
    using h by (simp add: client_at_def attn_flag_def)
  then have "attend_clients (p # ps) R = Inr (R\<lparr>m_destroying := ds\<rparr>)" using ds(1) by simp
  moreover have "distinct (m_destroying R) \<longrightarrow> distinct ds" using ds(2) distinct_insort_insert [of "m_destroying R" "\<lambda>x. x" p] by auto
  moreover have "set ?ds = set (m_destroying R) \<union> (if wants_delete (conn h) then {p} else {})"
    by (simp add: set_insort_insert)
  ultimately show ?case using ds(3) h by (intro exI [of _ ds]) auto
qed

lemma message_taken:
  assumes R: "reactor_ok R" "m_io R = AtMessages (m # ms)" and m: "msg_type m \<noteq> eAttn" "msg_type m \<noteq> eAdd"
  shows "reactor_ok (R\<lparr>m_is_stopping := b, m_io := AtMessages ms\<rparr>)"
proof -
  let ?R = "R\<lparr>m_is_stopping := b, m_io := AtMessages ms\<rparr>"
  have ms: "messages R = m # messages ?R" using R(2) by (simp add: messages_def)
  have "lists_ok ?R" using R m ms by (simp add: reactor_ok_def objects_ok_def lists_ok_def)
  moreover have "destroying_ok ?R"
    using R m ms coming_skip [of _ m "messages ?R"] by (auto simp: reactor_ok_def objects_ok_def destroying_ok_def)
  ultimately show ?thesis
    using R unfolding reactor_ok_def objects_ok_def
    by (simp add: hosting_def position_ok_def owned_def waits_def works_def runstate_def states_ok_def ending_def
        deletions_def runq_ok_def)
qed

lemma message_add:
  assumes R: "reactor_ok R" "m_io R = AtMessages (m # ms)" and m: "msg_type m = eAdd" "msg_ptr m = Some p"
  shows "reactor_ok (R\<lparr>m_clients := m_clients R @ [p], m_io := AtMessages ms\<rparr>)"
proof -
  let ?R = "R\<lparr>m_clients := m_clients R @ [p], m_io := AtMessages ms\<rparr>"
  have ms: "messages R = m # messages ?R" using R(2) by (simp add: messages_def)
  have "lists_ok ?R" using R m ms by (auto simp: reactor_ok_def objects_ok_def lists_ok_def)
  moreover have "destroying_ok ?R"
    using R m ms coming_skip [of _ m "messages ?R"] by (auto simp: reactor_ok_def objects_ok_def destroying_ok_def)
  ultimately show ?thesis
    using R unfolding reactor_ok_def objects_ok_def
    by (simp add: hosting_def position_ok_def owned_def waits_def works_def runstate_def states_ok_def ending_def
        deletions_def runq_ok_def)
qed

lemma message_attn:
  assumes R: "reactor_ok R" "m_io R = AtMessages (m # ms)" and m: "msg_type m = eAttn"
    and ds: "distinct ds" "set ds = set (m_destroying R) \<union> {p \<in> set (m_clients R). \<exists>h. heap R p = Some h \<and> wants_delete (conn h)}"
  shows "reactor_ok (R\<lparr>m_destroying := ds, m_io := AtMessages ms\<rparr>)"
proof -
  let ?R = "R\<lparr>m_destroying := ds, m_io := AtMessages ms\<rparr>"
  have ms: "messages R = m # messages ?R" using R(2) by (simp add: messages_def)
  have "lists_ok ?R" using R m ms by (simp add: reactor_ok_def objects_ok_def lists_ok_def)
  moreover have "coming p (messages ?R)" if "coming p (m # messages ?R)" "p \<in> set (joining (messages ?R))" for p
    using that coming_Cons [of p m "messages ?R"] by auto
  moreover have d: "set (m_destroying R) \<subseteq> set (m_clients R)" "heap R p = Some h \<Longrightarrow> p \<in> set (m_destroying R) \<Longrightarrow> wants_delete (conn h)"
    "heap R p = Some h \<Longrightarrow> wants_delete (conn h) \<Longrightarrow> p \<in> set (joining (messages ?R)) \<Longrightarrow>
       p \<in> set (m_destroying R) \<or> coming p (m # messages ?R)" for p h
    using R(1) m ms by (auto simp: reactor_ok_def objects_ok_def destroying_ok_def)
  ultimately have late: "p \<in> set (m_destroying R) \<or> coming p (messages ?R)"
    if "heap R p = Some h" "wants_delete (conn h)" "p \<in> set (joining (messages ?R))" for p h
    using that by blast
  have "destroying_ok ?R"
    unfolding destroying_ok_def using ds d(1,2) late by fastforce
  moreover note \<open>lists_ok ?R\<close>
  ultimately show ?thesis
    using R unfolding reactor_ok_def objects_ok_def
    by (simp add: hosting_def position_ok_def owned_def waits_def works_def runstate_def states_ok_def ending_def
        deletions_def runq_ok_def)
qed

lemma io_message:
  assumes R: "reactor_ok R" "m_io R = AtMessages (m # ms)"
  shows "\<exists>R'. reactor_main_loop os R = Inr R' \<and> reactor_ok R'"
proof -
  note skip = message_taken [OF R, of "m_is_stopping R"] and stop = message_taken [OF R, of True]
  show ?thesis
  proof (cases "msg_type m")
    case eAdd
    have "m \<in> set (messages R)" using R(2) by (simp add: messages_def)
    then obtain p where p: "msg_ptr m = Some p"
      using R(1) eAdd by (auto simp: reactor_ok_def objects_ok_def lists_ok_def)
    show ?thesis using message_add [OF R eAdd p] R(2) eAdd p by (simp add: reactor_main_loop_def handle_reactor_msg_def)
  next
    case eAttn
    have "\<And>p. p \<in> set (m_clients R) \<Longrightarrow> heap R p \<noteq> None" using client_live [OF R(1)] by blast
    then obtain ds where ds: "attend_clients (m_clients R) R = Inr (R\<lparr>m_destroying := ds\<rparr>)" "distinct (m_destroying R) \<longrightarrow> distinct ds"
      "set ds = set (m_destroying R) \<union> {p \<in> set (m_clients R). \<exists>h. heap R p = Some h \<and> wants_delete (conn h)}"
      using attend_clients_ok [of "m_clients R" R] by blast
    have "distinct ds" using ds(2) R(1) by (simp add: reactor_ok_def objects_ok_def destroying_ok_def)
    then show ?thesis
      using message_attn [OF R eAttn _ ds(3)] R(2) eAttn ds(1) by (simp add: reactor_main_loop_def handle_reactor_msg_def)
  qed (use R(2) skip stop in \<open>simp_all add: reactor_main_loop_def handle_reactor_msg_def\<close>)
qed

text \<open>A change of the run state alone logs nothing.\<close>

lemma put_runstate:
  "put_client p h ((conn h)\<lparr>m_runstate := x\<rparr>) R = R\<lparr>heap := (heap R)(p \<mapsto> h\<lparr>conn := (conn h)\<lparr>m_runstate := x\<rparr>\<rparr>)\<rparr>"
  by (simp add: put_client_def logged_def)

lemma hosted_runstate [simp]: "hosted (c\<lparr>m_runstate := x\<rparr>) = hosted c"
  by (simp add: hosted_def in_ok_def)

lemma objects_ok_runstate:
  assumes "objects_ok R" "heap R p = Some h"
  shows "objects_ok (put_client p h ((conn h)\<lparr>m_runstate := x\<rparr>) R)"
  using assms by (intro objects_ok_put) (auto simp: objects_ok_def hosting_def announces_def)

lemma ending_runstate:
  assumes "reactor_ok R" "heap R p = Some h" "m_runstate (conn h) \<noteq> CHR ''N''"
  shows "\<forall>q \<in> set (deletions R). ending (put_client p h c R) q"
  using assms by (auto simp: reactor_ok_def states_ok_def ending_def)

lemma owned_change:
  assumes "owned R" "\<And>q. runstate R' q = (if q = p then Some x else runstate R q)"
    "\<And>q. q \<noteq> p \<Longrightarrow> waits q R' = waits q R \<and> works q R' = works q R"
    "waits p R' = (if x = CHR ''Q'' then 1 else 0)" "works p R' = (if x = CHR ''R'' then 1 else 0)"
  shows "owned R'"
  unfolding owned_def using assms by (simp add: owned_def)

lemma owned_counts:
  assumes "owned R" "heap R p = Some h"
  shows "waits p R = (if m_runstate (conn h) = CHR ''Q'' then 1 else 0)"
    "works p R = (if m_runstate (conn h) = CHR ''R'' then 1 else 0)"
  using assms by (simp_all add: owned_def runstate_def)

lemma io_search:
  assumes R: "reactor_ok R" "m_io R = AtSearch (p # ps)"
  shows "\<exists>R'. reactor_main_loop os R = Inr R' \<and> reactor_ok R'"
proof -
  have p: "set (p # ps) \<subseteq> set (m_clients R)" using R by (simp add: reactor_ok_def objects_ok_def position_ok_def)
  obtain h where h: "heap R p = Some h" "hosted (conn h)" using client_live [OF R(1), of p] p by auto
  show ?thesis
  proof (cases "has_work (conn h) \<and> m_runstate (conn h) = CHR ''N''")
    case True
    let ?c = "(conn h)\<lparr>m_runstate := CHR ''Q''\<rparr>"
    let ?R = "(put_client p h ?c R)\<lparr>m_io := AtPush p ps\<rparr>"
    have "objects_ok (put_client p h ?c R)" using objects_ok_runstate [OF _ h(1)] R by (simp add: reactor_ok_def)
    then have "objects_ok ?R"
      using R(2) p by (simp add: objects_ok_def hosting_def lists_ok_def destroying_ok_def position_ok_def messages_def)
    moreover have o: "owned R" using R(1) by (simp add: reactor_ok_def)
    have "owned ?R"
      by (rule owned_change [OF o, of _ p "CHR ''Q''"])
        (use R(2) owned_counts [OF o h(1)] True in \<open>simp_all add: waits_def works_def runstate_def\<close>)
    moreover have "states_ok ?R" using R p h(1) by (auto simp: reactor_ok_def states_ok_def deletions_def)
    moreover have "runq_ok ?R" using R by (auto simp: reactor_ok_def runq_ok_def)
    ultimately have "reactor_ok ?R" by (simp add: reactor_ok_def)
    then show ?thesis
      using R(2) h(1) True by (simp add: reactor_main_loop_def client_at_def update_run_state_for_reactor_def Let_def)
  next
    case False
    let ?R = "put_client p h (conn h) R"
    have "reactor_ok ?R" using reactor_ok_put [OF R(1) h(1)] h(2) by simp
    then have "reactor_ok (?R\<lparr>m_io := AtSearch ps\<rparr>)"
      by (rule reactor_ok_goto) (use R(2) p in \<open>simp_all add: goto_simps\<close>)
    then show ?thesis
      using R(2) h(1) False by (auto simp: reactor_main_loop_def client_at_def update_run_state_for_reactor_def Let_def)
  qed
qed

lemma io_push:
  assumes R: "reactor_ok R" "m_io R = AtPush p ps"
  shows "\<exists>R'. reactor_main_loop os R = Inr R' \<and> reactor_ok R'"
proof -
  let ?R = "(runq_push (Some p) R)\<lparr>m_io := AtSearch ps\<rparr>"
  have "objects_ok ?R"
    using R by (simp add: reactor_ok_def objects_ok_def hosting_def lists_ok_def destroying_ok_def position_ok_def messages_def runq_push_def)
  moreover have "waits q ?R = waits q R" for q using R(2) by (simp add: waits_def runq_push_def)
  then have "owned ?R" using R by (simp add: reactor_ok_def owned_def works_def runstate_def runq_push_def)
  moreover have "states_ok ?R" using R by (simp add: reactor_ok_def states_ok_def deletions_def runq_push_def)
  moreover have "runq_ok ?R" using R by (simp add: reactor_ok_def runq_ok_def runq_push_def)
  ultimately have "reactor_ok ?R" by (simp add: reactor_ok_def)
  then show ?thesis using R(2) by (simp add: reactor_main_loop_def)
qed

lemma io_cycle_start:
  assumes R: "reactor_ok R" "m_io R = AtSearch []"
  shows "\<exists>R'. reactor_main_loop os R = Inr R' \<and> reactor_ok R'"
proof -
  let ?x = "AtCycle (os_time os) (m_destroying R) []"
  have "reactor_ok (R\<lparr>m_io := ?x\<rparr>)"
    by (rule reactor_ok_goto) (use R in \<open>simp_all add: goto_simps reactor_ok_def objects_ok_def destroying_ok_def\<close>)
  then have "reactor_ok (R\<lparr>m_last_cleanup := os_time os, m_io := ?x\<rparr>)"
    by (simp add: reactor_ok_def objects_defs output_seen_def owned_def states_ok_def runq_ok_def ending_def
        waits_def works_def runstate_def messages_def deletions_def)
  moreover have "reactor_ok (R\<lparr>m_io := AtTop\<rparr>)" by (rule reactor_ok_goto) (use R in \<open>simp_all add: goto_simps\<close>)
  ultimately show ?thesis using R(2) by (simp add: reactor_main_loop_def)
qed

lemma destroy_cycle_gone: "destroy_cycle t c = (c', True) \<Longrightarrow> m_io_closed c'"
  by (auto simp: destroy_cycle_def Let_def split: if_splits)

lemma io_cycle:
  assumes R: "reactor_ok R" "m_io R = AtCycle now (p # ps) del"
  shows "\<exists>R'. reactor_main_loop os R = Inr R' \<and> reactor_ok R'"
proof -
  have p: "set ((p # ps) @ del) \<subseteq> set (m_destroying R)" "distinct ((p # ps) @ del)" "p \<in> set (m_clients R)"
    using R by (auto simp: reactor_ok_def objects_ok_def position_ok_def destroying_ok_def)
  obtain h where h: "heap R p = Some h" "hosted (conn h)" using client_live [OF R(1) p(3)] by blast
  obtain c' gone where c': "destroy_cycle now (conn h) = (c', gone)" by (cases "destroy_cycle now (conn h)")
  let ?R = "put_client p h c' R"
  let ?del = "if gone \<and> get_run_state c' = CHR ''N'' then insort_insert p del else del"
  have ok: "reactor_ok ?R" using reactor_ok_put [OF R(1) h(1), of c'] tended_cycle [OF h(2), of now] c' by simp
  have del: "set ?del = (if gone \<and> get_run_state c' = CHR ''N'' then insert p (set del) else set del)"
    "distinct ?del" using distinct_insort_insert [of del "\<lambda>x. x" p] p(2) by (simp_all add: set_insort_insert)
  moreover have "ending ?R q" if "q \<in> set del" for q
    using ok R(2) that by (simp add: reactor_ok_def states_ok_def deletions_def)
  moreover have "ending ?R p" if "gone \<and> get_run_state c' = CHR ''N''"
    using that destroy_cycle_gone [of now "conn h" c'] c' by (simp add: ending_def get_run_state_def)
  ultimately have "\<forall>q \<in> set ?del. ending ?R q" by auto
  then have "reactor_ok (?R\<lparr>m_io := AtCycle now ps ?del\<rparr>)"
    by (intro reactor_ok_goto [OF ok]) (use R(2) p(1,2) del in \<open>auto simp: goto_simps split: if_splits\<close>)
  then show ?thesis using R(2) h(1) c' by (simp add: reactor_main_loop_def client_at_def)
qed

section \<open>Deletion\<close>

lemma delete_all_ok:
  assumes "distinct del" "\<And>p. p \<in> set del \<Longrightarrow> heap R p \<noteq> None"
  shows "delete_all del R = Inr (R\<lparr>m_destroying := filter (\<lambda>p. p \<notin> set del) (m_destroying R),
    heap := (\<lambda>p. if p \<in> set del then None else heap R p)\<rparr>)"
  using assms
proof (induction del arbitrary: R)
  case (Cons p del)
  let ?R = "R\<lparr>m_destroying := filter (\<lambda>q. q \<noteq> p) (m_destroying R), heap := (heap R)(p := None)\<rparr>"
  have "delete_all (p # del) R = delete_all del ?R"
    using Cons.prems(2) [of p] by (auto simp: client_at_def split: option.splits)
  moreover have "delete_all del ?R = Inr (?R\<lparr>m_destroying := filter (\<lambda>p. p \<notin> set del) (m_destroying ?R),
    heap := (\<lambda>p. if p \<in> set del then None else heap ?R p)\<rparr>)"
    using Cons.prems by (intro Cons.IH) auto
  moreover have "filter (\<lambda>q. q \<notin> set del) (m_destroying ?R) = filter (\<lambda>q. q \<notin> set (p # del)) (m_destroying R)"
    by (auto simp: filter_filter intro: filter_cong)
  moreover have "(\<lambda>q. if q \<in> set del then None else heap ?R q) = (\<lambda>q. if q \<in> set (p # del) then None else heap R q)"
    by auto
  ultimately show ?case by simp
qed simp

definition deleted :: "nat list \<Rightarrow> Reactor \<Rightarrow> Reactor" where
  "deleted del R = R\<lparr>m_clients := filter (\<lambda>p. p \<notin> set del) (m_clients R),
     m_destroying := filter (\<lambda>p. p \<notin> set del) (m_destroying R),
     heap := (\<lambda>p. if p \<in> set del then None else heap R p)\<rparr>"

lemma delete_now_ok:
  assumes "distinct del" "\<And>p. p \<in> set del \<Longrightarrow> heap R p \<noteq> None"
  shows "delete_now del R = Inr (deleted del R)"
  using delete_all_ok [of del "R\<lparr>m_clients := filter (\<lambda>p. p \<notin> set del) (m_clients R)\<rparr>"] assms
  by (simp add: delete_now_def deleted_def cong: if_cong)

lemma io_delete:
  assumes R: "reactor_ok R" "m_io R = AtCycle now [] del"
  shows "\<exists>R'. reactor_main_loop os R = Inr R' \<and> reactor_ok R'"
proof -
  let ?R = "(deleted del R)\<lparr>m_io := AtTop\<rparr>"
  have ok: "objects_ok R" "owned R" "states_ok R" "runq_ok R" using R by (simp_all add: reactor_ok_def)
  have del: "distinct del" "set del \<subseteq> set (m_destroying R)" "\<And>p. p \<in> set del \<Longrightarrow> ending R p"
    using ok R(2) by (simp_all add: objects_ok_def position_ok_def states_ok_def deletions_def)
  have ms: "messages ?R = messages R" using R(2) by (simp add: messages_def deleted_def)
  have here: "set del \<subseteq> set (m_clients R)" using ok(1) del(2) by (auto simp: objects_ok_def destroying_ok_def)
  have "hosting ?R" using ok(1) by (simp add: objects_ok_def hosting_def deleted_def)
  moreover have "lists_ok ?R"
    using ok(1) here unfolding objects_ok_def lists_ok_def ms by (auto simp: deleted_def)
  moreover have "destroying_ok ?R"
    using ok(1) unfolding objects_ok_def destroying_ok_def ms by (auto simp: deleted_def)
  moreover have "notif_ok (m_notifq ?R)" using ok(1) by (simp add: objects_ok_def deleted_def)
  ultimately have "objects_ok ?R" by (simp add: objects_ok_def position_ok_def)
  moreover have "owned ?R"
  proof -
    have "runstate ?R p = (if p \<in> set del then None else runstate R p)" for p by (simp add: runstate_def deleted_def)
    moreover have "runstate R p = Some (CHR ''N'')" if "p \<in> set del" for p
      using del(3) [OF that] by (auto simp: ending_def runstate_def)
    moreover have "waits p ?R = waits p R" "works p ?R = works p R" for p
      using R(2) by (simp_all add: waits_def works_def deleted_def)
    ultimately show ?thesis using ok(2) by (simp add: owned_def)
  qed
  moreover have "states_ok ?R" using ok(3) here by (simp add: states_ok_def deleted_def deletions_def)
  moreover have "runq_ok ?R" using ok(4) R(2) by (simp add: runq_ok_def deleted_def)
  ultimately have "reactor_ok ?R" by (simp add: reactor_ok_def)
  moreover have "delete_now del R = Inr (deleted del R)"
    by (rule delete_now_ok [OF del(1)]) (use del(3) in \<open>auto simp: ending_def\<close>)
  ultimately show ?thesis using R(2) by (simp add: reactor_main_loop_def)
qed

text \<open>The reactor thread can always go on, and keeps the invariant.\<close>

lemma reactor_main_loop_ok:
  assumes R: "reactor_ok R"
  obtains R' where "reactor_main_loop os R = Inr R'" "reactor_ok R'"
proof -
  have "\<exists>R'. reactor_main_loop os R = Inr R' \<and> reactor_ok R'"
  proof (cases "m_io R")
    case AtEnd
    then show ?thesis using R by (simp add: reactor_main_loop_def)
  next
    case (AtDispatch fs fm ready)
    then show ?thesis using R io_dispatch io_pull by (cases fs) auto
  next
    case (AtMessages ms)
    have "reactor_ok (R\<lparr>m_io := AtSearch (m_clients R)\<rparr>)" if "ms = []"
      by (rule reactor_ok_goto) (use R AtMessages that in \<open>simp_all add: goto_simps\<close>)
    then show ?thesis using R AtMessages io_message by (cases ms) (auto simp: reactor_main_loop_def)
  next
    case (AtSearch ps)
    then show ?thesis using R io_search io_cycle_start by (cases ps) auto
  next
    case (AtCycle now ps del)
    then show ?thesis using R io_cycle io_delete by (cases ps) auto
  qed (use R io_top io_poll io_push in auto)
  then show ?thesis using that by blast
qed

end
