(* ===== verification/Reactor_Steps.thy ===== *)
theory Reactor_Steps
  imports Reactor_Laws
begin

unbundle bit_operations_syntax

text \<open>
  The steps of the reactor thread, the workers and the application, in any order: every step
  keeps the invariant of the reactor.
\<close>

section \<open>Steps of a worker\<close>

lemma count_list_update:
  "i < length xs \<Longrightarrow> count_list (xs[i := x]) y + (if xs ! i = y then 1 else 0) = count_list xs y + (if x = y then 1 else 0)"
proof (induction xs arbitrary: i)
  case (Cons a xs)
  show ?case using Cons.IH [of "i - 1"] Cons.prems by (cases i) auto
qed simp

lemma set_worker_simps [simp]:
  "heap (set_worker i x R) = heap R" "m_clients (set_worker i x R) = m_clients R" "m_io (set_worker i x R) = m_io R"
  "m_destroying (set_worker i x R) = m_destroying R" "m_notifq (set_worker i x R) = m_notifq R"
  "runq_items (set_worker i x R) = runq_items R" "runq_itemcount (set_worker i x R) = runq_itemcount R"
  "m_pipefd (set_worker i x R) = m_pipefd R" "messages (set_worker i x R) = messages R"
  "deletions (set_worker i x R) = deletions R" "ending (set_worker i x R) = ending R"
  by (simp_all add: set_worker_def messages_def deletions_def ending_def fun_eq_iff split: position.split)

lemma objects_ok_worker [simp]: "objects_ok (set_worker i x R) = objects_ok R"
proof -
  have "fds_ok (set_worker i x R) = fds_ok R" "output_seen (set_worker i x R) = output_seen R"
    by (simp_all add: fun_eq_iff fds_ok_def output_seen_def)
  then show ?thesis by (simp add: objects_ok_def hosting_def lists_ok_def destroying_ok_def position_ok_def split: position.split)
qed

lemma worker_counts:
  assumes "i < length (m_workers R)"
  shows "waits p (set_worker i x R) + (if m_workers R ! i = Took p then 1 else 0) = waits p R + (if x = Took p then 1 else 0)"
    "works p (set_worker i x R) + (if m_workers R ! i = Working p \<or> m_workers R ! i = Worked p then 1 else 0) =
     works p R + (if x = Working p \<or> x = Worked p then 1 else 0)"
  using count_list_update [OF assms, of x "Took p"] count_list_update [OF assms, of x "Working p"]
    count_list_update [OF assms, of x "Worked p"]
  by (auto simp: waits_def works_def set_worker_def split: if_splits)

lemma in_count_list: "i < length xs \<Longrightarrow> 0 < count_list xs (xs ! i)"
  by (metis count_notin gr0I nth_mem count_list_0_iff)

lemma holder_live:
  assumes R: "reactor_ok R" "i < length (m_workers R)"
  shows "m_workers R ! i = Took p \<Longrightarrow> \<exists>h. heap R p = Some h \<and> m_runstate (conn h) = CHR ''Q''"
    "m_workers R ! i = Working p \<or> m_workers R ! i = Worked p \<Longrightarrow> \<exists>h. heap R p = Some h \<and> m_runstate (conn h) = CHR ''R''"
proof -
  have o: "owned R" using R(1) by (simp add: reactor_ok_def)
  have n: "0 < count_list (m_workers R) (m_workers R ! i)" by (rule in_count_list [OF R(2)])
  show "\<exists>h. heap R p = Some h \<and> m_runstate (conn h) = CHR ''Q''" if "m_workers R ! i = Took p"
  proof -
    have "0 < waits p R" using n that by (simp add: waits_def)
    then have "runstate R p = Some (CHR ''Q'')" using o by (auto simp: owned_def split: if_splits)
    then show ?thesis by (auto simp: runstate_def)
  qed
  show "\<exists>h. heap R p = Some h \<and> m_runstate (conn h) = CHR ''R''" if "m_workers R ! i = Working p \<or> m_workers R ! i = Worked p"
  proof -
    have "0 < works p R" using n that by (auto simp: works_def)
    then have "runstate R p = Some (CHR ''R'')" using o by (auto simp: owned_def split: if_splits)
    then show ?thesis by (auto simp: runstate_def)
  qed
qed

text \<open>A worker that moves without a change of run states.\<close>

lemma reactor_ok_worker:
  assumes R: "reactor_ok R" "i < length (m_workers R)"
    and x: "\<And>p. x = Took p \<longleftrightarrow> m_workers R ! i = Took p"
      "\<And>p. x = Working p \<or> x = Worked p \<longleftrightarrow> m_workers R ! i = Working p \<or> m_workers R ! i = Worked p"
  shows "reactor_ok (set_worker i x R)"
proof -
  have "waits p (set_worker i x R) = waits p R" "works p (set_worker i x R) = works p R" for p
    using worker_counts [OF R(2), of p x] x by (auto split: if_splits)
  then have "owned (set_worker i x R)" using R(1) by (simp add: reactor_ok_def owned_def runstate_def)
  then show ?thesis using R(1) by (simp add: reactor_ok_def states_ok_def runq_ok_def)
qed

lemma worker_take:
  assumes R: "reactor_ok R" "i < length (m_workers R)" "m_workers R ! i = Waiting" "runq_items R = Some p # items"
  shows "reactor_ok (set_worker i (Took p) (R\<lparr>runq_items := items, runq_itemcount := runq_itemcount R - 1\<rparr>))"
proof -
  let ?R1 = "R\<lparr>runq_items := items, runq_itemcount := runq_itemcount R - 1\<rparr>"
  have i: "i < length (m_workers ?R1)" "m_workers ?R1 ! i = Waiting" using R(2,3) by simp_all
  have "waits q R = waits q ?R1 + (if q = p then 1 else 0)" "works q R = works q ?R1" for q
    using R(4) by (auto simp: waits_def works_def)
  then have "waits q (set_worker i (Took p) ?R1) = waits q R" "works q (set_worker i (Took p) ?R1) = works q R" for q
    using worker_counts [OF i(1), of q "Took p"] i(2) by (auto split: if_splits)
  then have "owned (set_worker i (Took p) ?R1)" using R(1) by (simp add: reactor_ok_def owned_def runstate_def)
  moreover have "objects_ok ?R1"
  proof -
    have "fds_ok ?R1 = fds_ok R" "output_seen ?R1 = output_seen R" "messages ?R1 = messages R"
      by (simp_all add: fun_eq_iff fds_ok_def output_seen_def messages_def)
    then show ?thesis
      using R(1) by (simp add: reactor_ok_def objects_ok_def hosting_def lists_ok_def destroying_ok_def position_ok_def split: position.splits)
  qed
  ultimately show ?thesis
    using R(1,4) by (simp add: reactor_ok_def states_ok_def runq_ok_def ending_def deletions_def)
qed

lemma worker_begin:
  assumes R: "reactor_ok R" "i < length (m_workers R)" "m_workers R ! i = Took p" "heap R p = Some h"
  shows "reactor_ok (set_worker i (Working p) (put_client p h (set_run_state (conn h)) R))"
proof -
  let ?R1 = "put_client p h (set_run_state (conn h)) R" and ?ws = "set_worker i (Working p)"
  have ok: "objects_ok R" "owned R" "states_ok R" "runq_ok R" using R(1) by (simp_all add: reactor_ok_def)
  have q: "m_runstate (conn h) = CHR ''Q''" using holder_live(1) [OF R(1,2,3)] R(4) by simp
  have c: "set_run_state (conn h) = (conn h)\<lparr>m_runstate := CHR ''R''\<rparr>" by (simp add: set_run_state_def)
  have i: "i < length (m_workers ?R1)" "m_workers ?R1 ! i = Took p" using R(2,3) by simp_all
  have cnt: "waits r ?R1 = waits r R" "works r ?R1 = works r R" for r by (simp_all add: waits_def works_def)
  have w: "waits r (?ws ?R1) = (if r = p then waits r R - 1 else waits r R)"
    "works r (?ws ?R1) = works r R + (if r = p then 1 else 0)" for r
    using worker_counts [OF i(1), of r "Working p"] i(2) cnt by (auto split: if_splits)
  have "owned (?ws ?R1)"
    by (rule owned_change [OF ok(2), of _ p "CHR ''R''"])
      (use w owned_counts [OF ok(2) R(4)] q c in \<open>simp_all add: runstate_def\<close>)
  moreover have "objects_ok ?R1" using objects_ok_runstate [OF ok(1) R(4)] c by simp
  moreover have "states_ok (?ws ?R1)"
  proof -
    have "m_runstate (conn h) = CHR ''N''" if "p \<notin> set (m_clients R)"
      using ok(3) R(4) that unfolding states_ok_def by blast
    then have "p \<in> set (m_clients R)" using q by auto
    then show ?thesis
      using ok(3) c ending_runstate [OF R(1,4), of "set_run_state (conn h)"] q by (simp add: states_ok_def deletions_def)
  qed
  moreover have "runq_ok (?ws ?R1)" using ok(4) by (simp add: runq_ok_def)
  ultimately show ?thesis by (simp add: reactor_ok_def)
qed

lemma worker_done:
  assumes R: "reactor_ok R" "i < length (m_workers R)" "m_workers R ! i = Worked p" "heap R p = Some h"
  shows "reactor_ok (set_worker i Waiting (put_client p h ((conn h)\<lparr>m_runstate := CHR ''N''\<rparr>) R))"
proof -
  let ?R1 = "put_client p h ((conn h)\<lparr>m_runstate := CHR ''N''\<rparr>) R" and ?ws = "set_worker i Waiting"
  have ok: "objects_ok R" "owned R" "states_ok R" "runq_ok R" using R(1) by (simp_all add: reactor_ok_def)
  have q: "m_runstate (conn h) = CHR ''R''" using holder_live(2) [OF R(1,2)] R(3,4) by force
  have i: "i < length (m_workers ?R1)" "m_workers ?R1 ! i = Worked p" using R(2,3) by simp_all
  have cnt: "waits r ?R1 = waits r R" "works r ?R1 = works r R" for r by (simp_all add: waits_def works_def)
  have w: "waits r (?ws ?R1) = waits r R" "works r (?ws ?R1) = (if r = p then works r R - 1 else works r R)" for r
    using worker_counts [OF i(1), of r Waiting] i(2) cnt by (auto split: if_splits)
  have "owned (?ws ?R1)"
    by (rule owned_change [OF ok(2), of _ p "CHR ''N''"])
      (use w owned_counts [OF ok(2) R(4)] q in \<open>simp_all add: runstate_def\<close>)
  moreover have "objects_ok ?R1" using objects_ok_runstate [OF ok(1) R(4)] by simp
  moreover have "states_ok (?ws ?R1)"
    using ok(3) ending_runstate [OF R(1,4), of "(conn h)\<lparr>m_runstate := CHR ''N''\<rparr>"] q by (simp add: states_ok_def deletions_def)
  moreover have "runq_ok (?ws ?R1)" using ok(4) by (simp add: runq_ok_def)
  ultimately show ?thesis by (simp add: reactor_ok_def)
qed

lemma worker_ok:
  assumes R: "reactor_ok R" "i < length (m_workers R)"
    and e: "\<And>p h. m_workers R ! i = Working p \<Longrightarrow> heap R p = Some h \<Longrightarrow> m_cb (conn h) \<Longrightarrow> good p e"
    and cb: "\<And>p. handler (pi p) (pc p) (good p)" "lim < 2 ^ 62"
  shows "case worker_TEP_impl lim pi pc e i R of
    Inr R' \<Rightarrow> reactor_ok R' | Inl x \<Rightarrow> \<exists>p. m_workers R ! i = Working p \<and> own_fault (pi p) (pc p) x"
proof (cases "m_workers R ! i")
  case Waiting
  have q: "runq_itemcount R = length (runq_items R)" using R(1) by (simp add: reactor_ok_def runq_ok_def)
  have "reactor_ok (set_worker i Finished R)" by (rule reactor_ok_worker [OF R]) (use Waiting in simp_all)
  then show ?thesis
    using q R(1) Waiting worker_take [OF R Waiting]
    by (cases "runq_items R") (auto simp: worker_TEP_impl_def split: option.split)
next
  case (Took p)
  obtain h where h: "heap R p = Some h" using holder_live(1) [OF R Took] by blast
  show ?thesis using worker_begin [OF R Took h] Took h by (simp add: worker_TEP_impl_def client_at_def)
next
  case (Working p)
  obtain h where h: "heap R p = Some h" using holder_live(2) [OF R] Working by blast
  have hosted: "hosted (conn h)" using R(1) h by (simp add: reactor_ok_def objects_ok_def hosting_def)
  obtain c' e' err where d: "do_work lim (pi p) (pc p) (conn h, e) = ((c', e'), err)" by (metis prod_cases3 prod.collapse)
  note w = handler.do_work_hosted [OF cb(1) hosted cb(2) e [OF Working h] d]
  show ?thesis
  proof (cases "\<exists>x. err = Some x \<and> undefined_access x")
    case True
    then obtain x where x: "err = Some x" "undefined_access x" by blast
    then show ?thesis using w(2) Working h d by (auto simp: worker_TEP_impl_def client_at_def)
  next
    case False
    then have "worked (conn h) c'" using w(1) by (auto simp: own_fault_def)
    then have ok: "reactor_ok (put_client p h c' R)" by (intro reactor_ok_put [OF R(1) h] tended_worked)
    have "reactor_ok (set_worker i (Worked p) (put_client p h c' R))"
      by (rule reactor_ok_worker [OF ok]) (use R(2) Working in auto)
    then show ?thesis using False Working h d by (auto simp: worker_TEP_impl_def client_at_def split: option.split)
  qed
next
  case (Worked p)
  obtain h where h: "heap R p = Some h" "m_runstate (conn h) = CHR ''R''" using holder_live(2) [OF R] Worked by blast
  have hosted: "hosted (conn h)" using R(1) h by (simp add: reactor_ok_def objects_ok_def hosting_def)
  have ok: "reactor_ok (put_client p h (conn h) R)" using hosted by (intro reactor_ok_put [OF R(1) h(1)]) simp
  have "reactor_ok (set_worker i (Working p) (put_client p h (conn h) R))"
    by (rule reactor_ok_worker [OF ok]) (use R(2) Worked in auto)
  then show ?thesis
    using worker_done [OF R Worked h(1)] Worked h by (simp add: worker_TEP_impl_def client_at_def update_run_state_for_worker_def Let_def)
next
  case Finished
  then show ?thesis using R(1) by (simp add: worker_TEP_impl_def)
qed

section \<open>Steps of the application\<close>

lemma reactor_ok_notify:
  assumes R: "reactor_ok R" and m: "msg_type m \<noteq> eAdd"
  shows "reactor_ok (notify m R)"
proof -
  let ?R = "notify m R"
  obtain xs where xs: "m_pending (m_notifq ?R) = m_pending (m_notifq R) @ xs" "xs = [] \<or> xs = [m]"
    unfolding notify_def by (cases "m_notifq R" rule: push_msg_cases [of m]) auto
  have ms: "messages ?R = messages R @ xs" using xs(1) by (simp add: messages_def notify_def split: position.split)
  have j: "joining xs = []" "\<forall>x \<in> set xs. msg_type x \<noteq> eAdd" using xs(2) m by auto
  have ok: "objects_ok R" "owned R" "states_ok R" "runq_ok R" using R by (simp_all add: reactor_ok_def)
  have same: "heap ?R = heap R" "m_clients ?R = m_clients R" "m_io ?R = m_io R" "m_destroying ?R = m_destroying R"
    "runq_items ?R = runq_items R" "runq_itemcount ?R = runq_itemcount R" "m_workers ?R = m_workers R" "m_pipefd ?R = m_pipefd R"
    by (simp_all add: notify_def)
  have "coming p (messages R @ xs)" if "coming p (messages R)" for p using that coming_append j(1) by simp
  moreover have "joining (messages R @ xs) = joining (messages R)" using j(1) by simp
  ultimately have "destroying_ok ?R"
    using ok(1) unfolding objects_ok_def destroying_ok_def ms same by metis
  moreover have "lists_ok ?R" using ok(1) ms j same by (auto simp: objects_ok_def lists_ok_def)
  moreover have "notif_ok (m_notifq ?R)" using ok(1) by (simp add: objects_ok_def notify_def notif_ok_push)
  moreover have "fds_ok ?R = fds_ok R" by (simp add: fun_eq_iff fds_ok_def same)
  moreover have "output_seen ?R fs" if "output_seen R fs" for fs using that xs(1) by (auto simp: output_seen_def same)
  ultimately have "objects_ok ?R"
    using ok(1) by (auto simp: objects_ok_def hosting_def position_ok_def same split: position.splits)
  then show ?thesis
    using ok(2-4) by (simp add: reactor_ok_def owned_def waits_def works_def runstate_def states_ok_def ending_def
        deletions_def runq_ok_def same)
qed

lemma reactor_ok_connect:
  assumes R: "reactor_ok R" "heap R p = None"
  shows "reactor_ok (add_client p (R\<lparr>heap := (heap R)(p \<mapsto> \<lparr>rc_fd = fd, conn = new_Client now\<rparr>)\<rparr>))"
proof -
  let ?m = "new_ReactorMsg eAdd (Some p)" and ?n = "\<lparr>rc_fd = fd, conn = new_Client now\<rparr>"
  let ?R = "add_client p (R\<lparr>heap := (heap R)(p \<mapsto> ?n)\<rparr>)"
  have ok: "objects_ok R" "owned R" "states_ok R" "runq_ok R" using R by (simp_all add: reactor_ok_def)
  have pend: "m_pending (m_notifq ?R) = m_pending (m_notifq R) @ [?m]"
    by (simp add: add_client_def notify_def push_msg_def new_ReactorMsg_def)
  have ms: "messages ?R = messages R @ [?m]"
    using pend by (simp add: messages_def add_client_def notify_def split: position.split)
  have same: "heap ?R = (heap R)(p \<mapsto> ?n)" "m_clients ?R = m_clients R" "m_io ?R = m_io R" "m_destroying ?R = m_destroying R"
    "runq_items ?R = runq_items R" "runq_itemcount ?R = runq_itemcount R" "m_workers ?R = m_workers R" "m_pipefd ?R = m_pipefd R"
    by (simp_all add: add_client_def notify_def)
  have live: "heap R q \<noteq> None" if "q \<in> set (m_clients R @ joining (messages R))" for q
    using ok(1) that unfolding objects_ok_def lists_ok_def by blast
  then have new: "p \<notin> set (m_clients R)" "p \<notin> set (joining (messages R))" using R(2) live [of p] by auto
  then have "p \<notin> set (m_destroying R)" using ok(1) by (auto simp: objects_ok_def destroying_ok_def)
  note new = new this
  have flags: "\<not> wants_delete (new_Client now)" "m_runstate (new_Client now) = CHR ''N''" by (simp_all add: new_Client_def)
  have "destroying_ok ?R"
  proof -
    have "coming q (messages ?R)" if "coming q (messages R)" "heap R q = Some h" for q h
    proof -
      have "q \<noteq> p" using that(2) R(2) by auto
      then show ?thesis using coming_append [OF that(1), of "[?m]"] ms by (simp add: new_ReactorMsg_def)
    qed
    moreover have d: "q \<in> set (m_destroying R) \<or> coming q (messages R)"
      if "heap R q = Some h" "wants_delete (conn h)" "q \<in> set (m_clients R) \<or> q \<in> set (joining (messages R))" for q h
      using ok(1) that by (auto simp: objects_ok_def destroying_ok_def)
    ultimately have "q \<in> set (m_destroying R) \<or> coming q (messages ?R)"
      if "heap R q = Some h" "wants_delete (conn h)" "q \<in> set (m_clients R) \<or> q \<in> set (joining (messages R))" for q h
      using that by blast
    moreover have "distinct (m_destroying R)" "set (m_destroying R) \<subseteq> set (m_clients R)"
      "heap R q = Some h \<Longrightarrow> q \<in> set (m_destroying R) \<Longrightarrow> wants_delete (conn h)" for q h
      using ok(1) by (auto simp: objects_ok_def destroying_ok_def)
    ultimately show ?thesis
      using new flags(1) unfolding destroying_ok_def same by (auto simp: ms new_ReactorMsg_def split: if_splits)
  qed
  moreover have "lists_ok ?R"
    using ok(1) new unfolding objects_ok_def lists_ok_def same ms by (auto simp: new_ReactorMsg_def)
  moreover have "notif_ok (m_notifq ?R)" using ok(1) by (simp add: objects_ok_def add_client_def notify_def notif_ok_push)
  moreover have "fds_ok ?R = fds_ok R" by (simp add: fun_eq_iff fds_ok_def same)
  moreover have "output_seen ?R fs" for fs using pend by (simp add: output_seen_def)
  moreover have "hosting ?R" using ok(1) by (simp add: objects_ok_def hosting_def same)
  ultimately have "objects_ok ?R"
    using ok(1) by (auto simp: objects_ok_def position_ok_def same split: position.splits)
  moreover have "owned ?R"
  proof -
    have "waits p R = 0" "works p R = 0" using ok(2) R(2) by (simp_all add: owned_def runstate_def)
    then show ?thesis
      by (intro owned_change [OF ok(2), of _ p "CHR ''N''"])
        (simp_all add: same waits_def works_def runstate_def flags(2))
  qed
  moreover have "states_ok ?R"
  proof -
    have "ending ?R q" if "ending R q" for q using that R(2) by (auto simp: ending_def same)
    then show ?thesis using ok(3) flags(2) by (auto simp: states_ok_def deletions_def same)
  qed
  moreover have "runq_ok ?R" using ok(4) by (simp add: runq_ok_def same)
  ultimately show ?thesis by (simp add: reactor_ok_def)
qed

lemma reactor_ok_stopping:
  assumes "reactor_ok R"
  shows "reactor_ok (R\<lparr>m_is_stopping := b\<rparr>)"
proof -
  let ?R = "R\<lparr>m_is_stopping := b\<rparr>"
  have "fds_ok ?R = fds_ok R" "output_seen ?R = output_seen R" "messages ?R = messages R"
    by (simp_all add: fun_eq_iff fds_ok_def output_seen_def messages_def)
  then show ?thesis
    using assms by (simp add: reactor_ok_def objects_ok_def hosting_def lists_ok_def destroying_ok_def position_ok_def
        owned_def states_ok_def runq_ok_def ending_def waits_def works_def runstate_def deletions_def split: position.splits)
qed

lemma reactor_ok_end:
  assumes R: "reactor_ok R" "m_io R = AtEnd"
  shows "reactor_ok (destroy_workers R)"
proof -
  let ?R = "destroy_workers R"
  have "messages ?R = messages R" "waits p ?R = waits p R" for p
    by (simp_all add: destroy_workers_def runq_push_def messages_def waits_def)
  then show ?thesis
    using R by (simp add: reactor_ok_def objects_ok_def hosting_def lists_ok_def destroying_ok_def position_ok_def
        owned_def states_ok_def runq_ok_def ending_def works_def runstate_def deletions_def destroy_workers_def runq_push_def)
qed

section \<open>Steps\<close>

text \<open>
  \<open>good\<close> is what the object behind the callbacks of a connection keeps while callbacks are
  made.  The application does not use a connection that it has released.
\<close>

inductive moves ::
  "nat \<Rightarrow> (nat \<Rightarrow> 'e process_input_cb) \<Rightarrow> (nat \<Rightarrow> 'e process_close_cb) \<Rightarrow> (nat \<Rightarrow> 'e \<Rightarrow> bool) \<Rightarrow>
   Reactor \<Rightarrow> Reactor \<Rightarrow> bool"
  for lim pi pc good where
  io: "reactor_main_loop os R = Inr R' \<Longrightarrow> moves lim pi pc good R R'"
| work: "i < length (m_workers R) \<Longrightarrow>
    (\<And>p h. m_workers R ! i = Working p \<Longrightarrow> heap R p = Some h \<Longrightarrow> m_cb (conn h) \<Longrightarrow> good p e) \<Longrightarrow>
    worker_TEP_impl lim pi pc e i R = Inr R' \<Longrightarrow> moves lim pi pc good R R'"
| connect: "heap R p = None \<Longrightarrow>
    moves lim pi pc good R (add_client p (R\<lparr>heap := (heap R)(p \<mapsto> \<lparr>rc_fd = fd, conn = new_Client now\<rparr>)\<rparr>))"
| send: "heap R p = Some h \<Longrightarrow> \<not> wants_delete (conn h) \<Longrightarrow>
    moves lim pi pc good R (put_client p h (fst (queue buf cl (conn h))) R)"
| free: "heap R p = Some h \<Longrightarrow> \<not> wants_delete (conn h) \<Longrightarrow>
    moves lim pi pc good R (put_client p h (release now (conn h)) R)"
| wake: "moves lim pi pc good R (invalidate R)"
| attend: "moves lim pi pc good R (request_attn R)"
| stop: "moves lim pi pc good R (destroy_begin R)"
| stop_workers: "m_io R = AtEnd \<Longrightarrow> moves lim pi pc good R (destroy_workers R)"

inductive reaches ::
  "nat \<Rightarrow> (nat \<Rightarrow> 'e process_input_cb) \<Rightarrow> (nat \<Rightarrow> 'e process_close_cb) \<Rightarrow> (nat \<Rightarrow> 'e \<Rightarrow> bool) \<Rightarrow> Reactor \<Rightarrow> bool"
  for lim pi pc good where
  created: "new_Reactor pipe fcntlerr nworkers = Inr R \<Longrightarrow> reaches lim pi pc good R"
| moved: "reaches lim pi pc good R \<Longrightarrow> moves lim pi pc good R R' \<Longrightarrow> reaches lim pi pc good R'"

section \<open>Every step\<close>

locale reactor_host =
  fixes pi :: "nat \<Rightarrow> 'e process_input_cb" and pc :: "nat \<Rightarrow> 'e process_close_cb" and good :: "nat \<Rightarrow> 'e \<Rightarrow> bool"
  assumes handlers: "handler (pi p) (pc p) (good p)"
begin

lemma moves_ok:
  assumes "moves lim pi pc good R R'" "reactor_ok R" "lim < 2 ^ 62"
  shows "reactor_ok R'"
  using assms
proof (induction rule: moves.induct)
  case (io os R R')
  then show ?case using reactor_main_loop_ok [of R os] by (metis Inr_inject)
next
  case (work i R e R')
  then show ?case
    using worker_ok [where pi = pi and pc = pc and good = good and lim = lim, OF _ work(1) _ handlers, of e] by simp
next
  case (connect R p fd now)
  then show ?case by (intro reactor_ok_connect)
next
  case (send R p h buf cl)
  then have "hosted (conn h)" by (simp add: reactor_ok_def objects_ok_def hosting_def)
  then show ?case using send by (intro reactor_ok_put tended_queues) simp_all
next
  case (free R p h now)
  then have "hosted (conn h)" by (simp add: reactor_ok_def objects_ok_def hosting_def)
  then show ?case using free by (intro reactor_ok_put tended_release) simp_all
next
  case (stop R)
  then show ?case unfolding destroy_begin_def by (intro reactor_ok_notify reactor_ok_stopping) (simp_all add: new_ReactorMsg_def)
qed (simp_all add: invalidate_def request_attn_def reactor_ok_notify new_ReactorMsg_def reactor_ok_end)

lemma reaches_ok: "reaches lim pi pc good R \<Longrightarrow> lim < 2 ^ 62 \<Longrightarrow> reactor_ok R"
  by (induction rule: reaches.induct) (auto intro: reactor_ok_new moves_ok)

end

end
