(* ===== verification/Reactor_Cycle.thy ===== *)
theory Reactor_Cycle
  imports Reactor_Steps
begin

unbundle bit_operations_syntax

text \<open>
  How a released connection ends: the destruction cycle closes it when it is open and deletes
  it when it is closed and no worker has to do with it, however the other threads interleave.
\<close>

section \<open>The other threads leave an idle released connection alone\<close>

text \<open>A connection that is marked for destruction, closed and not queued.\<close>

definition idle_marked :: "nat \<Rightarrow> Reactor \<Rightarrow> bool" where
  "idle_marked p R \<longleftrightarrow> p \<in> set (m_destroying R) \<and> ending R p"

lemma idle_not_held:
  assumes R: "reactor_ok R" "idle_marked p R" "i < length (m_workers R)"
  shows "m_workers R ! i \<notin> {Took p, Working p, Worked p}"
proof -
  obtain h where h: "heap R p = Some h" "m_runstate (conn h) = CHR ''N''"
    using R(2) by (auto simp: idle_marked_def ending_def)
  then show ?thesis using holder_live [OF R(1,3), of p] by auto
qed

lemma worker_frame:
  assumes "worker_TEP_impl lim pi pc e i R = Inr R'" "m_workers R ! i \<notin> {Took p, Working p, Worked p}"
  shows "heap R' p = heap R p" "m_destroying R' = m_destroying R"
proof -
  have "heap R' p = heap R p \<and> m_destroying R' = m_destroying R"
    using assms
    by (cases "m_workers R ! i")
      (auto simp: worker_TEP_impl_def client_at_def Let_def update_run_state_for_worker_def
        split: if_splits list.splits option.splits prod.splits)
  then show "heap R' p = heap R p" "m_destroying R' = m_destroying R" by blast+
qed

lemma others_leave_idle:
  assumes m: "moves lim pi pc good R R'" and R: "reactor_ok R" "idle_marked p R"
    and io: "\<And>os. reactor_main_loop os R \<noteq> Inr R'"
  shows "heap R' p = heap R p" "m_destroying R' = m_destroying R"
proof -
  obtain h where h: "heap R p = Some h" "wants_delete (conn h)"
    using R by (auto simp: idle_marked_def ending_def reactor_ok_def objects_ok_def destroying_ok_def)
  have "heap R' p = heap R p \<and> m_destroying R' = m_destroying R"
    using m R h io
  proof (induction rule: moves.induct)
    case (work i R e R')
    then show ?case using worker_frame [OF work(3)] idle_not_held [of R p i] by simp
  next
    case (send R q k buf cl)
    then show ?case by auto
  next
    case (free R q k now)
    then show ?case by auto
  qed (auto simp: add_client_def invalidate_def request_attn_def destroy_begin_def destroy_workers_def notify_def runq_push_def)
  then show "heap R' p = heap R p" "m_destroying R' = m_destroying R" by blast+
qed

section \<open>A cycle\<close>

text \<open>
  What happens during a cycle, with the number of steps of the reactor thread; the others leave
  its position alone.
\<close>

inductive cycle_run ::
  "nat \<Rightarrow> (nat \<Rightarrow> 'e process_input_cb) \<Rightarrow> (nat \<Rightarrow> 'e process_close_cb) \<Rightarrow> (nat \<Rightarrow> 'e \<Rightarrow> bool) \<Rightarrow>
   Reactor \<Rightarrow> nat \<Rightarrow> Reactor \<Rightarrow> bool"
  for lim pi pc good R0 where
  cycle_start: "cycle_run lim pi pc good R0 0 R0"
| cycle_own: "cycle_run lim pi pc good R0 n R \<Longrightarrow> reactor_main_loop os R = Inr R' \<Longrightarrow> cycle_run lim pi pc good R0 (Suc n) R'"
| cycle_other: "cycle_run lim pi pc good R0 n R \<Longrightarrow> moves lim pi pc good R R' \<Longrightarrow> m_io R' = m_io R \<Longrightarrow>
    cycle_run lim pi pc good R0 n R'"

text \<open>What is left to do of a cycle for a connection.\<close>

definition cycling :: "nat \<Rightarrow> int \<Rightarrow> nat list \<Rightarrow> Reactor \<Rightarrow> bool" where
  "cycling p now ps R \<longleftrightarrow> (\<exists>del. m_io R = AtCycle now ps del \<and> idle_marked p R \<and>
     (p \<in> set del \<or> p \<in> set ps \<and> (\<exists>h. heap R p = Some h \<and> m_tdestroy (conn h) \<noteq> now)))"

lemma cycling_other:
  assumes c: "cycling p now ps R" and R: "reactor_ok R" and m: "moves lim pi pc good R R'" "m_io R' = m_io R"
  shows "cycling p now ps R'"
proof -
  obtain del where io: "m_io R = AtCycle now ps del" "idle_marked p R" using c by (auto simp: cycling_def)
  have "reactor_main_loop os R \<noteq> Inr R'" for os
  proof (cases ps)
    case Nil
    then show ?thesis using io m(2) by (auto simp: reactor_main_loop_def bindR_def split: sum.splits)
  next
    case (Cons q qs)
    have "qs \<noteq> q # qs" by simp
    then show ?thesis
      using io m(2) Cons by (auto simp: reactor_main_loop_def bindR_def split: sum.splits prod.splits)
  qed
  then have "heap R' p = heap R p" "m_destroying R' = m_destroying R"
    using others_leave_idle [OF m(1) R io(2)] by blast+
  then show ?thesis using c m(2) by (simp add: cycling_def idle_marked_def ending_def)
qed

lemma cycling_own:
  assumes c: "cycling p now (q # ps) R" and R: "reactor_ok R" and r: "reactor_main_loop os R = Inr R'"
  shows "cycling p now ps R'"
proof -
  obtain del where io: "m_io R = AtCycle now (q # ps) del" "idle_marked p R"
    "p \<in> set del \<or> p \<in> set (q # ps) \<and> (\<exists>h. heap R p = Some h \<and> m_tdestroy (conn h) \<noteq> now)"
    using c by (auto simp: cycling_def)
  have "q \<in> set (m_destroying R)" "distinct ((q # ps) @ del)"
    using R io(1) by (simp_all add: reactor_ok_def objects_ok_def position_ok_def)
  then have "q \<in> set (m_clients R)" using R by (auto simp: reactor_ok_def objects_ok_def destroying_ok_def)
  then obtain h where h: "heap R q = Some h" using client_live [OF R] by blast
  obtain c' gone where c': "destroy_cycle now (conn h) = (c', gone)" by (cases "destroy_cycle now (conn h)")
  let ?del = "if gone \<and> get_run_state c' = CHR ''N'' then insort_insert q del else del"
  have R': "R' = (put_client q h c' R)\<lparr>m_io := AtCycle now ps ?del\<rparr>"
    using r io(1) h c' by (simp add: reactor_main_loop_def client_at_def)
  have del: "set del \<subseteq> set ?del" by (auto simp: set_insort_insert)
  show ?thesis
  proof (cases "p = q")
    case True
    then obtain k where k: "heap R p = Some k" "m_tdestroy (conn k) \<noteq> now" "m_runstate (conn k) = CHR ''N''" "m_io_closed (conn k)"
      using io(2,3) \<open>distinct _\<close> by (auto simp: idle_marked_def ending_def)
    then have "c' = (conn h)\<lparr>m_tdestroy := now\<rparr>" "gone" "k = h"
      using c' h True by (auto simp: destroy_cycle_def Let_def split: if_splits)
    then show ?thesis
      unfolding cycling_def R' using k io(2) True
      by (simp add: idle_marked_def ending_def get_run_state_def set_insort_insert)
  next
    case False
    then show ?thesis
      unfolding cycling_def R' using io(2,3) del by (auto simp: idle_marked_def ending_def)
  qed
qed

lemma cycling_last:
  assumes c: "cycling p now [] R" and R: "reactor_ok R" and r: "reactor_main_loop os R = Inr R'"
  shows "heap R' p = None \<and> p \<notin> set (m_clients R') \<and> p \<notin> set (m_destroying R') \<and> m_io R' = AtTop"
proof -
  obtain del where io: "m_io R = AtCycle now [] del" "p \<in> set del" using c by (auto simp: cycling_def)
  have del: "distinct del" "\<And>q. q \<in> set del \<Longrightarrow> heap R q \<noteq> None"
    using R io(1) by (auto simp: reactor_ok_def objects_ok_def position_ok_def states_ok_def deletions_def ending_def)
  have "R' = (deleted del R)\<lparr>m_io := AtTop\<rparr>"
    using r io(1) delete_now_ok [OF del] by (simp add: reactor_main_loop_def)
  then show ?thesis using io(2) by (simp add: deleted_def)
qed

context reactor_host
begin

lemma cycle_progress:
  assumes "cycle_run lim pi pc good R0 n R" "reactor_ok R0" "cycling p now ps R0" "n \<le> length ps" "lim < 2 ^ 62"
  shows "reactor_ok R \<and> cycling p now (drop n ps) R"
  using assms
proof (induction rule: cycle_run.induct)
  case (cycle_own n R os R')
  then have ok: "reactor_ok R" "cycling p now (drop n ps) R" by simp_all
  have "drop n ps = ps ! n # drop (Suc n) ps" using cycle_own.prems(3) by (simp add: Cons_nth_drop_Suc)
  then have "cycling p now (drop (Suc n) ps) R'" using cycling_own [OF _ ok(1) cycle_own.hyps(2)] ok(2) by simp
  moreover have "reactor_ok R'" using reactor_main_loop_ok [OF ok(1)] cycle_own.hyps(2) by (metis Inr_inject)
  ultimately show ?case by simp
next
  case (cycle_other n R R')
  then show ?case using cycling_other moves_ok by blast
qed simp

end

end
