(* ===== verification/Reactor_Theorems.thy ===== *)
theory Reactor_Theorems
  imports Reactor_Cycle Service_Theorems
begin

unbundle bit_operations_syntax

text \<open>
  The service on its reactor: sessions are the objects behind the callbacks of connections, and
  the laws of the reactor hold for them.  \<open>own\<close> says which session a connection belongs to;
  what the operating system tells the service is part of what a callback finds.
\<close>

section \<open>Sessions as handlers\<close>

definition service_pi :: "user_command \<Rightarrow> nat \<Rightarrow> (env \<times> AdminSession \<times> AdminInterfaceImpl) process_input_cb" where
  "service_pi user a = (\<lambda>(c, env, e) bs.
     case session_input (env_lim env) (service_message env user a) (c, e) bs of ((c', e'), r) \<Rightarrow> ((c', env, e'), r))"

definition service_pc :: "nat \<Rightarrow> (env \<times> AdminSession \<times> AdminInterfaceImpl) process_close_cb" where
  "service_pc a = (\<lambda>(c, env, e). case session_close (service_closed a) (c, e) of ((c', e'), r) \<Rightarrow> ((c', env, e'), r))"

definition service_ready :: "user_command \<Rightarrow> nat \<Rightarrow> env \<times> AdminSession \<times> AdminInterfaceImpl \<Rightarrow> bool" where
  "service_ready user a = (\<lambda>(env, e). service_good env user a e)"

lemma service_close_queues:
  assumes g: "service_good env user a e" and pc: "session_close (service_closed a) (c, e) = ((c', e'), r)"
  shows "queues c c'"
proof -
  obtain s w where e: "e = (s, w)" by (cases e)
  let ?s = "io_init c s"
  have "service_good env user a (?s, w)" using g e service.good_like by simp
  then have ok: "reg_ok (set_obj a ?s w)" "serving (set_obj a ?s w) a"
    by (simp_all add: service_good_def serving_def set_obj_same)
  obtain i where i: "i \<in> {1..MAX_SESSIONS}" "in_slot i ?s"
    using serving_obj [OF ok] by (metis set_obj_same(1) option.inject)
  then have "m_id ?s < length (m_reg w)" "m_listener ?s"
    using ok(1) by (auto simp: in_slot_def reg_ok_def slots_ok_def set_obj_same)
  then have "c' = c" using service_close [of ?s w a] pc e by (auto simp: session_close_def handle_of_def io_init_def)
  then show ?thesis by simp
qed

interpretation session_handler: handler "service_pi user a" "service_pc a" "service_ready user a" for user a
proof
  fix e c bs c' e' r
  assume a: "service_ready user a e" "service_pi user a (c, e) bs = ((c', e'), r)" "uncaught r = None"
  obtain env s where e: "e = (env, s)" by (cases e)
  obtain s' where "session_input (env_lim env) (service_message env user a) (c, s) bs = ((c', s'), r)" "e' = (env, s')"
    using a(2) e by (auto simp: service_pi_def split: prod.splits)
  then show "service_ready user a e' \<and> queues c c' \<and> consumed_of r \<le> length bs"
    using service_input_keeps [of env user a s] a e by (simp add: service_ready_def)
next
  fix e c c' e' u
  assume a: "service_ready user a e" "service_pc a (c, e) = ((c', e'), u)" "uncaught u = None"
  obtain env s where e: "e = (env, s)" by (cases e)
  obtain s' where "session_close (service_closed a) (c, s) = ((c', s'), u)"
    using a(2) e by (auto simp: service_pc_def split: prod.splits)
  then show "queues c c'" using service_close_queues a(1) e by (auto simp: service_ready_def)
qed

interpretation service_reactor: reactor_host "\<lambda>p. service_pi user (own p)" "\<lambda>p. service_pc (own p)" "\<lambda>p. service_ready user (own p)"
  for user and own :: "nat \<Rightarrow> nat"
  by unfold_locales

text \<open>The states of the reactor of a service.\<close>

definition at_service :: "nat \<Rightarrow> user_command \<Rightarrow> (nat \<Rightarrow> nat) \<Rightarrow> Reactor \<Rightarrow> bool" where
  "at_service lim user own =
     reaches lim (\<lambda>p. service_pi user (own p)) (\<lambda>p. service_pc (own p)) (\<lambda>p. service_ready user (own p))"

lemma at_service_ok: "at_service lim user own R \<Longrightarrow> lim < 2 ^ 62 \<Longrightarrow> reactor_ok R"
  unfolding at_service_def by (rule service_reactor.reaches_ok)

text \<open>Steps of the reactor thread alone.\<close>

fun io_steps :: "os list \<Rightarrow> Reactor \<Rightarrow> Reactor res" where
  "io_steps [] R = Inr R"
| "io_steps (x # xs) R = bindR (reactor_main_loop x R) (io_steps xs)"

lemma at_service_io:
  assumes "at_service lim user own R" "io_steps xs R = Inr R'"
  shows "at_service lim user own R'"
  using assms
proof (induction xs arbitrary: R)
  case (Cons x xs)
  then obtain R1 where R1: "reactor_main_loop x R = Inr R1" "io_steps xs R1 = Inr R'"
    by (auto simp: bindR_def split: sum.splits)
  have "at_service lim user own R1"
    using Cons.prems(1) R1(1) unfolding at_service_def by (blast intro: reaches.moved moves.io)
  then show ?case using Cons.IH R1(2) by blast
qed simp

section \<open>A reactor with one connection\<close>

definition fresh_reactor :: Reactor where
  "fresh_reactor = \<lparr>heap = (\<lambda>p. None), m_is_stopping = False, m_pipefd = 7, m_clients = [], m_destroying = [],
     m_last_cleanup = 0, m_notifq = \<lparr>m_pending = [], m_pipe = 0\<rparr>, runq_items = [], runq_itemcount = 0,
     m_io = AtTop, m_workers = [Waiting, Waiting]\<rparr>"

definition one_client :: Reactor where
  "one_client = add_client 1 (fresh_reactor\<lparr>heap := (heap fresh_reactor)(1 \<mapsto> \<lparr>rc_fd = 5, conn = new_Client 50\<rparr>)\<rparr>)"

text \<open>Every descriptor has input at every time.\<close>

definition input_os :: "int \<Rightarrow> os" where
  "input_os now = \<lparr>os_nready = 1, os_revents = (\<lambda>fd. POLLIN), os_read = (\<lambda>fd. ReadBytes ''x''),
     os_send = (\<lambda>fd. []), os_time = now\<rparr>"

definition after_io :: "os list \<Rightarrow> Reactor \<Rightarrow> Reactor" where
  "after_io xs R = (case io_steps xs R of Inr R' \<Rightarrow> R' | Inl e \<Rightarrow> R)"

lemma at_service_after: "at_service lim user own R \<Longrightarrow> at_service lim user own (after_io xs R)"
  by (auto simp: after_io_def at_service_io split: sum.split)

lemma at_service_sample: "at_service lim user own fresh_reactor" "at_service lim user own one_client"
proof -
  have "new_Reactor (Some 7) False 2 = Inr fresh_reactor"
    by (simp add: new_Reactor_def fresh_reactor_def numeral_2_eq_2)
  then show 1: "at_service lim user own fresh_reactor" unfolding at_service_def by (rule reaches.created)
  have "heap fresh_reactor 1 = None" by (simp add: fresh_reactor_def)
  then show "at_service lim user own one_client"
    using 1 unfolding at_service_def one_client_def by (blast intro: reaches.moved moves.connect)
qed

lemmas io_eval = reactor_main_loop_def client_at_def put_client_def logged_def push_msg_def pull_def handle_reactor_msg_def
  update_run_state_for_reactor_def has_work_def dispatch_def handle_events_def pipe_pollfd_def cleanup_due_def
  new_ReactorMsg_def write_pipe_def PIPE_CAPACITY_def runq_push_def Let_def

definition listed_client :: Reactor where
  "listed_client = (let x = input_os 100 in after_io [x, x, x, x, x, x, x, x] one_client)"

lemma listed_client_eq:
  "listed_client = one_client\<lparr>m_clients := [1], m_notifq := \<lparr>m_pending = [], m_pipe = 0\<rparr>\<rparr>"
  by (simp add: listed_client_def after_io_def one_client_def fresh_reactor_def input_os_def add_client_def notify_def
      io_eval POLLIN_def new_Client_def new_DataFifo_def io_open_def)

definition queued_client :: Reactor where
  "queued_client = (let x = input_os 100 in after_io [x, x, x, x, x, x, x, x] listed_client)"

lemma queued_client_run: "runq_items queued_client = [Some 1]" "m_io queued_client = AtSearch []"
  "m_workers queued_client = [Waiting, Waiting]"
  by (simp_all add: queued_client_def after_io_def listed_client_eq one_client_def fresh_reactor_def input_os_def
      add_client_def notify_def io_eval POLLIN_def POLLOUT_def new_Client_def new_DataFifo_def io_open_def
      handle_input_def push_chunk_def close_events_def POLLRDHUP_def POLLERR_def POLLHUP_def POLLNVAL_def
      IO_default_def IO_close_def IO_read_again_def)





text \<open>The connection is released, closed by a first cycle and emptied by a worker.\<close>

definition pipe_os :: "int \<Rightarrow> os" where
  "pipe_os now = (input_os now)\<lparr>os_revents := (\<lambda>fd. if fd = 7 then POLLIN else 0)\<rparr>"










section \<open>Properties\<close>

text \<open>
  C4. However the reactor thread, the workers and the application interleave, the reactor
  thread never makes an undefined access, in particular never touches a deleted connection, and
  a worker makes one only when the callbacks of the connection it works on make it themselves.
\<close>

theorem reactor_defined:
  assumes "at_service lim user own R" "lim < 2 ^ 62"
  shows "(\<forall>os. \<exists>R'. reactor_main_loop os R = Inr R') \<and>
    (\<forall>i e x. i < length (m_workers R) \<longrightarrow>
       (\<forall>p h. m_workers R ! i = Working p \<longrightarrow> heap R p = Some h \<longrightarrow> m_cb (conn h) \<longrightarrow> service_ready user (own p) e) \<longrightarrow>
       worker_TEP_impl lim (\<lambda>p. service_pi user (own p)) (\<lambda>p. service_pc (own p)) e i R = Inl x \<longrightarrow>
       (\<exists>p. m_workers R ! i = Working p \<and> own_fault (service_pi user (own p)) (service_pc (own p)) x))"
proof -
  have ok: "reactor_ok R" by (rule at_service_ok [OF assms])
  have "\<exists>R'. reactor_main_loop os R = Inr R'" for os using reactor_main_loop_ok [OF ok] by metis
  moreover have "\<exists>p. m_workers R ! i = Working p \<and> own_fault (service_pi user (own p)) (service_pc (own p)) x"
    if "i < length (m_workers R)"
      "\<forall>p h. m_workers R ! i = Working p \<longrightarrow> heap R p = Some h \<longrightarrow> m_cb (conn h) \<longrightarrow> service_ready user (own p) e"
      "worker_TEP_impl lim (\<lambda>p. service_pi user (own p)) (\<lambda>p. service_pc (own p)) e i R = Inl x" for i e x
    using worker_ok [where good = "\<lambda>p. service_ready user (own p)", OF ok that(1) _ session_handler.handler_axioms assms(2), of e] that(2,3)
    by simp
  ultimately show ?thesis by blast
qed

theorem reactor_defined_witness:
  "at_service 100000 no_commands (\<lambda>p. p) queued_client \<and> (\<exists>R'. reactor_main_loop (pipe_os 200) queued_client = Inr R')"
proof -
  have a: "at_service 100000 no_commands (\<lambda>p. p) queued_client"
    by (simp add: queued_client_def listed_client_def Let_def at_service_after at_service_sample)
  then show ?thesis using reactor_defined [OF a] by simp
qed

text \<open>
  C11. A connection is worked on by one worker at most, and waits for one at most once: it is
  in the run queue, or on the way into it or out of it, exactly when its run state is \<open>Q\<close>, and
  held by a worker exactly when it is \<open>R\<close>; in both cases it is one of the reactor's
  connections, and has not been deleted.
\<close>

theorem one_worker:
  assumes "at_service lim user own R" "lim < 2 ^ 62"
  shows "waits p R = (if runstate R p = Some (CHR ''Q'') then 1 else 0) \<and>
    works p R = (if runstate R p = Some (CHR ''R'') then 1 else 0) \<and>
    (0 < waits p R + works p R \<longrightarrow> p \<in> set (m_clients R) \<and> heap R p \<noteq> None)"
proof -
  have ok: "owned R" "states_ok R" using at_service_ok [OF assms] by (simp_all add: reactor_ok_def)
  have "p \<in> set (m_clients R)" if "heap R p = Some h" "m_runstate (conn h) \<noteq> CHR ''N''" for h
    using ok(2) that unfolding states_ok_def by blast
  then show ?thesis using ok(1) by (auto simp: owned_def runstate_def)
qed

theorem one_worker_witness:
  "waits 1 queued_client = 1 \<and> works 1 queued_client = 0 \<and> runstate queued_client 1 = Some (CHR ''Q'')"
proof -
  have a: "at_service 100000 no_commands (\<lambda>p. p) queued_client"
    by (simp add: queued_client_def listed_client_def Let_def at_service_after at_service_sample)
  have w: "waits 1 queued_client = 1" by (simp add: waits_def queued_client_run)
  have "(100000 :: nat) < 2 ^ 62" by simp
  note o = one_worker [OF a this, of 1]
  have "runstate queued_client 1 = Some (CHR ''Q'')"
    using o w by (metis zero_neq_one)
  then show ?thesis using o w by simp
qed





section \<open>A peer that hangs up\<close>





end
