(* ===== verification/Server_Socket.thy ===== *)
theory Server_Socket
  imports Admin_Interface
begin

unbundle bit_operations_syntax

text \<open>
  The server socket (\<^verbatim>\<open>libexio/exio/AdminServerSocket.h\<close>, \<^verbatim>\<open>libexio/AdminServerSocket.cc\<close>): the
  thread that accepts connections, creates their sessions and drives the housekeeping of the
  service.  The results of the system calls are arguments; a loop over successive calls takes
  the list of their results, and is still running when the list is used up.
\<close>

abbreviation ACCEPT_TIMEOUT_SECS :: int where
  "ACCEPT_TIMEOUT_SECS \<equiv> 10"

abbreviation EXIO_NO_SERVER :: int where
  "EXIO_NO_SERVER \<equiv> -1"

text \<open>A system call gives a number or sets an error text.\<close>

type_synonym call_result = "string + int"

definition SocketIPv4 :: "call_result \<Rightarrow> int res" where
  "SocketIPv4 r =
     (case r of Inl e \<Rightarrow> Inl (RuntimeError (''socket() failed: '' @ e)) | Inr fd \<Rightarrow> Inr fd)"

definition Bind :: "call_result \<Rightarrow> int res" where
  "Bind r = (case r of Inl e \<Rightarrow> Inl (RuntimeError (''bind() failed: '' @ e)) | Inr x \<Rightarrow> Inr 0)"

definition Listen :: "call_result \<Rightarrow> unit res" where
  "Listen r = (case r of Inl e \<Rightarrow> Inl (RuntimeError (''listen() failed: '' @ e)) | Inr x \<Rightarrow> Inr ())"

text \<open>What one call of \<^verbatim>\<open>poll\<close> gives, and the call of \<^verbatim>\<open>accept\<close> that may follow.\<close>

record accept_poll =
  ap_n :: int
  ap_revents :: flags
  ap_error :: string
  ap_accept :: call_result

text \<open>
  The result is positive for a ready descriptor, zero for a timeout and negative for an error;
  the first test of the loop takes both of the nonzero cases.
\<close>

fun Accept :: "accept_poll list \<Rightarrow> int res option" where
  "Accept [] = None"
| "Accept (r # rs) =
     (if ap_n r \<noteq> 0 then
        if ap_revents r AND POLLIN \<noteq> 0 then
          Some (case ap_accept r of Inl e \<Rightarrow> Inl (RuntimeError e) | Inr fd \<Rightarrow> Inr fd)
        else Accept rs
      else if ap_n r = 0 then Some (Inr (-1))
      else Some (Inl (RuntimeError (''poll() failed: '' @ ap_error r))))"

record AdminServerSocket =
  m_servfd :: int
  server_port :: int
  conn_count :: int
  last_house_keep :: int
  conncount_on_last_house :: int

text \<open>The results of the calls that open the listening socket.\<close>

record listen_os =
  lo_socket :: call_result
  lo_bind :: call_result
  lo_listen :: call_result

definition create_listen_socket :: "listen_os \<Rightarrow> AdminServerSocket \<Rightarrow> AdminServerSocket res" where
  "create_listen_socket lo t =
     bindR (SocketIPv4 (lo_socket lo)) (\<lambda>fd.
     bindR (Bind (lo_bind lo)) (\<lambda>_.
     bindR (Listen (lo_listen lo)) (\<lambda>_.
     Inr (t\<lparr>m_servfd := fd\<rparr>))))"

definition enable_server :: "AdminServerSocket \<Rightarrow> bool" where
  "enable_server t \<longleftrightarrow> server_port t \<noteq> EXIO_NO_SERVER"

text \<open>The beginning of the thread.\<close>

definition accept_begin :: "listen_os \<Rightarrow> int \<Rightarrow> AdminServerSocket \<Rightarrow> AdminServerSocket res" where
  "accept_begin lo now t =
     bindR (if enable_server t then create_listen_socket lo t else Inr t) (\<lambda>t.
     Inr (t\<lparr>conn_count := 0, last_house_keep := now, conncount_on_last_house := 0\<rparr>))"

text \<open>
  The address of a peer (\<^verbatim>\<open>libexio/AdminSession.cc\<close>): an internet address, whose text
  \<^verbatim>\<open>inet_ntop\<close> gives, with its port, or one of another family.
\<close>

datatype sockaddr = AF_INET "string option" nat | AF_other

fun sock_ntop :: "sockaddr \<Rightarrow> string" where
  "sock_ntop (AF_INET None port) = ''''"
| "sock_ntop (AF_INET (Some str) port) = str @ '':'' @ dec port"
| "sock_ntop AF_other = ''''"

text \<open>\<open>None\<close> is a failure of \<^verbatim>\<open>getpeername\<close>.\<close>

definition sock_descr :: "sockaddr option \<Rightarrow> string" where
  "sock_descr peer = (case peer of None \<Rightarrow> ''unknown'' | Some sa \<Rightarrow> sock_ntop sa)"

text \<open>
  What the operating system gives in one turn: the polls, the address of the peer, and the
  time at the points where it is asked for.
\<close>

record accept_os =
  ao_lim :: nat
  ao_polls :: "accept_poll list"
  ao_peer :: "sockaddr option"
  ao_created :: int
  ao_checked :: int
  ao_kept :: int
  ao_after :: int

text \<open>
  A connection is made into a session; when that fails its descriptor is closed.  The result is
  the list of the descriptors closed.
\<close>

definition make_session :: "accept_os \<Rightarrow> int \<Rightarrow> AdminInterfaceImpl \<Rightarrow> AdminInterfaceImpl \<times> int list res" where
  "make_session ao connfd w =
     (if connfd < 0 then (w, Inr [])
      else
        case createNewSession (ao_lim ao) (ao_created ao) (sock_descr (ao_peer ao)) connfd w of
          (w', Inl e) \<Rightarrow> (w', if undefined_access e then Inl e else Inr [connfd])
        | (w', Inr u) \<Rightarrow> (w', Inr []))"

definition house_keep :: "accept_os \<Rightarrow> AdminServerSocket \<times> AdminInterfaceImpl \<Rightarrow> (AdminServerSocket \<times> AdminInterfaceImpl) res" where
  "house_keep ao = (\<lambda>(t, w).
     if ao_checked ao - last_house_keep t \<ge> ACCEPT_TIMEOUT_SECS \<or> conn_count t - conncount_on_last_house t > 10 then
       case housekeeping (ao_lim ao) (ao_kept ao) w of
         (w', Inl e) \<Rightarrow>
           if undefined_access e then Inl e
           else Inr (t\<lparr>last_house_keep := ao_after ao, conncount_on_last_house := conn_count t\<rparr>, w')
       | (w', Inr u) \<Rightarrow> Inr (t\<lparr>last_house_keep := ao_after ao, conncount_on_last_house := conn_count t\<rparr>, w')
     else Inr (t, w))"

text \<open>
  One turn of the loop, \<open>None\<close> while it still polls.  An accept that times out counts as a
  connection; one that fails does not.
\<close>

definition accept_TEP ::
  "accept_os \<Rightarrow> AdminServerSocket \<times> AdminInterfaceImpl \<Rightarrow> ((AdminServerSocket \<times> AdminInterfaceImpl) \<times> int list) res option" where
  "accept_TEP ao = (\<lambda>(t, w).
     if \<not> enable_server t then Some (bindR (house_keep ao (t, w)) (\<lambda>s. Inr (s, [])))
     else
       case Accept (ao_polls ao) of
         None \<Rightarrow> None
       | Some (Inl e) \<Rightarrow> Some (bindR (house_keep ao (t, w)) (\<lambda>s. Inr (s, [])))
       | Some (Inr connfd) \<Rightarrow>
           if conn_count t \<ge> 2 ^ 31 - 1 then Some (Inl (UndefinedAccess ''signed overflow''))
           else
             let t' = t\<lparr>conn_count := conn_count t + 1\<rparr> in
             (case make_session ao connfd w of
                (w', Inl e) \<Rightarrow> Some (Inl e)
              | (w', Inr closed) \<Rightarrow> Some (bindR (house_keep ao (t', w')) (\<lambda>s. Inr (s, closed)))))"

end
