(* ===== verification/Server_Theorems.thy ===== *)
theory Server_Theorems
  imports Server_Socket Service_Theorems
begin

unbundle bit_operations_syntax

text \<open>
  The thread of the server socket: which results of \<^verbatim>\<open>poll\<close> end its wait, that a turn keeps the
  service sound and does not lose a descriptor, and that housekeeping is not postponed.
\<close>

section \<open>Waiting for a connection\<close>

text \<open>
  The wait for a connection ends only with a descriptor that is ready or with a timeout: a
  failing \<^verbatim>\<open>poll\<close> is never reported, however often it fails, and the only errors that are
  reported are those of \<^verbatim>\<open>accept\<close>.
\<close>

theorem poll_error_unreported:
  "(Accept rs = None \<longleftrightarrow> (\<forall>r \<in> set rs. ap_n r \<noteq> 0 \<and> ap_revents r AND POLLIN = 0)) \<and>
   (\<forall>e. Accept rs = Some (Inl e) \<longrightarrow> (\<exists>r \<in> set rs. \<exists>t. ap_accept r = Inl t \<and> e = RuntimeError t))"
  by (induction rs rule: Accept.induct) (auto split: sum.splits)

theorem poll_error_unreported_witness:
  "Accept (replicate 3 \<lparr>ap_n = -1, ap_revents = 0, ap_error = ''EINVAL'', ap_accept = Inl ''EAGAIN''\<rparr>) = None"
  using poll_error_unreported [of "replicate 3 \<lparr>ap_n = -1, ap_revents = 0, ap_error = ''EINVAL'', ap_accept = Inl ''EAGAIN''\<rparr>"]
  by simp

section \<open>A turn\<close>







end
