(* ===== verification/Console_Logger.thy ===== *)
theory Console_Logger
  imports Sam_Format
begin

text \<open>
  The configuration and the console logger (\<^verbatim>\<open>libexio/exio/AppSvc.h\<close>, \<^verbatim>\<open>libexio/AppSvc.cc\<close>,
  \<^verbatim>\<open>libexio/exio/Logger.h\<close>).  A call that logs gives the text it writes and the stream; the
  thread id and the time of day are arguments.
\<close>

record Config =
  conf_serviceid :: string
  conf_server_port :: int

datatype StreamType = eStdout | eStderr

datatype Levels = eAll | eDebug | eInfo | eWarn | eError | eNone

fun level_value :: "Levels \<Rightarrow> int" where
  "level_value eAll = 0"
| "level_value eDebug = 1"
| "level_value eInfo = 2"
| "level_value eWarn = 3"
| "level_value eError = 4"
| "level_value eNone = 255"

text \<open>Levels are compared by their numbers.\<close>

instantiation Levels :: linorder
begin

definition less_eq_Levels :: "Levels \<Rightarrow> Levels \<Rightarrow> bool" where
  "less_eq_Levels a b \<longleftrightarrow> level_value a \<le> level_value b"

definition less_Levels :: "Levels \<Rightarrow> Levels \<Rightarrow> bool" where
  "less_Levels a b \<longleftrightarrow> level_value a < level_value b"

instance
proof
  fix a b c :: Levels
  show "a < b \<longleftrightarrow> a \<le> b \<and> \<not> b \<le> a" by (auto simp: less_eq_Levels_def less_Levels_def)
  show "a \<le> a" by (simp add: less_eq_Levels_def)
  show "a \<le> b \<Longrightarrow> b \<le> c \<Longrightarrow> a \<le> c" by (simp add: less_eq_Levels_def)
  show "a \<le> b \<Longrightarrow> b \<le> a \<Longrightarrow> a = b" by (cases a; cases b) (simp_all add: less_eq_Levels_def)
  show "a \<le> b \<or> b \<le> a" by (auto simp: less_eq_Levels_def)
qed

end

record ConsoleLogger =
  log_stream :: StreamType
  incsource :: bool
  log_level :: int

definition new_ConsoleLogger :: "StreamType \<Rightarrow> int \<Rightarrow> bool \<Rightarrow> ConsoleLogger" where
  "new_ConsoleLogger stream lv inc = \<lparr>log_stream = stream, incsource = inc, log_level = lv\<rparr>"

text \<open>\<open>%0<w>d\<close> of \<^verbatim>\<open>snprintf\<close>, for numbers that are not negative.\<close>

definition zero_pad :: "nat \<Rightarrow> nat \<Rightarrow> string" where
  "zero_pad w n = replicate (w - length (dec n)) (CHR ''0'') @ dec n"

text \<open>What the operating system says about the moment of the call.\<close>

record log_os =
  lg_tid :: nat
  lg_tm :: tm
  lg_usec :: nat

text \<open>The array of the time stamp has 30 characters, the last of which is the terminator.\<close>

definition timestamp :: "log_os \<Rightarrow> string" where
  "timestamp lo =
     take 29 (zero_pad 2 (tm_year (lg_tm lo) + 1900) @ ''/'' @ zero_pad 2 (tm_mon (lg_tm lo) + 1) @ ''/'' @
       zero_pad 2 (tm_mday (lg_tm lo)) @ ''-'' @ zero_pad 2 (tm_hour (lg_tm lo)) @ '':'' @
       zero_pad 2 (tm_min (lg_tm lo)) @ '':'' @ zero_pad 2 (tm_sec (lg_tm lo)) @ ''.'' @
       zero_pad 6 (lg_usec lo) @ '' '')"

definition dolog :: "ConsoleLogger \<Rightarrow> log_os \<Rightarrow> string \<Rightarrow> string \<Rightarrow> string \<Rightarrow> nat \<Rightarrow> StreamType \<times> string" where
  "dolog lg lo level s file ln =
     (log_stream lg,
      timestamp lo @ ''['' @ dec (lg_tid lo) @ ''] '' @
      (if incsource lg then ''('' @ file @ '':'' @ dec ln @ '') '' else '''') @
      level @ '' '' @ s @ [CHR 0x0A])"

definition want_debug :: "ConsoleLogger \<Rightarrow> bool" where
  "want_debug lg \<longleftrightarrow> log_level lg \<le> level_value eDebug"

definition want_info :: "ConsoleLogger \<Rightarrow> bool" where
  "want_info lg \<longleftrightarrow> log_level lg \<le> level_value eInfo"

definition want_warn :: "ConsoleLogger \<Rightarrow> bool" where
  "want_warn lg \<longleftrightarrow> log_level lg \<le> level_value eWarn"

definition want_error :: "ConsoleLogger \<Rightarrow> bool" where
  "want_error lg \<longleftrightarrow> log_level lg \<le> level_value eError"

text \<open>The logging macros; a null logger writes nothing.\<close>

definition log_if ::
  "(ConsoleLogger \<Rightarrow> bool) \<Rightarrow> string \<Rightarrow> ConsoleLogger option \<Rightarrow> log_os \<Rightarrow> string \<Rightarrow> string \<Rightarrow> nat \<Rightarrow> (StreamType \<times> string) option" where
  "log_if want level logptr lo x file ln =
     (case logptr of
        None \<Rightarrow> None
      | Some lg \<Rightarrow> if want lg then Some (dolog lg lo level (''exio: '' @ x) file ln) else None)"

definition DEBUG_log :: "ConsoleLogger option \<Rightarrow> log_os \<Rightarrow> string \<Rightarrow> string \<Rightarrow> nat \<Rightarrow> (StreamType \<times> string) option" where
  "DEBUG_log = log_if want_debug ''DEBUG''"

definition INFO_log :: "ConsoleLogger option \<Rightarrow> log_os \<Rightarrow> string \<Rightarrow> string \<Rightarrow> nat \<Rightarrow> (StreamType \<times> string) option" where
  "INFO_log = log_if want_info ''INFO''"

definition WARN_log :: "ConsoleLogger option \<Rightarrow> log_os \<Rightarrow> string \<Rightarrow> string \<Rightarrow> nat \<Rightarrow> (StreamType \<times> string) option" where
  "WARN_log = log_if want_warn ''WARN''"

definition ERROR_log :: "ConsoleLogger option \<Rightarrow> log_os \<Rightarrow> string \<Rightarrow> string \<Rightarrow> nat \<Rightarrow> (StreamType \<times> string) option" where
  "ERROR_log = log_if want_error ''ERROR''"

section \<open>Error texts\<close>

text \<open>
  \<^verbatim>\<open>strerror\<close> of \<^verbatim>\<open>libexio/utils.cc\<close>: the GNU variant of \<^verbatim>\<open>strerror_r\<close> returns its text, the XSI
  variant writes it into the array of 255 characters and returns an error number.
\<close>

definition strerror :: "bool \<Rightarrow> string \<Rightarrow> int \<Rightarrow> string" where
  "strerror gnu t rc = (if gnu then c_str t else if rc = 0 then take 254 (c_str t) else ''unknown'')"

section \<open>What a level lets through\<close>

text \<open>
  A logger made for a level writes the messages of that level and of all above it, and a level
  that writes less writes a part of it.
\<close>

lemma wants_level:
  "want_debug (new_ConsoleLogger st (level_value lv) inc) \<longleftrightarrow> lv \<le> eDebug"
  "want_info (new_ConsoleLogger st (level_value lv) inc) \<longleftrightarrow> lv \<le> eInfo"
  "want_warn (new_ConsoleLogger st (level_value lv) inc) \<longleftrightarrow> lv \<le> eWarn"
  "want_error (new_ConsoleLogger st (level_value lv) inc) \<longleftrightarrow> lv \<le> eError"
  by (simp_all add: want_debug_def want_info_def want_warn_def want_error_def new_ConsoleLogger_def less_eq_Levels_def)

lemma wants_more: "want_debug lg \<Longrightarrow> want_info lg" "want_info lg \<Longrightarrow> want_warn lg" "want_warn lg \<Longrightarrow> want_error lg"
  by (simp_all add: want_debug_def want_info_def want_warn_def want_error_def)

section \<open>The time stamp fits its array\<close>

lemma length_dec_below: "0 < k \<Longrightarrow> n < 10 ^ k \<Longrightarrow> length (dec n) \<le> k"
proof (induction n arbitrary: k rule: dec.induct)
  case (1 n)
  show ?case
  proof (cases "n < 10")
    case True
    then show ?thesis using "1.prems" by (subst dec.simps) simp
  next
    case False
    then obtain j where j: "k = Suc j" "0 < j" using "1.prems" by (cases k; cases "k - 1") auto
    have "n div 10 < 10 ^ j" using "1.prems"(2) j by (simp add: less_mult_imp_div_less)
    then show ?thesis using "1.IH" [OF False j(2)] False j(1) by (subst dec.simps) simp
  qed
qed

lemma length_zero_pad: "0 < w \<Longrightarrow> n < 10 ^ w \<Longrightarrow> length (zero_pad w n) = w"
  using length_dec_below [of w n] by (simp add: zero_pad_def)

text \<open>For the years up to 9999 nothing of the time stamp is cut off: it has 27 characters.\<close>

lemma timestamp_fits:
  assumes "tm_year (lg_tm lo) + 1900 < 10000" "tm_mon (lg_tm lo) + 1 < 100" "tm_mday (lg_tm lo) < 100"
    "tm_hour (lg_tm lo) < 100" "tm_min (lg_tm lo) < 100" "tm_sec (lg_tm lo) < 100" "lg_usec lo < 1000000"
  shows "length (timestamp lo) = 27"
proof -
  let ?y = "tm_year (lg_tm lo) + 1900"
  have "length (dec 1900) = 4" by code_simp
  moreover have "length (dec 1900) \<le> length (dec ?y)" by (rule length_dec_mono) simp
  ultimately have "length (dec ?y) = 4" using length_dec_below [of 4 ?y] assms(1) by simp
  then have "length (zero_pad 2 ?y) = 4" by (simp add: zero_pad_def)
  moreover have "length (zero_pad 2 n) = 2" if "n < 100" for n using length_zero_pad [of 2 n] that by simp
  moreover have "length (zero_pad 6 (lg_usec lo)) = 6" using length_zero_pad [of 6 "lg_usec lo"] assms(7) by simp
  ultimately show ?thesis using assms by (simp add: timestamp_def)
qed

end
