(* ===== verification/Admin_Tool.thy ===== *)
theory Admin_Tool
  imports Console_Logger Server_Socket
begin

text \<open>
  The command line client (\<^verbatim>\<open>src/admin.cc\<close>): it connects to a service, logs on, sends one request
  and prints the answer, whose result code is its exit status.  What \<^verbatim>\<open>getopt_long\<close>, the name
  services, the environment and the socket calls give are arguments; the text written to the
  standard output is part of the results, the one written to the error stream is left out.
\<close>

section \<open>Options\<close>

record ProgramOptions =
  po_addr :: string
  po_port :: string
  po_cmd :: string
  po_cmdargs :: "string list"
  po_verbose :: int

definition new_ProgramOptions :: ProgramOptions where
  "new_ProgramOptions = \<lparr>po_addr = '''', po_port = '''', po_cmd = '''', po_cmdargs = [], po_verbose = 0\<rparr>"

abbreviation newline :: string where
  "newline \<equiv> [CHR 0x0A]"

abbreviation tab :: string where
  "tab \<equiv> [CHR 0x09]"

text \<open>The end of the process: the last text and the status.\<close>

type_synonym exit = "string \<times> int"

definition usage :: "string \<Rightarrow> string" where
  "usage package_version =
     ''Usage: admin [OPTION]... ADDRESS PORT [COMMAND] [ARG]...'' @ newline @
     ''exio admin command-line client, version '' @ package_version @ newline @ newline @
     ''Options:'' @ newline @ newline @
     ''  -d'' @ tab @ ''log exio problems; repeat twice for info, thrice for debug'' @ newline @
     ''  -v,--version'' @ tab @ ''version info'' @ newline"

definition version :: "string \<Rightarrow> string" where
  "version package_version = package_version @ newline"

definition die :: "string \<Rightarrow> exit" where
  "die e = (e @ newline, 1)"

text \<open>
  The successive results of \<^verbatim>\<open>getopt_long\<close> before \<open>-1\<close>, each with the element of the command line
  at which the call began.
\<close>

fun process_options :: "string \<Rightarrow> (int \<times> string) list \<Rightarrow> ProgramOptions \<Rightarrow> exit + ProgramOptions" where
  "process_options ver [] po = Inr po"
| "process_options ver ((c, arg) # cs) po =
     (if c = of_char (CHR ''d'') then process_options ver cs (po\<lparr>po_verbose := po_verbose po + 1\<rparr>)
      else if c = of_char (CHR ''h'') then Inl (usage ver, 0)
      else if c = of_char (CHR ''v'') then Inl (version ver, 0)
      else if c = of_char (CHR ''?'') then Inl (''invalid option: '' @ [CHR 0x27] @ arg @ [CHR 0x27] @ newline, 1)
      else Inl (''getopt_long() returned (dec) '' @ dec (nat (c mod 2 ^ 32)) @ newline, 1))"

fun take_operands :: "string list \<Rightarrow> ProgramOptions \<Rightarrow> ProgramOptions" where
  "take_operands [] po = po"
| "take_operands [a] po = po\<lparr>po_addr := a\<rparr>"
| "take_operands [a, p] po = po\<lparr>po_addr := a, po_port := p\<rparr>"
| "take_operands (a # p # c # args) po =
     po\<lparr>po_addr := a, po_port := p, po_cmd := c, po_cmdargs := po_cmdargs po @ args\<rparr>"

definition process_cmd_line :: "string \<Rightarrow> (int \<times> string) list \<Rightarrow> string list \<Rightarrow> exit + ProgramOptions" where
  "process_cmd_line ver opts operands =
     (case process_options ver opts new_ProgramOptions of
        Inl e \<Rightarrow> Inl e
      | Inr po \<Rightarrow>
          let po = take_operands operands po in
          if po_addr po = '''' \<or> po_addr po = '''' then Inl (die ''please specify address and port'') else Inr po)"

section \<open>The listener\<close>

text \<open>\<open>cout\<close> is what has been written to the standard output.\<close>

record AdminListener =
  m_session_open :: bool
  m_show_unsol :: bool
  m_retval :: int
  cout :: string

definition new_AdminListener :: AdminListener where
  "new_AdminListener = \<lparr>m_session_open = True, m_show_unsol = False, m_retval = 0, cout = ''''\<rparr>"

definition show_unsol_messages :: "bool \<Rightarrow> AdminListener \<Rightarrow> AdminListener" where
  "show_unsol_messages b l = l\<lparr>m_show_unsol := b\<rparr>"

definition put_cout :: "string \<Rightarrow> AdminListener \<Rightarrow> AdminListener" where
  "put_cout s l = l\<lparr>cout := cout l @ s\<rparr>"

definition trigger_close :: "int \<Rightarrow> AdminListener \<Rightarrow> AdminListener" where
  "trigger_close retval l = l\<lparr>m_session_open := False, m_retval := retval\<rparr>"

fun commas :: "string list \<Rightarrow> string" where
  "commas [] = ''''"
| "commas [x] = x"
| "commas (x # y # ys) = x @ '', '' @ commas (y # ys)"

text \<open>A count in a field: absent is 0, and a negative number becomes an enormous one.\<close>

definition count_field_value :: "txContainer \<Rightarrow> string \<Rightarrow> nat" where
  "count_field_value c n =
     (case find_field c n of None \<Rightarrow> 0 | Some f \<Rightarrow> size_t_of (atoi (field_value f)))"

definition table_columns :: "bool \<Rightarrow> txContainer option \<Rightarrow> string list" where
  "table_columns synthetic tabledescr =
     (case tabledescr of
        None \<Rightarrow> []
      | Some d \<Rightarrow>
          (case find_child d id_columns of
             None \<Rightarrow> []
           | Some c_columns \<Rightarrow>
               concat (map (\<lambda>msgn.
                 case find_child c_columns (id_msg_prefix @ dec msgn) of
                   None \<Rightarrow> []
                 | Some c_msgn \<Rightarrow>
                     (case find_field c_msgn id_colname of
                        None \<Rightarrow> []
                      | Some f \<Rightarrow> if synthetic \<and> field_value f = id_row_key then [] else [field_value f]))
                 [0..<count_field_value c_columns id_msgcount])))"

definition row_text :: "string list \<Rightarrow> txContainer \<Rightarrow> string" where
  "row_text columns child =
     commas (map (\<lambda>c. case find_field child c of None \<Rightarrow> '''' | Some f \<Rightarrow> field_value f) columns) @ newline"

definition table_rows :: "string list \<Rightarrow> txContainer option \<Rightarrow> string" where
  "table_rows columns tableupdate =
     (case tableupdate of
        None \<Rightarrow> ''''
      | Some u \<Rightarrow>
          concat (map (\<lambda>r. case find_child u (id_row_prefix @ dec r) of
                             None \<Rightarrow> '''' | Some child \<Rightarrow> row_text columns child)
            [0..<count_field_value u id_rows]))"

definition handle_table_response :: "txContainer \<Rightarrow> AdminListener \<Rightarrow> AdminListener" where
  "handle_table_response body l =
     (let synthetic = (find_field body id_synthetic \<noteq> None) in
      case find_child body id_respdata of
        None \<Rightarrow> l
      | Some respdata \<Rightarrow>
          let columns = table_columns synthetic (find_child respdata id_tabledescr) in
          put_cout ((if columns \<noteq> [] \<and> \<not> synthetic then commas columns @ newline else '''') @
                    table_rows columns (find_child respdata id_tableupdate)) l)"

definition respdata_text :: "txContainer \<Rightarrow> string" where
  "respdata_text body =
     (case find_child body id_respdata of
        None \<Rightarrow> ''''
      | Some respdata \<Rightarrow>
          (case find_field respdata id_text of
             None \<Rightarrow> ''''
           | Some f \<Rightarrow>
               let t = field_value f in
               if t = '''' then '''' else t @ (if last t \<noteq> CHR 0x0A then newline else '''')))"

definition response_code :: "txContainer \<Rightarrow> int" where
  "response_code msg =
     (case find_field_q msg QN_rescode of None \<Rightarrow> -1 | Some f \<Rightarrow> atoi (field_value f))"

definition response_summary :: "txContainer \<Rightarrow> string" where
  "response_summary msg =
     (if response_code msg = 0 then '''' else dec_int (response_code msg) @ '' FAIL, '') @
     (case find_field_q msg QN_restext of None \<Rightarrow> '''' | Some f \<Rightarrow> field_value f @ newline)"

definition handle_reponse :: "txContainer \<Rightarrow> AdminListener \<Rightarrow> AdminListener" where
  "handle_reponse msg l =
     (let l = put_cout (response_summary msg) l;
          l = (case find_child msg ''body'' of
                 None \<Rightarrow> put_cout (''NO FORMAT'' @ newline) l
               | Some body \<Rightarrow>
                   if check_field body id_resptype id_table then handle_table_response body l
                   else if check_field body id_resptype id_text then put_cout (respdata_text body) l
                   else put_cout (''NO FORMAT'' @ newline) l)
      in if has_pending msg then l else trigger_close (response_code msg) l)"

text \<open>
  The two callbacks of the listener.  The type of a message is the name of its root container,
  and the formatter prints inline.
\<close>

definition listener_msg_received :: "int \<Rightarrow> txContainer \<Rightarrow> AdminListener \<Rightarrow> AdminListener" where
  "listener_msg_received verbose msg l =
     (let l = (if verbose > 2
               then put_cout (''MESSAGE: '' @ snd (format_msg msg (new_MessageFormatter True)) @ newline) l else l)
      in if cont_name msg = id_msg_bye then trigger_close 0 l
         else if cont_name msg = id_msg_response then handle_reponse msg l
         else if cont_name msg = id_msg_logon \<or> cont_name msg = id_heartbeat then l
         else if m_show_unsol l then put_cout (snd (format_msg msg (new_MessageFormatter True)) @ newline) l
         else l)"

definition listener_session_closed :: "AdminListener \<Rightarrow> AdminListener" where
  "listener_session_closed l = l\<lparr>m_session_open := False\<rparr>"

text \<open>The main thread waits while the session is open.\<close>

definition wait_for_session_closure :: "AdminListener \<Rightarrow> int option" where
  "wait_for_session_closure l = (if m_session_open l then None else Some (m_retval l))"

text \<open>The listener as the callbacks of a session.\<close>

definition tool_listener :: "int \<Rightarrow> AdminListener listener" where
  "tool_listener verbose msg = (\<lambda>(s, l). ((s, listener_msg_received verbose msg l), Inr ()))"

definition tool_closed :: "AdminSession \<times> AdminListener \<Rightarrow> (AdminSession \<times> AdminListener) \<times> unit res" where
  "tool_closed = (\<lambda>(s, l). ((s, listener_session_closed l), Inr ()))"

section \<open>Connecting\<close>

text \<open>
  What the name services say of the address and the port (a dotted address, the addresses of a
  host, the port of a service), and the results of the calls of each attempt to connect.
\<close>

record attempt =
  at_socket :: call_result
  at_connected :: bool

record connect_os =
  co_inet_addr :: "nat option"
  co_hostent :: "nat list option"
  co_servent :: "nat option"
  co_attempts :: "attempt list"

text \<open>
  The attempts, one per address; an attempt for which there are no results has not returned.
  The result \<open>0\<close> stands for a failure.
\<close>

fun connect_loop :: "nat list \<Rightarrow> attempt list \<Rightarrow> int option" where
  "connect_loop [] ats = Some 0"
| "connect_loop (a # as) [] = None"
| "connect_loop (a # as) (t # ts) =
     (case at_socket t of
        Inl e \<Rightarrow> Some 0
      | Inr net \<Rightarrow>
          if at_connected t then Some net
          else if as = [] then Some 0
          else connect_loop as ts)"

text \<open>The port is a 16-bit number.\<close>

definition port_number :: "string \<Rightarrow> nat" where
  "port_number portp = nat (atoi portp mod 2 ^ 16)"

text \<open>The port and the addresses that are tried, or the text for the one that is not found.\<close>

definition resolve :: "connect_os \<Rightarrow> string \<Rightarrow> string \<Rightarrow> string + nat list \<times> nat" where
  "resolve os hostp portp =
     (case (case co_inet_addr os of Some a \<Rightarrow> Some [a] | None \<Rightarrow> co_hostent os) of
        None \<Rightarrow> Inl (''Can'' @ [CHR 0x27] @ ''t lookup hostname '' @ hostp @ newline)
      | Some addrs \<Rightarrow>
          if port_number portp \<noteq> 0 then Inr (addrs, port_number portp)
          else
            (case co_servent os of
               None \<Rightarrow> Inl (''tcp/'' @ portp @ '': unknown service'' @ newline)
             | Some p \<Rightarrow> Inr (addrs, p)))"

definition connect_ipv4 :: "connect_os \<Rightarrow> string \<Rightarrow> string \<Rightarrow> string \<times> int option" where
  "connect_ipv4 os hostp portp =
     (case resolve os (c_str hostp) (c_str portp) of
        Inl t \<Rightarrow> (t, Some 0)
      | Inr (addrs, port) \<Rightarrow> ('''', connect_loop addrs (co_attempts os)))"

section \<open>Identities\<close>

record user_os =
  uo_getlogin :: "string option"
  uo_cuserid :: string
  uo_LOGNAME :: "string option"
  uo_USER :: "string option"
  uo_hostname :: "string option"
  uo_procname :: "string option"
  uo_pid :: nat

text \<open>The array of the name has 256 characters.\<close>

definition copy_name :: "string option \<Rightarrow> string \<Rightarrow> string" where
  "copy_name s username =
     (if username = '''' then case s of None \<Rightarrow> username | Some t \<Rightarrow> take 256 (c_str t) else username)"

definition build_user_id :: "user_os \<Rightarrow> string" where
  "build_user_id os =
     (let username = (case uo_getlogin os of None \<Rightarrow> '''' | Some s \<Rightarrow> take 255 (c_str s));
          username = copy_name (Some (uo_cuserid os)) username;
          username = copy_name (uo_LOGNAME os) username;
          username = copy_name (uo_USER os) username;
          username = copy_name (Some ''unknown'') username
      in take 255 username)"

definition or_unknown :: "string option \<Rightarrow> string" where
  "or_unknown s = (case s of None \<Rightarrow> ''unknown'' | Some t \<Rightarrow> take 255 (c_str t))"

definition build_service_id :: "user_os \<Rightarrow> string" where
  "build_service_id os =
     dec (uo_pid os) @ ''/'' @ or_unknown (uo_procname os) @ '':'' @ build_user_id os @ ''@'' @ or_unknown (uo_hostname os)"

section \<open>The messages\<close>

definition add_arguments :: "txContainer \<Rightarrow> string list \<Rightarrow> txContainer" where
  "add_arguments c args =
     fold (\<lambda>(i, a). put_field (''args_'' @ dec i) a) (zip [0..<length args] args)
       (put_field ''args_COUNT'' (dec (length args)) c)"

definition tool_logon :: "ProgramOptions \<Rightarrow> user_os \<Rightarrow> txContainer" where
  "tool_logon po os =
     (let logon = put_field_q QN_head_user (build_user_id os)
            (put_field_q QN_serviceid (build_service_id os) (new_container id_msg_logon))
      in if po_cmd po = '''' then logon
         else put_field_q [id_head, id_autoclose] id_True (put_field_q QN_noautosub id_True logon))"

definition tool_request :: "ProgramOptions \<Rightarrow> user_os \<Rightarrow> txContainer" where
  "tool_request po os =
     put_child_then id_body (\<lambda>body. add_arguments (put_field id_command (po_cmd po) body) (po_cmdargs po))
       (put_child_then id_head (\<lambda>head.
          put_field id_reqseqno ''0''
            (put_field id_user (build_user_id os)
              (put_field id_source (build_service_id os)
                (put_field id_dest (po_addr po @ '':'' @ po_port po) head))))
         (put_field_q QN_command (po_cmd po) (new_container id_msg_request)))"

section \<open>The program\<close>

definition loglevel :: "ProgramOptions \<Rightarrow> Levels" where
  "loglevel po =
     (if po_verbose po > 2 then eAll
      else if po_verbose po > 1 then eInfo
      else if po_verbose po > 0 then eWarn
      else eNone)"

definition tool_logger :: "ProgramOptions \<Rightarrow> ConsoleLogger" where
  "tool_logger po = new_ConsoleLogger eStdout (level_value (loglevel po)) (po_verbose po > 3)"

text \<open>
  Sending: the logon, whose failure is ignored, and the request.  The session is the external
  one that the interface of the process has been given, with its connection.
\<close>

definition tool_send :: "nat \<Rightarrow> ProgramOptions \<Rightarrow> user_os \<Rightarrow> AdminSession \<Rightarrow> exit + AdminSession" where
  "tool_send lim po os s =
     (let s = fst (enqueueToSend lim (tool_logon po os) s) in
      if po_cmd po = '''' then Inr s
      else
        case enqueueToSend lim (tool_request po os) s of
          (s', failed) \<Rightarrow> if failed then Inl ('''', 1) else Inr s')"

text \<open>What the process starts with: the limit of the allocator, the address of the peer, the time.\<close>

record tool_os =
  to_version :: string
  to_connect :: connect_os
  to_user :: user_os
  to_lim :: nat
  to_peer :: "sockaddr option"
  to_now :: int

definition tool_listener_of :: "ProgramOptions \<Rightarrow> AdminListener" where
  "tool_listener_of po = (if po_cmd po = '''' then show_unsol_messages True new_AdminListener else new_AdminListener)"

text \<open>
  The beginning of \<^verbatim>\<open>__main\<close>, up to the point where it waits: the process has ended, or is not
  yet connected (\<open>None\<close>), or has its session, its connection and its listener.
\<close>

definition main_start ::
  "tool_os \<Rightarrow> (int \<times> string) list \<Rightarrow> string list \<Rightarrow> (exit + ProgramOptions \<times> AdminSession \<times> AdminListener) option" where
  "main_start os opts operands =
     (case process_cmd_line (to_version os) opts operands of
        Inl e \<Rightarrow> Some (Inl e)
      | Inr po \<Rightarrow>
          (case connect_ipv4 (to_connect os) (po_addr po) (po_port po) of
             (t, None) \<Rightarrow> None
           | (t, Some fd) \<Rightarrow>
               if fd = 0 then Some (Inl (t, 1))
               else
                 (case tool_send (to_lim os) po (to_user os)
                         (io_init (new_Client (to_now os)) (new_AdminSession fd (sock_descr (to_peer os)) (to_now os) 1)) of
                    Inl e \<Rightarrow> Some (Inl e)
                  | Inr s \<Rightarrow> Some (Inr (po, s, tool_listener_of po)))))"

text \<open>
  The end of the process: the result of \<^verbatim>\<open>__main\<close>, or 126 after an exception; the operating system
  keeps the lower eight bits.
\<close>

definition tool_main :: "int res \<Rightarrow> string \<times> int" where
  "tool_main r =
     (case r of
        Inl e \<Rightarrow> (''exception: '' @ what e @ newline, 126)
      | Inr retval \<Rightarrow> ('''', retval mod 256))"

end
