(* ===== verification/Tool_Theorems.thy ===== *)
theory Tool_Theorems
  imports Admin_Tool Service_Theorems
begin

text \<open>
  The command line client: that what is typed reaches the service as the request it means, and
  how the exit status follows from what the service sends.
\<close>

section \<open>Names that need no escaping\<close>

lemma clean_cont_items: "clean_cont c \<longleftrightarrow> list_all clean_item (m_items c)"
  by (cases c) simp

lemma clean_set_value [simp]: "clean_item (set_item_value v it) = clean_item it"
  by (cases it) (auto split: txField.split)

lemma list_all_upd_at: "list_all P xs \<Longrightarrow> (\<And>x. P x \<Longrightarrow> P (f x)) \<Longrightarrow> list_all P (upd_at i f xs)"
  unfolding list_all_iff using set_upd_at by metis

lemma clean_put_field: "clean_name n \<Longrightarrow> clean_cont c \<Longrightarrow> clean_cont (put_field n v c)"
  by (cases c) (auto simp: put_field_def clean_cont_items intro!: list_all_upd_at split: option.split)

lemma clean_put_child_then:
  assumes "clean_name n" "clean_cont c" "\<And>d. clean_cont d \<Longrightarrow> clean_cont (g d)" "\<And>d. cont_name (g d) = cont_name d"
  shows "clean_cont (put_child_then n g c)"
proof -
  have g: "clean_item (on_child_item g it)" if "clean_item it" for it using that assms(3,4) by (cases it) auto
  have new: "clean_item (ItemCont (new_container n))" using assms(1) by (simp add: new_container_def)
  show ?thesis
    using assms(2) g [OF new] g
    by (cases c) (auto simp: put_child_then_def put_child_def clean_cont_items simp del: on_child_item.simps clean_item.simps
        intro!: list_all_upd_at new split: option.split)
qed

text \<open>The name of the field for an argument.\<close>

definition arg_name :: "nat \<Rightarrow> string" where
  "arg_name i = id_args_prefix @ dec i"

lemma clean_arg_name: "clean_name (arg_name n)"
  using dec_digits [of n] by (auto simp: arg_name_def clean_name_def list_all_iff is_digit_def)

lemma arg_name_eq [simp]: "arg_name i = arg_name j \<longleftrightarrow> i = j"
  by (simp add: arg_name_def)

lemma arg_name_count [simp]: "arg_name i \<noteq> ''args_COUNT''"
proof
  assume "arg_name i = ''args_COUNT''"
  then have "CHR ''C'' \<in> set (dec i)" by (simp add: arg_name_def)
  then show False using dec_digits [of i] by (auto simp: list_all_iff is_digit_def)
qed

lemmas clean_intros = clean_put_field clean_put_child_then clean_arg_name

lemma clean_new: "clean_cont (new_container n)"
  by (simp add: new_container_def)

section \<open>The arguments of a request\<close>

definition put_args :: "(nat \<times> string) list \<Rightarrow> txContainer \<Rightarrow> txContainer" where
  "put_args = fold (\<lambda>(i, a). put_field (arg_name i) a)"

lemma put_args_simps [simp]:
  "put_args [] c = c" "put_args ((i, a) # ps) c = put_args ps (put_field (arg_name i) a c)"
  "put_args (ps @ qs) c = put_args qs (put_args ps c)"
  by (simp_all add: put_args_def)

lemma add_arguments_put: "add_arguments c args = put_args (zip [0..<length args] args) (put_field ''args_COUNT'' (dec (length args)) c)"
  by (simp add: add_arguments_def put_args_def arg_name_def)

lemma cont_name_put_args [simp]: "cont_name (put_args ps c) = cont_name c"
  by (induction ps arbitrary: c) auto

lemma wf_put_args: "wf_cont c \<Longrightarrow> wf_cont (put_args ps c)"
  by (induction ps arbitrary: c) (auto simp: wf_put_field)

lemma clean_put_args: "clean_cont c \<Longrightarrow> clean_cont (put_args ps c)"
  by (induction ps arbitrary: c) (auto simp: clean_put_field clean_arg_name)

lemma find_put_args:
  assumes "wf_cont c"
  shows "find_field (put_args (zip [0..<length args] args) c) (arg_name i) =
    (if i < length args then Some (TxField (arg_name i) (args ! i)) else find_field c (arg_name i))"
  by (induction args rule: rev_induct)
    (auto simp: assms find_field_put_field [OF wf_put_args] nth_append)

lemma find_put_args_other:
  "wf_cont c \<Longrightarrow> (\<And>i. n \<noteq> arg_name i) \<Longrightarrow> find_field (put_args ps c) n = find_field c n"
  by (induction ps arbitrary: c) (auto simp: find_field_put_field wf_put_field)

text \<open>What is written is what is read.\<close>

lemma read_added_arguments:
  assumes "wf_cont c" "length args < 2 ^ 31"
  shows "find_field (add_arguments c args) id_args_COUNT = Some (TxField id_args_COUNT (dec (length args)))"
    "size_t_of (atoi (dec (length args))) = length args"
    "read_args (add_arguments c args) 0 (length args) = Inr args"
proof -
  let ?c = "put_field ''args_COUNT'' (dec (length args)) c"
  have wf: "wf_cont ?c" using assms(1) by (rule wf_put_field)
  show "find_field (add_arguments c args) id_args_COUNT = Some (TxField id_args_COUNT (dec (length args)))"
    unfolding add_arguments_put
    by (subst find_put_args_other [OF wf]) (auto simp: find_field_put_field assms(1) dest: sym)
  show "size_t_of (atoi (dec (length args))) = length args"
    using atoi_dec [OF assms(2)] assms(2) by (simp add: size_t_of_def)
  have f: "arg_field (add_arguments c args) i = Some (TxField (arg_name i) (args ! i))" if "i < length args" for i
    using find_put_args [OF wf, of args i] that by (simp add: arg_field_def add_arguments_put arg_name_def)
  have "find (\<lambda>j. arg_field (add_arguments c args) j = None) [0..<length args] = None"
    by (simp add: find_None_iff f)
  moreover have "map (\<lambda>j. field_value (the (arg_field (add_arguments c args) j))) [0..<length args] = args"
    by (rule nth_equalityI) (simp_all add: f)
  ultimately show "read_args (add_arguments c args) 0 (length args) = Inr args"
    using read_args_from [of 0 "length args" "add_arguments c args"] by simp
qed

section \<open>The messages of the tool\<close>

lemma clean_names: "clean_name id_head" "clean_name id_body" "clean_name id_command" "clean_name id_dest" "clean_name id_source"
  "clean_name id_user" "clean_name id_reqseqno" "clean_name id_serviceid" "clean_name id_noautosub" "clean_name id_autoclose"
  "clean_name ''args_COUNT''" "clean_name id_rescode" "clean_name id_pending" "clean_name id_resptype" "clean_name id_respdata"
  "clean_name id_text" "clean_name id_msgtype"
  by code_simp+

lemma clean_put_head: "clean_name n \<Longrightarrow> clean_cont c \<Longrightarrow> clean_cont (put_field_q [id_head, n] v c)"
  by (simp add: put_field_q_simps(3) clean_put_child_then clean_put_field clean_names)

lemma tool_request_ok: "wf_cont (tool_request po os)" "clean_cont (tool_request po os)"
  "cont_name (tool_request po os) = id_msg_request"
  unfolding tool_request_def add_arguments_put
  by (auto intro!: wf_put_child_then wf_put_args wf_put_field wf_put_field_q wf_new clean_put_child_then clean_put_args
      clean_put_field clean_put_head clean_new clean_names)

lemma tool_logon_ok: "wf_cont (tool_logon po os)" "clean_cont (tool_logon po os)" "cont_name (tool_logon po os) = id_msg_logon"
  unfolding tool_logon_def Let_def
  by (auto simp del: put_field_q_simps(3) intro!: wf_put_field_q wf_new clean_put_head clean_new clean_names)

lemma tool_request_parts:
  obtains head body where "find_child (tool_request po os) id_head = Some head" "find_child (tool_request po os) id_body = Some body"
    "find_field head id_command = Some (TxField id_command (po_cmd po))" "find_field head id_reqseqno = Some (TxField id_reqseqno ''0'')"
    "find_field head id_user = Some (TxField id_user (build_user_id os))"
    "\<exists>c. wf_cont c \<and> body = add_arguments c (po_cmdargs po)"
proof -
  let ?m = "put_field_q QN_command (po_cmd po) (new_container id_msg_request)"
  have m: "wf_cont ?m" "find_child ?m id_head = Some (put_field id_command (po_cmd po) (new_container id_head))"
    "find_child ?m id_body = None"
    by (rule wf_put_field_q, rule wf_new) (simp_all add: wf_new find_child_put_child_then)
  define head where "head = put_field id_reqseqno ''0'' (put_field id_user (build_user_id os)
      (put_field id_source (build_service_id os) (put_field id_dest (po_addr po @ '':'' @ po_port po)
        (put_field id_command (po_cmd po) (new_container id_head)))))"
  define body where "body = add_arguments (put_field id_command (po_cmd po) (new_container id_body)) (po_cmdargs po)"
  have "find_child (tool_request po os) id_head = Some head" "find_child (tool_request po os) id_body = Some body"
    using m by (simp_all add: tool_request_def head_def body_def find_child_put_child_then wf_put_child_then wf_put_field)
  moreover have "find_field head id_command = Some (TxField id_command (po_cmd po))" "find_field head id_reqseqno = Some (TxField id_reqseqno ''0'')"
    "find_field head id_user = Some (TxField id_user (build_user_id os))"
    by (simp_all add: head_def find_field_put_field wf_put_field wf_new)
  moreover have "\<exists>c. wf_cont c \<and> body = add_arguments c (po_cmdargs po)"
    unfolding body_def by (rule exI [of _ "put_field id_command (po_cmd po) (new_container id_body)"]) (simp add: wf_put_field wf_new)
  ultimately show ?thesis using that by blast
qed

lemma tool_request_read:
  assumes "length (po_cmdargs po) < 2 ^ 31" "po_cmd po \<noteq> ''''"
  obtains req where "new_AdminRequest (tool_request po os) sid = Inr req" "req_args req = po_cmdargs po" "reqseqno req = ''0''"
    "find_user req = Some (TxField id_user (build_user_id os))" "command_name (tool_request po os) = Some (po_cmd po)"
proof -
  obtain head body c where p: "find_child (tool_request po os) id_head = Some head" "find_child (tool_request po os) id_body = Some body"
    "find_field head id_command = Some (TxField id_command (po_cmd po))" "find_field head id_reqseqno = Some (TxField id_reqseqno ''0'')"
    "find_field head id_user = Some (TxField id_user (build_user_id os))"
    and c: "wf_cont c" "body = add_arguments c (po_cmdargs po)"
    using tool_request_parts [of po os] by metis
  note r = read_added_arguments [OF c(1) assms(1)]
  show ?thesis
  proof (rule that)
    show "new_AdminRequest (tool_request po os) sid =
        Inr \<lparr>req_msg = tool_request po os, req_id = sid, req_args = po_cmdargs po, req_head = head, req_body = body, reqseqno = ''0''\<rparr>"
      using p r by (simp add: new_AdminRequest_def c(2))
    show "command_name (tool_request po os) = Some (po_cmd po)"
      using p assms(2) by (simp add: command_name_def)
  qed (use p in \<open>simp_all add: find_user_def\<close>)
qed

section \<open>From the command line to the request\<close>

lemma process_options_keeps: "process_options ver cs po = Inr po' \<Longrightarrow> po_cmdargs po' = po_cmdargs po"
  by (induction ver cs po rule: process_options.induct) (auto split: if_splits)

lemma sendable_tool:
  assumes "length (wire (tool_logon po os)) + length (wire (tool_request po os)) \<le> 100 * 1024 * 1024"
    "encodable lim (tool_logon po os)" "encodable lim (tool_request po os)"
  shows "sam_sendable (tool_logon po os)" "sam_sendable (tool_request po os)"
proof -
  have "length (wire m) = wire_len m" if "encodable lim m" for m
    using that by (auto simp: encodable_def intro: length_wire)
  then show "sam_sendable (tool_logon po os)" "sam_sendable (tool_request po os)"
    using assms tool_logon_ok [of po os] tool_request_ok [of po os]
    by (auto simp: sam_sendable_def clean_type_def)
qed

lemma tool_send_ok:
  assumes s: "m_session_valid s" "m_io_handle s = Some c" "acceptmore (m_out_q c)" "unsent c = ''''"
    "out_pending (m_out_q c) = 0" "m_out_pend_max c = 100 * 1024 * 1024"
    and fits: "length (wire (tool_logon po os)) + length (wire (tool_request po os)) \<le> 100 * 1024 * 1024"
    and enc: "encodable lim (tool_logon po os)" "encodable lim (tool_request po os)" and cmd: "po_cmd po \<noteq> ''''"
  obtains s' c' where "tool_send lim po os s = Inr s'" "m_io_handle s' = Some c'"
    "unsent c' = wire (tool_logon po os) @ wire (tool_request po os)"
proof -
  let ?L = "wire (tool_logon po os)" and ?R = "wire (tool_request po os)"
  let ?c = "fst (queue ?L False c)"
  have t: "takes ?L c" using s fits wire_nonempty [OF enc(1)] by (simp add: takes_def)
  note q = queue_takes [OF t]
  have "out_pending (m_out_q ?c) = length ?L" "m_out_pend_max ?c = 100 * 1024 * 1024"
    using s t by (auto simp: takes_def queue_def push_out_def Let_def log_io_def)
  then have t2: "takes ?R ?c" using q(3) fits wire_nonempty [OF enc(2)] by (simp add: takes_def)
  note q2 = queue_takes [OF t2]
  have e1: "enqueueToSend lim (tool_logon po os) s = (s\<lparr>m_io_handle := Some ?c\<rparr>, False)"
    using enqueue_wire [OF s(1,2) enc(1)] q(1) by simp
  have "enqueueToSend lim (tool_request po os) (s\<lparr>m_io_handle := Some ?c\<rparr>) =
      (s\<lparr>m_io_handle := Some (fst (queue ?R False ?c))\<rparr>, False)"
    using enqueue_wire [OF _ _ enc(2), of "s\<lparr>m_io_handle := Some ?c\<rparr>" ?c] s(1) q2(1) by simp
  then have "tool_send lim po os s = Inr (s\<lparr>m_io_handle := Some (fst (queue ?R False ?c))\<rparr>)"
    using e1 cmd by (simp add: tool_send_def)
  then show ?thesis using that q2(2) q(2) s(4) by simp
qed

text \<open>
  C9. What is typed is what the service is asked.  When the connection has been made, the client
  has queued the bytes of a logon and of a request.  A receiver of these bytes decodes exactly
  these two messages, whatever follows, and the request it reads has the command and all the
  arguments of the command line, in their order and with any characters in them.
\<close>

theorem command_line_received:
  fixes opts :: "(int \<times> string) list" and addr port cmd :: string and args :: "string list"
  assumes opts: "process_options (to_version os) opts new_ProgramOptions = Inr po" and addr: "addr \<noteq> ''''" and cmd: "cmd \<noteq> ''''"
    and conn: "connect_ipv4 (to_connect os) addr port = (t, Some fd)" "fd \<noteq> 0"
    and args: "length args < 2 ^ 31"
    and p_def: "p = take_operands (addr # port # cmd # args) po"
    and logon_def: "logon = tool_logon p (to_user os)" and request_def: "request = tool_request p (to_user os)"
    and fits: "length (wire logon) + length (wire request) \<le> 100 * 1024 * 1024"
    and enc: "encodable (to_lim os) logon" "encodable (to_lim os) request"
  shows "\<exists>s c n req. main_start os opts (addr # port # cmd # args) = Some (Inr (p, s, new_AdminListener)) \<and>
    m_io_handle s = Some c \<and>
    decodeMsg (new_container '''') (unsent c @ rest) = Inr (logon, n) \<and>
    decodeMsg (new_container '''') (drop n (unsent c @ rest)) = Inr (request, length (unsent c) - n) \<and>
    command_name request = Some cmd \<and>
    new_AdminRequest request sid = Inr req \<and> req_args req = args"
proof -
  have p: "po_addr p = addr" "po_port p = port" "po_cmd p = cmd" by (simp_all add: p_def)
  have "po_cmdargs po = []"
    using process_options_keeps [OF opts] by (simp add: new_ProgramOptions_def)
  then have a: "po_cmdargs p = args" by (simp add: p_def)
  let ?s = "io_init (new_Client (to_now os)) (new_AdminSession fd (sock_descr (to_peer os)) (to_now os) 1)"
  obtain s c where s: "tool_send (to_lim os) p (to_user os) ?s = Inr s" "m_io_handle s = Some c" "unsent c = wire logon @ wire request"
    using tool_send_ok [of ?s "new_Client (to_now os)" p "to_user os" "to_lim os"] fits enc p(3) cmd
    unfolding logon_def request_def
    by (auto simp: io_init_def new_AdminSession_def new_Client_def new_OutboundQueue_def unsent_def)
  have "main_start os opts (addr # port # cmd # args) = Some (Inr (p, s, new_AdminListener))"
    using opts addr cmd conn s(1) p
    by (simp add: main_start_def process_cmd_line_def p_def [symmetric] tool_listener_of_def Let_def del: take_operands.simps)
  moreover obtain req where "new_AdminRequest request sid = Inr req" "req_args req = args" "command_name request = Some cmd"
    using tool_request_read [of p "to_user os" sid] a args p(3) cmd unfolding request_def by metis
  moreover have "sam_sendable logon" "sam_sendable request"
    using sendable_tool [of p "to_user os" "to_lim os"] fits enc by (simp_all add: logon_def request_def)
  then have "decodeMsg (new_container '''') (unsent c @ rest) = Inr (logon, length (wire logon))"
    "decodeMsg (new_container '''') (drop (length (wire logon)) (unsent c @ rest)) = Inr (request, length (unsent c) - length (wire logon))"
    using sam.whole s(3) by simp_all
  ultimately show ?thesis using s(2) by blast
qed

text \<open>\<^verbatim>\<open>admin -d 127.0.0.1 7 echo "a=b{" ""\<close>.\<close>

definition sample_tool :: tool_os where
  "sample_tool = \<lparr>to_version = ''1'',
     to_connect = \<lparr>co_inet_addr = Some 1, co_hostent = None, co_servent = None, co_attempts = [\<lparr>at_socket = Inr 3, at_connected = True\<rparr>]\<rparr>,
     to_user = \<lparr>uo_getlogin = None, uo_cuserid = '''', uo_LOGNAME = Some ''me'', uo_USER = None, uo_hostname = Some ''h'', uo_procname = None, uo_pid = 7\<rparr>,
     to_lim = 100000, to_peer = None, to_now = 5\<rparr>"

definition sample_options :: ProgramOptions where
  "sample_options = \<lparr>po_addr = ''127.0.0.1'', po_port = ''7'', po_cmd = ''echo'', po_cmdargs = [''a=b{'', ''''], po_verbose = 1\<rparr>"

lemma sample_ids:
  "build_user_id (to_user sample_tool) = ''me''" "build_service_id (to_user sample_tool) = ''7/unknown:me@h''"
proof -
  show me: "build_user_id (to_user sample_tool) = ''me''"
    by (simp add: sample_tool_def build_user_id_def copy_name_def c_str_def)
  show "build_service_id (to_user sample_tool) = ''7/unknown:me@h''"
    unfolding build_service_id_def me by (simp add: sample_tool_def or_unknown_def c_str_def) code_simp
qed

lemma sample_sizes:
  "length (enc_body (tool_logon sample_options (to_user sample_tool))) \<le> 200"
  "length (enc_body (tool_request sample_options (to_user sample_tool))) \<le> 300"
  "wire_len (tool_logon sample_options (to_user sample_tool)) \<le> 1000"
  "wire_len (tool_request sample_options (to_user sample_tool)) \<le> 1000"
  unfolding tool_logon_def tool_request_def sample_ids by code_simp+

theorem command_line_received_witness:
  "\<exists>s c n req. main_start sample_tool [(of_char (CHR ''d''), ''-d'')] [''127.0.0.1'', ''7'', ''echo'', ''a=b{'', ''''] =
      Some (Inr (sample_options, s, new_AdminListener)) \<and> m_io_handle s = Some c \<and>
    decodeMsg (new_container '''') (drop n (unsent c)) = Inr (tool_request sample_options (to_user sample_tool), length (unsent c) - n) \<and>
    new_AdminRequest (tool_request sample_options (to_user sample_tool)) 1 = Inr req \<and> req_args req = [''a=b{'', '''']"
proof -
  let ?os = "to_user sample_tool"
  have enc: "encodable (to_lim sample_tool) (tool_logon sample_options ?os)" "encodable (to_lim sample_tool) (tool_request sample_options ?os)"
    using sample_sizes by (simp_all add: encodable_def sample_tool_def dyn_cap_def)
  have w: "length (wire m) = wire_len m" if "length (enc_body m) < 1000" for m
    using that by (intro length_wire) simp
  have fits: "length (wire (tool_logon sample_options ?os)) + length (wire (tool_request sample_options ?os)) \<le> 100 * 1024 * 1024"
    using w [of "tool_logon sample_options ?os"] w [of "tool_request sample_options ?os"] sample_sizes by simp
  have "process_options (to_version sample_tool) [(of_char (CHR ''d''), ''-d'')] new_ProgramOptions = Inr (new_ProgramOptions\<lparr>po_verbose := 1\<rparr>)"
    by (simp add: new_ProgramOptions_def)
  moreover have "dec 7 = ''7''" by code_simp
  then have "connect_ipv4 (to_connect sample_tool) ''127.0.0.1'' ''7'' = ('''', Some 3)"
    using atoi_dec [of 7] by (simp add: connect_ipv4_def resolve_def port_number_def c_str_def sample_tool_def)
  moreover have "sample_options = take_operands [''127.0.0.1'', ''7'', ''echo'', ''a=b{'', ''''] (new_ProgramOptions\<lparr>po_verbose := 1\<rparr>)"
    by (simp add: sample_options_def new_ProgramOptions_def)
  ultimately show ?thesis
    using command_line_received [of sample_tool _ _ "''127.0.0.1''" "''echo''" "''7''" _ 3 "[''a=b{'', '''']" sample_options
        "tool_logon sample_options ?os" "tool_request sample_options ?os" "''''" 1] fits enc
    by (simp only: append_Nil2) fastforce
qed

section \<open>The exit status\<close>

text \<open>What happens to the listener while the main thread waits.\<close>

datatype tool_event = Received txContainer | SessionClosed

fun tool_hears :: "int \<Rightarrow> tool_event \<Rightarrow> AdminListener \<Rightarrow> AdminListener" where
  "tool_hears verbose (Received msg) l = listener_msg_received verbose msg l"
| "tool_hears verbose SessionClosed l = listener_session_closed l"

text \<open>The result that an event gives.\<close>

fun verdict :: "tool_event \<Rightarrow> int option" where
  "verdict (Received msg) =
     (if cont_name msg = id_msg_bye then Some 0
      else if cont_name msg = id_msg_response \<and> \<not> has_pending msg then Some (response_code msg)
      else None)"
| "verdict SessionClosed = None"

lemma put_cout_simps [simp]:
  "m_session_open (put_cout t l) = m_session_open l" "m_retval (put_cout t l) = m_retval l" "cout (put_cout t l) = cout l @ t"
  by (simp_all add: put_cout_def)

lemma handle_table_response_keeps [simp]:
  "m_session_open (handle_table_response b l) = m_session_open l" "m_retval (handle_table_response b l) = m_retval l"
  by (simp_all add: handle_table_response_def Let_def split: option.split)

lemma tool_hears_verdict:
  "m_retval (tool_hears v e l) = (case verdict e of None \<Rightarrow> m_retval l | Some r \<Rightarrow> r)"
  "m_session_open (tool_hears v e l) \<longleftrightarrow> m_session_open l \<and> verdict e = None \<and> e \<noteq> SessionClosed"
  by (cases e; simp add: listener_msg_received_def listener_session_closed_def handle_reponse_def trigger_close_def Let_def
      split: option.split)+

text \<open>
  C36. The exit status.  While the main thread waits, the listener ends the wait with a goodbye,
  with a response that is not marked as pending, or with the end of the connection, and with
  nothing else.  The status is the code of the last response or goodbye, and \<open>0\<close> when there has
  been none: a connection that is lost before the answer counts as a success.
\<close>

theorem exit_status:
  "wait_for_session_closure (fold (tool_hears v) es (tool_listener_of po)) =
    (if List.map_filter verdict es = [] \<and> SessionClosed \<notin> set es then None
     else Some (last (0 # List.map_filter verdict es)))"
proof -
  let ?l = "fold (tool_hears v) es (tool_listener_of po)"
  have "m_retval ?l = last (0 # List.map_filter verdict es) \<and>
    (m_session_open ?l \<longleftrightarrow> List.map_filter verdict es = [] \<and> SessionClosed \<notin> set es)"
  proof (induction es rule: rev_induct)
    case Nil
    then show ?case
      by (simp add: tool_listener_of_def show_unsol_messages_def new_AdminListener_def map_filter_def)
  next
    case (snoc e es)
    then show ?case by (cases "verdict e") (auto simp: tool_hears_verdict map_filter_def)
  qed
  then show ?thesis by (auto simp: wait_for_session_closure_def)
qed

section \<open>The way of an error to the user\<close>

lemma takeWhile_dec: "takeWhile is_digit (dec n) = dec n"
  using dec_digits [of n] by (simp add: list_all_iff)

lemma atoi_dec_int:
  assumes "- (2 ^ 31) \<le> i" "i < 2 ^ 31"
  shows "atoi (dec_int i) = i"
proof (cases "i < 0")
  case True
  have "dropWhile is_space (CHR ''-'' # dec (nat (- i))) = CHR ''-'' # dec (nat (- i))" by (simp add: is_space_def)
  then show ?thesis
    using True assms dec_value_dec [of "nat (- i)"]
    by (simp add: atoi_def dec_int_def Let_def takeWhile_dec signed32_def)
next
  case False
  then show ?thesis using atoi_dec [of "nat i"] assms by (simp add: dec_int_def)
qed

lemma finished_code:
  assumes "finished code r" "- (2 ^ 31) \<le> code" "code < 2 ^ 31"
  shows "response_code (resp_msg r) = code"
  using assms atoi_dec_int [of code] by (auto simp: finished_def head_value_def response_code_def)

lemma error_response_parts:
  obtains body respdata where "find_child (resp_msg (error_response seqno code t)) id_body = Some body"
    "find_field body id_resptype = Some (TxField id_resptype id_text)" "find_child body id_respdata = Some respdata"
    "find_field respdata id_text = Some (TxField id_text t)"
    "find_field_q (resp_msg (error_response seqno code t)) QN_restext = None"
proof -
  let ?m = "set_pending False (add_rescode code (resp_msg (new_AdminResponse seqno)))"
  have wf: "wf_cont ?m"
    using answers_new [of seqno] by (simp add: set_pending_def add_rescode_def wf_put_field_q answers_def del: put_field_q_simps(3))
  have m: "resp_msg (error_response seqno code t) = put_child_then id_body (formatreply_string t) ?m"
    by (simp add: error_response_def on_msg_def)
  have b: "find_child ?m id_body = Some (new_container id_body)"
    by (simp add: set_pending_def add_rescode_def new_AdminResponse_def put_field_q_simps(3) find_child_put_child_then
        wf_put_child_then wf_put_field_q wf_put_field)
  have "find_field_q ?m QN_restext = None"
    by (simp add: set_pending_def add_rescode_def new_AdminResponse_def put_field_q_simps(3) find_child_put_child_then
        wf_put_child_then wf_put_field_q wf_put_field find_field_put_field)
  then have "find_field_q (resp_msg (error_response seqno code t)) QN_restext = None"
    unfolding m by (simp add: find_child_put_child_then [OF wf])
  then show ?thesis
    using that [of "formatreply_string t (new_container id_body)" "put_field id_text t (new_container id_respdata)"] m b
    by (simp add: find_child_put_child_then [OF wf] find_child_put_child_then formatreply_string_def find_field_put_field wf_put_field)
qed

text \<open>
  C33. An error reaches the user.  When the session of the client receives the response that the
  service builds for an error, it prints the code and the text, the wait ends, and the exit
  status is the lower eight bits of the code.
\<close>

theorem error_reported:
  assumes m: "m = resp_msg (error_response seqno code t)" and ok: "sam_sendable m" "length (wire m @ rest) < 2 ^ 31"
    and code: "- (2 ^ 31) \<le> code" "code < 2 ^ 31" "code \<noteq> 0" and s: "m_session_valid s" "m_listener s" and v: "v \<le> 2"
  shows "\<exists>s' l'. process_input lim (tool_listener v) (wire m @ rest) (s, l) = ((s', l'), Inr (length (wire m))) \<and>
    cout l' = cout l @ dec_int code @ '' FAIL, '' @ (if t = '''' then '''' else if last t = CHR 0x0A then t else t @ newline) \<and>
    wait_for_session_closure l' = Some code \<and> tool_main (Inr code) = ('''', code mod 256)"
proof -
  note a = answers_error [where seqno = seqno and code = code and t = t]
  have n: "cont_name m = id_msg_response" "\<not> has_pending m" "response_code m = code"
    using a finished_code [OF a(2) code(1,2)] by (simp_all add: m answers_def finished_def)
  obtain body respdata where p: "find_child m id_body = Some body" "find_field body id_resptype = Some (TxField id_resptype id_text)"
    "find_child body id_respdata = Some respdata" "find_field respdata id_text = Some (TxField id_text t)"
    "find_field_q m QN_restext = None"
    using error_response_parts [of seqno code t] unfolding m by metis
  let ?l = "listener_msg_received v m l"
  have "cout ?l = cout l @ dec_int code @ '' FAIL, '' @ (if t = '''' then '''' else if last t = CHR 0x0A then t else t @ newline)"
    "wait_for_session_closure ?l = Some code"
    using n p v code(3)
    by (simp_all add: listener_msg_received_def handle_reponse_def response_summary_def respdata_text_def check_field_def
        trigger_close_def wait_for_session_closure_def Let_def)
  moreover have "process_input lim (tool_listener v) (wire m @ rest) (s, l) =
      ((s\<lparr>handed := handed s @ [m]\<rparr>, ?l), Inr (length (wire m)))"
    using sam.whole [OF ok(1), of rest] sam.enc_nonempty [OF ok(1)] ok(2) s n(1)
    by (simp add: process_input_def io_onmsg_def tool_listener_def Let_def)
  ultimately show ?thesis by (simp add: tool_main_def)
qed

theorem error_reported_witness:
  "\<exists>s' l' n. process_input 100000 (tool_listener 0) (wire (resp_msg (error_response ''0'' 102 ''no'')) @ '''')
      (new_AdminSession 3 ''peer'' 5 1, new_AdminListener) = ((s', l'), Inr n) \<and>
    cout l' = ''102 FAIL, no'' @ newline \<and> wait_for_session_closure l' = Some 102"
proof -
  let ?m = "resp_msg (error_response ''0'' 102 ''no'')"
  have size: "wire_len ?m \<le> 1000" "length (enc_body ?m) \<le> 1000" "clean_cont ?m" "wf_cont ?m" "clean_type (cont_name ?m)" by code_simp+
  then have "sam_sendable ?m" "length (wire ?m @ '''') < 2 ^ 31" using length_wire [of ?m] by (simp_all add: sam_sendable_def)
  moreover have "m_session_valid (new_AdminSession 3 ''peer'' 5 1)" "m_listener (new_AdminSession 3 ''peer'' 5 1)"
    by (simp_all add: new_AdminSession_def)
  moreover have "dec_int 102 = ''102''" by code_simp
  ultimately show ?thesis
    using error_reported [OF refl, of "''0''" 102 "''no''" "''''" "new_AdminSession 3 ''peer'' 5 1" 0 100000 new_AdminListener]
    by (fastforce simp: new_AdminListener_def)
qed

end
