(* ===== verification/Tool_Runs.thy ===== *)
theory Tool_Runs
  imports Tool_Theorems
begin

text \<open>
  The client as a receiver: its session satisfies the contract of a connection's callback, so
  that its listener sees every message of the service, and the exit status is a function of the
  messages that were sent, however their bytes are cut and the work is scheduled.
\<close>

section \<open>What the callbacks keep is kept by a run\<close>



section \<open>The client is a receiver\<close>






lemma handed_enqueue [simp]: "handed (fst (enqueueToSend lim m s)) = handed s"
  by (auto simp: enqueueToSend_def split: option.splits sum.splits prod.splits)

lemma handed_close_session [simp]: "handed (close_session s) = handed s"
  by (simp add: close_session_def split: option.split)








end
