(* ===== verification/Service_Queries.thy ===== *)
theory Service_Queries
  imports Service_Theorems Table_Theorems
begin

text \<open>
  The queries of the public interface (\<^verbatim>\<open>libexio/AdminInterfaceImpl.cc\<close>,
  \<^verbatim>\<open>libexio/AdminInterface.cc\<close>), and that they return what the updates wrote.
\<close>

section \<open>Queries\<close>

definition aii_has_row :: "string \<Rightarrow> string \<Rightarrow> AdminInterfaceImpl \<Rightarrow> bool" where
  "aii_has_row tablename rowkey w = mon_has_row tablename rowkey (m_monitor w)"

definition aii_has_table :: "string \<Rightarrow> AdminInterfaceImpl \<Rightarrow> bool" where
  "aii_has_table tablename w = has_table tablename (m_monitor w)"

definition aii_copy_table ::
  "string \<Rightarrow> (string, (string, string) stdmap) stdmap \<Rightarrow> AdminInterfaceImpl \<Rightarrow> (string, (string, string) stdmap) stdmap" where
  "aii_copy_table tablename dest w = mon_copy_table tablename dest (m_monitor w)"

definition aii_copy_table2 ::
  "string \<Rightarrow> string list \<Rightarrow> string list list \<Rightarrow> AdminInterfaceImpl \<Rightarrow> string list \<times> string list list" where
  "aii_copy_table2 tablename cols rows w = mon_copy_table2 tablename cols rows (m_monitor w)"

definition aii_copy_row ::
  "string \<Rightarrow> string \<Rightarrow> (string, string) stdmap \<Rightarrow> AdminInterfaceImpl \<Rightarrow> (string, string) stdmap res" where
  "aii_copy_row tablename rowkey dest w = mon_copy_row tablename rowkey dest (m_monitor w)"

definition aii_copy_field :: "string \<Rightarrow> string \<Rightarrow> string \<Rightarrow> string \<Rightarrow> AdminInterfaceImpl \<Rightarrow> (string \<times> bool) res" where
  "aii_copy_field tablename rowkey fn dest w = mon_copy_field tablename rowkey fn dest (m_monitor w)"

definition aii_copy_rowkeys :: "string \<Rightarrow> string list \<Rightarrow> AdminInterfaceImpl \<Rightarrow> string list" where
  "aii_copy_rowkeys tablename dest w = mon_copy_rowkeys tablename dest (m_monitor w)"

text \<open>The description of a session in the log.\<close>

definition helper_session_descr :: "AdminSession \<Rightarrow> string \<Rightarrow> string" where
  "helper_session_descr s user =
     ''session '' @ SID_toString (m_id s) @ '' (service-id '' @ [CHR 0x27] @ m_serviceid s @ [CHR 0x27] @ '', '' @
     ''username '' @ [CHR 0x27] @ user @ [CHR 0x27] @ '', '' @ ''peer '' @ m_peeraddr s @ '', '' @ ''fd '' @ dec_int (m_fd s) @ '')''"

section \<open>Sending leaves the tables alone\<close>

definition keeps_tables :: "'a act \<Rightarrow> bool" where
  "keeps_tables act \<longleftrightarrow> (\<forall>w. m_monitor (fst (act w)) = m_monitor w)"

named_theorems keeps_intros "methods that leave the tables alone"

lemma keeps_basic [keeps_intros]:
  "keeps_tables (ret x)" "keeps_tables (raise e)" "keeps_tables (deref a)" "keeps_tables (slot i)"
  "(\<And>w. m_monitor (f w) = m_monitor w) \<Longrightarrow> keeps_tables (modify f)"
  by (auto simp: keeps_tables_def ret_def raise_def deref_def slot_def modify_def split: option.splits)

lemma keeps_bind [keeps_intros]:
  "keeps_tables act \<Longrightarrow> (\<And>x. keeps_tables (f x)) \<Longrightarrow> keeps_tables (bindA act f)"
  by (auto simp: keeps_tables_def bindA_def split: prod.split sum.split) (metis fst_conv)+

lemma keeps_for: "(\<And>x. keeps_tables (f x)) \<Longrightarrow> keeps_tables (forA xs f)"
  by (induction xs) (auto intro: keeps_intros)

lemma keeps_send_each: "keeps_tables (send_each lim out)"
proof -
  have "keeps_tables (send_one lim msg i)" for msg i
    unfolding send_one_def on_slot_def send_ptr_def
    by (auto intro!: keeps_intros simp: set_obj_def split: option.split)
  then show ?thesis unfolding send_each_def by (intro keeps_for) auto
qed

lemma run_monitor_tables:
  "m_monitor (fst (run_monitor lim f w)) = fst (f (live_session w) (m_monitor w))"
proof -
  obtain m out err where f: "f (live_session w) (m_monitor w) = (m, out, err)" by (cases "f (live_session w) (m_monitor w)")
  have "keeps_tables (bindA (send_each lim out) (\<lambda>_. case err of None \<Rightarrow> ret () | Some e \<Rightarrow> raise e))"
    by (auto intro!: keeps_intros keeps_send_each split: option.split)
  then show ?thesis by (simp add: run_monitor_def f keeps_tables_def)
qed

section \<open>What is written is read\<close>

text \<open>Subscribing to a table without rows succeeds.\<close>

lemma add_subscribers_empty: "m_rows t = [] \<Longrightarrow> \<exists>t' out. add_subscribers ss t = (t', out, None) \<and> m_rows t' = []"
proof (induction ss arbitrary: t)
  case (Cons s ss)
  have "snapshot_loop t b [] [] = Inr ([], b)" for t b by (subst snapshot_loop.simps) simp
  then obtain t1 out where 1: "add_subscriber s t = (t1, out, None)" "m_rows t1 = []"
    using Cons.prems by (simp add: add_subscriber_def nolock_send_snapshopt_def Let_def)
  then show ?case using Cons.IH [OF 1(2)] by auto
qed simp

lemma update_table_found:
  assumes "mon_ok m"
  obtains t where "table_ok t" "map_find (m_tables m) tn = None \<or> map_find (m_tables m) tn = Some t"
    "\<And>n. map_find (m_tables (fst (update_table now live ss tn rk up m))) n =
       (if n = tn then Some (fst (update_row now live rk up t)) else map_find (m_tables m) n)"
proof (cases "map_find (m_tables m) tn")
  case None
  obtain t out where t: "add_subscribers ss (new_DataTable tn) = (t, out, None)"
    using add_subscribers_empty [of "new_DataTable tn" ss] by (auto simp: new_DataTable_def)
  then have ok: "table_ok t" using table_ok_add_subscribers [of "new_DataTable tn" ss] by simp
  obtain t' out' e where u: "update_row now live rk up t = (t', out', e)" by (cases "update_row now live rk up t")
  show ?thesis
    by (rule that [OF ok]) (use None t u assms in \<open>auto simp: update_table_def find_or_create_def create_table_NOLOCK_def on_table_def
        set_table_def map_find_assign mon_ok_def map_ok_assign\<close>)
next
  case (Some t)
  obtain t' out' e where u: "update_row now live rk up t = (t', out', e)" by (cases "update_row now live rk up t")
  show ?thesis
    by (rule that [OF mon_ok_find [OF assms Some]]) (use Some u assms in \<open>auto simp: update_table_def find_or_create_def on_table_def
        set_table_def map_find_assign mon_ok_def\<close>)
qed

lemma table_copy_field_view:
  assumes "table_ok t" "view t k = Some f" "f n = Some v"
  shows "table_copy_field k n dest t = Inr (v, True)"
proof -
  have "get_row_field k n t = Inr v" using assms by (simp add: get_row_field_view)
  then show ?thesis
    by (auto simp: get_row_field_def table_copy_field_def row_get_field_def row_copy_field_def split: option.splits)
qed

text \<open>
  C14. Updates can be read back.  In every state the service reaches, an update of a row, in a table
  that may be new, makes no undefined access; afterwards every field that was given is read with
  its value, whatever the subscribed sessions do with what is sent to them, and every other table
  is as it was.
\<close>

theorem update_readable:
  assumes w: "service_reach user w" "user_ok user" and up: "map_ok up"
    and call: "api env (MonitorUpdate tn rk up) w = (w', r)"
  shows "(\<forall>n v. user_fields up n = Some v \<longrightarrow> aii_copy_field tn rk n dest w' = Inr (v, True)) \<and>
    (\<forall>tn'. tn' \<noteq> tn \<longrightarrow> aii_copy_field tn' k n dest w' = aii_copy_field tn' k n dest w) \<and>
    (\<forall>e. r = Inl e \<longrightarrow> \<not> undefined_access e)"
proof -
  let ?now = "env_localtime env (env_now env)" and ?live = "live_session w"
  have ok: "reg_ok w" by (rule reg_ok_reach [OF w])
  then have "mon_ok (m_monitor w)" by (simp add: reg_ok_def tables_ok_def)
  then obtain t where t: "table_ok t"
    "\<And>n. map_find (m_tables (fst (update_table ?now ?live (used_slots w) tn rk up (m_monitor w)))) n =
       (if n = tn then Some (fst (update_row ?now ?live rk up t)) else map_find (m_tables (m_monitor w)) n)"
    using update_table_found [of "m_monitor w"] by metis
  have "m_monitor w' = fst (update_table ?now ?live (used_slots w) tn rk up (m_monitor w))"
    using call run_monitor_tables [of "env_lim env" "\<lambda>live. update_table ?now live (used_slots w) tn rk up" w]
    by (simp add: run_monitor_all_def bindA_def session_list_ok [OF ok])
  note m = t(2) [folded this]
  obtain t' out e where u: "update_row ?now ?live rk up t = (t', out, e)" by (cases "update_row ?now ?live rk up t")
  note r = update_row_replay [OF t(1) up u]
  have "aii_copy_field tn rk n dest w' = Inr (v, True)" if "user_fields up n = Some v" for n v
    using r(5) [OF that] table_copy_field_view [OF r(1)] m [of tn] u by (auto simp: aii_copy_field_def mon_copy_field_def)
  moreover have "aii_copy_field tn' k n dest w' = aii_copy_field tn' k n dest w" if "tn' \<noteq> tn" for tn'
    using m [of tn'] that by (simp add: aii_copy_field_def mon_copy_field_def)
  moreover have "\<not> undefined_access x" if "r = Inl x" for x
    using soundD(3) [OF sound_api [of "MonitorUpdate tn rk up" "{}" env] ok] that call up by (simp del: api.simps)
  ultimately show ?thesis by blast
qed

theorem update_readable_witness:
  "aii_copy_field ''T'' ''a'' ''p'' '''' (fst (api sample_env (MonitorUpdate ''T'' ''a'' [(''p'', ''1'')]) connected)) = Inr (''1'', True)"
proof -
  let ?up = "[(''p'', ''1'')]"
  have up: "map_ok ?up" "user_fields ?up ''p'' = Some ''1''" by code_simp+
  obtain w' r where c: "api sample_env (MonitorUpdate ''T'' ''a'' ?up) connected = (w', r)"
    by (cases "api sample_env (MonitorUpdate ''T'' ''a'' ?up) connected")
  have "aii_copy_field ''T'' ''a'' ''p'' '''' w' = Inr (''1'', True)"
    using update_readable [OF connected_reach no_commands_ok up(1) c] up(2) by blast
  then show ?thesis by (simp only: c fst_conv)
qed

end
