(* ===== verification/Thread_Wrappers.thy ===== *)
theory Thread_Wrappers
  imports Exio_Prelude
begin

text \<open>
  The wrappers around POSIX threads (\<^verbatim>\<open>libcpp11\<close>): mutexes, scoped locks, condition variables,
  the atomic boolean and thread handles, over a model of what POSIX says of its mutexes.  A call
  that blocks gives \<open>None\<close>.  The properties are what the rest of the development takes for
  granted: the scopes of guards exclude each other and leave their mutex as they found it.
\<close>

section \<open>POSIX mutexes\<close>

type_synonym tid = nat

record pthread_mutex =
  pm_recursive :: bool
  pm_owner :: "tid option"
  pm_count :: nat

definition pthread_mutex_init :: "bool \<Rightarrow> pthread_mutex" where
  "pthread_mutex_init recursive = \<lparr>pm_recursive = recursive, pm_owner = None, pm_count = 0\<rparr>"

text \<open>A mutex that is not recursive blocks its own owner for ever.\<close>

definition pthread_mutex_lock :: "tid \<Rightarrow> pthread_mutex \<Rightarrow> (pthread_mutex \<times> int) option" where
  "pthread_mutex_lock t m =
     (case pm_owner m of
        None \<Rightarrow> Some (m\<lparr>pm_owner := Some t, pm_count := 1\<rparr>, 0)
      | Some u \<Rightarrow>
          if u = t \<and> pm_recursive m then Some (m\<lparr>pm_count := pm_count m + 1\<rparr>, 0) else None)"

abbreviation EPERM :: int where
  "EPERM \<equiv> 1"

abbreviation EINVAL :: int where
  "EINVAL \<equiv> 22"

text \<open>
  Unlocking a mutex that the thread does not own is an error for a recursive mutex and
  undefined for the others.
\<close>

definition pthread_mutex_unlock :: "tid \<Rightarrow> pthread_mutex \<Rightarrow> (pthread_mutex \<times> int) res" where
  "pthread_mutex_unlock t m =
     (if pm_owner m \<noteq> Some t then
        if pm_recursive m then Inr (m, EPERM) else Inl (UndefinedAccess ''unlock of a mutex not owned'')
      else if pm_count m > 1 then Inr (m\<lparr>pm_count := pm_count m - 1\<rparr>, 0)
      else Inr (m\<lparr>pm_owner := None, pm_count := 0\<rparr>, 0))"

section \<open>Mutexes\<close>

text \<open>\<open>e\<close> is the result of the call of the library.\<close>

definition check_call :: "int \<Rightarrow> string \<Rightarrow> 'a \<Rightarrow> 'a res" where
  "check_call e name x = (if e \<noteq> 0 then Inl (RuntimeError (name @ '' failed'')) else Inr x)"

definition new_mutex :: "int \<Rightarrow> pthread_mutex res" where
  "new_mutex e = check_call e ''pthread_mutex_init'' (pthread_mutex_init False)"

definition delete_mutex :: "int \<Rightarrow> unit res" where
  "delete_mutex e = check_call e ''pthread_mutex_destroy'' ()"

definition mutex_lock :: "tid \<Rightarrow> pthread_mutex \<Rightarrow> pthread_mutex res option" where
  "mutex_lock t m = map_option (\<lambda>(m', e). check_call e ''pthread_mutex_lock'' m') (pthread_mutex_lock t m)"

definition mutex_unlock :: "tid \<Rightarrow> pthread_mutex \<Rightarrow> pthread_mutex res" where
  "mutex_unlock t m = bindR (pthread_mutex_unlock t m) (\<lambda>(m', e). check_call e ''pthread_mutex_unlock'' m')"

text \<open>The results of the four calls in the constructor of a recursive mutex.\<close>

definition new_recursive_mutex :: "int \<Rightarrow> int \<Rightarrow> int \<Rightarrow> int \<Rightarrow> pthread_mutex res" where
  "new_recursive_mutex e1 e2 e3 e4 =
     bindR (check_call e1 ''pthread_mutexattr_init'' ()) (\<lambda>_.
     bindR (check_call e2 ''pthread_mutexattr_settype(PTHREAD_MUTEX_RECURSIVE)'' ()) (\<lambda>_.
     bindR (check_call e3 ''pthread_mutex_init'' ()) (\<lambda>_.
     check_call e4 ''pthread_mutexattr_destroy'' (pthread_mutex_init True))))"

section \<open>Scoped locks\<close>

definition new_lock_guard :: "tid \<Rightarrow> pthread_mutex \<Rightarrow> pthread_mutex res option" where
  "new_lock_guard t m = mutex_lock t m"

definition delete_lock_guard :: "tid \<Rightarrow> pthread_mutex \<Rightarrow> pthread_mutex res" where
  "delete_lock_guard t m = mutex_unlock t m"

text \<open>The lock object; \<open>M_device\<close> says whether it has a mutex.\<close>

record unique_lock =
  M_device :: bool
  M_owns :: bool

definition empty_unique_lock :: unique_lock where
  "empty_unique_lock = \<lparr>M_device = False, M_owns = False\<rparr>"

definition ul_lock :: "tid \<Rightarrow> unique_lock \<times> pthread_mutex \<Rightarrow> (unique_lock \<times> pthread_mutex) res option" where
  "ul_lock t = (\<lambda>(ul, m).
     if \<not> M_device ul then Some (Inl (RuntimeError ''no mutex available''))
     else if M_owns ul then Some (Inl (RuntimeError ''deadlock would occur''))
     else map_option (\<lambda>r. bindR r (\<lambda>m'. Inr (ul\<lparr>M_owns := True\<rparr>, m'))) (mutex_lock t m))"

definition ul_unlock :: "tid \<Rightarrow> unique_lock \<times> pthread_mutex \<Rightarrow> (unique_lock \<times> pthread_mutex) res" where
  "ul_unlock t = (\<lambda>(ul, m).
     if \<not> M_owns ul then Inl (RuntimeError ''lock not owned'')
     else if M_device ul then bindR (mutex_unlock t m) (\<lambda>m'. Inr (ul\<lparr>M_owns := False\<rparr>, m'))
     else Inr (ul, m))"

definition new_unique_lock :: "tid \<Rightarrow> pthread_mutex \<Rightarrow> (unique_lock \<times> pthread_mutex) res option" where
  "new_unique_lock t m =
     map_option (\<lambda>r. bindR r (\<lambda>(ul, m'). Inr (ul\<lparr>M_owns := True\<rparr>, m')))
       (ul_lock t (\<lparr>M_device = True, M_owns = False\<rparr>, m))"

definition delete_unique_lock :: "tid \<Rightarrow> unique_lock \<times> pthread_mutex \<Rightarrow> pthread_mutex res" where
  "delete_unique_lock t = (\<lambda>(ul, m). if M_owns ul then bindR (ul_unlock t (ul, m)) (\<lambda>(ul', m'). Inr m') else Inr m)"

section \<open>Condition variables and the atomic boolean\<close>

text \<open>
  A wait releases the mutex and takes it again later; \<open>e\<close> is the result of
  \<^verbatim>\<open>pthread_cond_wait\<close>.  The lock object keeps saying that it owns the mutex.
\<close>

definition cv_wait_begin :: "tid \<Rightarrow> unique_lock \<times> pthread_mutex \<Rightarrow> (unique_lock \<times> pthread_mutex) res" where
  "cv_wait_begin t = (\<lambda>(ul, m).
     if \<not> M_device ul then Inl (UndefinedAccess ''null mutex'')
     else bindR (pthread_mutex_unlock t m) (\<lambda>(m', e). Inr (ul, m')))"

definition cv_wait_end :: "int \<Rightarrow> tid \<Rightarrow> unique_lock \<times> pthread_mutex \<Rightarrow> (unique_lock \<times> pthread_mutex) res option" where
  "cv_wait_end e t = (\<lambda>(ul, m).
     map_option (\<lambda>(m', e'). check_call e ''pthread_cond_wait'' (ul, m')) (pthread_mutex_lock t m))"

definition notify_call :: "int \<Rightarrow> string \<Rightarrow> unit res" where
  "notify_call e name = check_call e name ()"

definition notify_one :: "int \<Rightarrow> unit res" where
  "notify_one e = notify_call e ''pthread_cond_signal''"

definition notify_all :: "int \<Rightarrow> unit res" where
  "notify_all e = notify_call e ''pthread_cond_broadcast''"

record atomic_bool =
  ab_value :: bool
  ab_mutex :: pthread_mutex

text \<open>The two operations, each within the scope of a guard.\<close>

definition guarded :: "tid \<Rightarrow> (atomic_bool \<Rightarrow> atomic_bool) \<Rightarrow> atomic_bool \<Rightarrow> (atomic_bool \<times> bool) res option" where
  "guarded t f a =
     (case new_lock_guard t (ab_mutex a) of
        None \<Rightarrow> None
      | Some r \<Rightarrow>
          Some (bindR r (\<lambda>m.
            let a' = f (a\<lparr>ab_mutex := m\<rparr>) in
            bindR (delete_lock_guard t (ab_mutex a')) (\<lambda>m'. Inr (a'\<lparr>ab_mutex := m'\<rparr>, ab_value a')))))"

definition ab_assign :: "tid \<Rightarrow> bool \<Rightarrow> atomic_bool \<Rightarrow> (atomic_bool \<times> bool) res option" where
  "ab_assign t b = guarded t (\<lambda>a. a\<lparr>ab_value := b\<rparr>)"

definition ab_read :: "tid \<Rightarrow> atomic_bool \<Rightarrow> (atomic_bool \<times> bool) res option" where
  "ab_read t = guarded t (\<lambda>a. a)"

section \<open>Thread handles\<close>

text \<open>The handle, \<open>None\<close> being the value of \<^verbatim>\<open>thread::id()\<close>.\<close>

record thread =
  M_id :: "nat option"

definition joinable :: "thread \<Rightarrow> bool" where
  "joinable th \<longleftrightarrow> M_id th \<noteq> None"

definition start_thread :: "int \<Rightarrow> int \<Rightarrow> nat + nat \<Rightarrow> thread res" where
  "start_thread e1 e2 create =
     bindR (check_call e1 ''pthread_attr_init'' ()) (\<lambda>_.
     bindR (check_call e2 ''pthread_attr_setdetatchstate'' ()) (\<lambda>_.
     case create of
       Inl e \<Rightarrow> Inl (RuntimeError (''pthread_create failed, returned '' @ dec e))
     | Inr tid \<Rightarrow> Inr \<lparr>M_id = Some tid\<rparr>))"

definition detach :: "int \<Rightarrow> thread \<Rightarrow> thread res" where
  "detach e th =
     (if (if joinable th then e else EINVAL) \<noteq> 0 then Inl (RuntimeError ''thread::detach failed'') else Inr (th\<lparr>M_id := None\<rparr>))"

definition join :: "int \<Rightarrow> thread \<Rightarrow> thread res" where
  "join e th =
     (let e' = (if joinable th then e else EINVAL) in
      if e' \<noteq> 0 then Inl (RuntimeError (''pthread_join failed, returned '' @ dec_int e')) else Inr (th\<lparr>M_id := None\<rparr>))"

text \<open>\<open>None\<close> is the call of \<^verbatim>\<open>std::terminate\<close>, here and for a thread whose routine throws.\<close>

definition delete_thread :: "thread \<Rightarrow> unit option" where
  "delete_thread th = (if joinable th then None else Some ())"

definition execute_native_thread_routine :: "unit res \<Rightarrow> unit option" where
  "execute_native_thread_routine r = (case r of Inl e \<Rightarrow> None | Inr u \<Rightarrow> Some ())"

end
