(* ===== verification/Thread_Theorems.thy ===== *)
theory Thread_Theorems
  imports Thread_Wrappers
begin

text \<open>
  Threads that share a mutex, each entering and leaving the scopes of guards, using a lock object
  and waiting for a condition, in any order: scopes exclude each other, and leaving one never
  fails.
\<close>

section \<open>Threads that share a mutex\<close>

record lock_state =
  ls_mutex :: pthread_mutex
  ls_guards :: "tid \<Rightarrow> nat"
  ls_unique :: "tid \<Rightarrow> unique_lock option"
  ls_waiting :: "tid \<Rightarrow> bool"

definition lock_start :: "bool \<Rightarrow> lock_state" where
  "lock_start recursive = \<lparr>ls_mutex = pthread_mutex_init recursive, ls_guards = \<lambda>_. 0, ls_unique = \<lambda>_. None, ls_waiting = \<lambda>_. False\<rparr>"

inductive lock_step :: "lock_state \<Rightarrow> lock_state \<Rightarrow> bool" where
  guard: "\<not> ls_waiting s t \<Longrightarrow> new_lock_guard t (ls_mutex s) = Some (Inr m) \<Longrightarrow>
    lock_step s (s\<lparr>ls_mutex := m, ls_guards := (ls_guards s)(t := ls_guards s t + 1)\<rparr>)"
| unguard: "\<not> ls_waiting s t \<Longrightarrow> 0 < ls_guards s t \<Longrightarrow> delete_lock_guard t (ls_mutex s) = Inr m \<Longrightarrow>
    lock_step s (s\<lparr>ls_mutex := m, ls_guards := (ls_guards s)(t := ls_guards s t - 1)\<rparr>)"
| create: "\<not> ls_waiting s t \<Longrightarrow> ls_unique s t = None \<Longrightarrow> new_unique_lock t (ls_mutex s) = Some (Inr (ul, m)) \<Longrightarrow>
    lock_step s (s\<lparr>ls_mutex := m, ls_unique := (ls_unique s)(t := Some ul)\<rparr>)"
| relock: "\<not> ls_waiting s t \<Longrightarrow> ls_unique s t = Some ul \<Longrightarrow> ul_lock t (ul, ls_mutex s) = Some (Inr (ul', m)) \<Longrightarrow>
    lock_step s (s\<lparr>ls_mutex := m, ls_unique := (ls_unique s)(t := Some ul')\<rparr>)"
| unlock: "\<not> ls_waiting s t \<Longrightarrow> ls_unique s t = Some ul \<Longrightarrow> ul_unlock t (ul, ls_mutex s) = Inr (ul', m) \<Longrightarrow>
    lock_step s (s\<lparr>ls_mutex := m, ls_unique := (ls_unique s)(t := Some ul')\<rparr>)"
| destroy: "\<not> ls_waiting s t \<Longrightarrow> ls_unique s t = Some ul \<Longrightarrow> delete_unique_lock t (ul, ls_mutex s) = Inr m \<Longrightarrow>
    lock_step s (s\<lparr>ls_mutex := m, ls_unique := (ls_unique s)(t := None)\<rparr>)"
| wait: "\<not> ls_waiting s t \<Longrightarrow> ls_unique s t = Some ul \<Longrightarrow> M_owns ul \<Longrightarrow> ls_guards s t = 0 \<Longrightarrow>
    cv_wait_begin t (ul, ls_mutex s) = Inr (ul', m) \<Longrightarrow>
    lock_step s (s\<lparr>ls_mutex := m, ls_waiting := (ls_waiting s)(t := True)\<rparr>)"
| wake: "ls_waiting s t \<Longrightarrow> ls_unique s t = Some ul \<Longrightarrow> cv_wait_end 0 t (ul, ls_mutex s) = Some (Inr (ul', m)) \<Longrightarrow>
    lock_step s (s\<lparr>ls_mutex := m, ls_waiting := (ls_waiting s)(t := False)\<rparr>)"

definition lock_reach :: "bool \<Rightarrow> lock_state \<Rightarrow> bool" where
  "lock_reach recursive s \<longleftrightarrow> lock_step\<^sup>*\<^sup>* (lock_start recursive) s"

text \<open>How often a thread holds the mutex, by its guards and its lock object.\<close>

definition holds :: "lock_state \<Rightarrow> tid \<Rightarrow> nat" where
  "holds s t = ls_guards s t + (case ls_unique s t of None \<Rightarrow> 0 | Some ul \<Rightarrow> if M_owns ul \<and> \<not> ls_waiting s t then 1 else 0)"

definition locks_ok :: "bool \<Rightarrow> lock_state \<Rightarrow> bool" where
  "locks_ok recursive s \<longleftrightarrow> pm_recursive (ls_mutex s) = recursive \<and> (pm_owner (ls_mutex s) = None \<longleftrightarrow> pm_count (ls_mutex s) = 0) \<and>
     (\<not> recursive \<longrightarrow> pm_count (ls_mutex s) \<le> 1) \<and>
     (\<forall>t. holds s t = (if pm_owner (ls_mutex s) = Some t then pm_count (ls_mutex s) else 0)) \<and>
     (\<forall>t ul. ls_unique s t = Some ul \<longrightarrow> M_device ul) \<and>
     (\<forall>t. ls_waiting s t \<longrightarrow> ls_guards s t = 0 \<and> (\<exists>ul. ls_unique s t = Some ul \<and> M_owns ul))"

lemmas lock_defs = mutex_lock_def pthread_mutex_lock_def mutex_unlock_def pthread_mutex_unlock_def check_call_def bindR_def
  new_lock_guard_def delete_lock_guard_def ul_lock_def ul_unlock_def new_unique_lock_def delete_unique_lock_def
  cv_wait_begin_def cv_wait_end_def

lemma lock_taken:
  "mutex_lock t m = Some (Inr m') \<longleftrightarrow>
    pm_owner m = None \<and> m' = m\<lparr>pm_owner := Some t, pm_count := 1\<rparr> \<or>
    pm_owner m = Some t \<and> pm_recursive m \<and> m' = m\<lparr>pm_count := pm_count m + 1\<rparr>"
  by (auto simp: mutex_lock_def pthread_mutex_lock_def check_call_def split: option.split)

lemma lock_given:
  assumes "pm_owner m = Some t"
  shows "mutex_unlock t m = Inr (if pm_count m > 1 then m\<lparr>pm_count := pm_count m - 1\<rparr> else m\<lparr>pm_owner := None, pm_count := 0\<rparr>)"
  using assms by (simp add: mutex_unlock_def pthread_mutex_unlock_def check_call_def)

text \<open>A step that changes only what thread \<open>t\<close> holds, by taking or giving the mutex once.\<close>

lemma locks_ok_take:
  assumes ok: "locks_ok r s" and m: "mutex_lock t (ls_mutex s) = Some (Inr m)"
    and s': "ls_mutex s' = m" "holds s' t = holds s t + 1" "\<And>u. u \<noteq> t \<Longrightarrow> holds s' u = holds s u"
    and rest: "\<And>u ul. ls_unique s' u = Some ul \<Longrightarrow> M_device ul"
      "\<And>u. ls_waiting s' u \<Longrightarrow> ls_guards s' u = 0 \<and> (\<exists>ul. ls_unique s' u = Some ul \<and> M_owns ul)"
  shows "locks_ok r s'"
proof -
  have h: "holds s u = (if pm_owner (ls_mutex s) = Some u then pm_count (ls_mutex s) else 0)" for u
    using ok by (simp add: locks_ok_def)
  have "holds s' u = (if pm_owner m = Some u then pm_count m else 0)" for u
    using m s'(2) s'(3) [of u] h [of u] ok by (cases "u = t") (auto simp: lock_taken locks_ok_def)
  then show ?thesis using ok m s'(1) rest by (auto simp: locks_ok_def lock_taken)
qed

lemma locks_ok_give:
  assumes ok: "locks_ok r s" and h: "0 < holds s t" and m: "mutex_unlock t (ls_mutex s) = Inr m"
    and s': "ls_mutex s' = m" "holds s' t = holds s t - 1" "\<And>u. u \<noteq> t \<Longrightarrow> holds s' u = holds s u"
    and rest: "\<And>u ul. ls_unique s' u = Some ul \<Longrightarrow> M_device ul"
      "\<And>u. ls_waiting s' u \<Longrightarrow> ls_guards s' u = 0 \<and> (\<exists>ul. ls_unique s' u = Some ul \<and> M_owns ul)"
  shows "locks_ok r s'"
proof -
  have hold: "holds s u = (if pm_owner (ls_mutex s) = Some u then pm_count (ls_mutex s) else 0)" for u
    using ok by (simp add: locks_ok_def)
  have o: "pm_owner (ls_mutex s) = Some t" "holds s t = pm_count (ls_mutex s)" using hold [of t] h by (auto split: if_splits)
  have m': "m = (if pm_count (ls_mutex s) > 1 then (ls_mutex s)\<lparr>pm_count := pm_count (ls_mutex s) - 1\<rparr>
      else (ls_mutex s)\<lparr>pm_owner := None, pm_count := 0\<rparr>)"
    using lock_given [OF o(1)] m by simp
  have "holds s' u = (if pm_owner m = Some u then pm_count m else 0)" for u
    using m' o s'(2) s'(3) [of u] hold [of u] by (cases "u = t") auto
  then show ?thesis using ok m' o s'(1) rest by (auto simp: locks_ok_def)
qed

lemma holder_owns: "locks_ok r s \<Longrightarrow> 0 < holds s t \<Longrightarrow> pm_owner (ls_mutex s) = Some t"
  by (auto simp: locks_ok_def split: if_splits)

lemma locks_ok_rest:
  assumes "locks_ok r s"
  shows "ls_unique s t = Some ul \<Longrightarrow> M_device ul"
    "ls_waiting s t \<Longrightarrow> ls_guards s t = 0 \<and> (\<exists>ul. ls_unique s t = Some ul \<and> M_owns ul)"
  using assms by (auto simp: locks_ok_def)

lemma lock_step_ok:
  assumes "lock_step s s'" "locks_ok r s"
  shows "locks_ok r s'"
  using assms
proof (cases rule: lock_step.cases)
  case (guard t m)
  show ?thesis
    by (rule locks_ok_take [OF assms(2), of t m]) (use guard locks_ok_rest [OF assms(2)] in \<open>auto simp: new_lock_guard_def holds_def split: option.split if_splits\<close>)
next
  case (unguard t m)
  show ?thesis
    by (rule locks_ok_give [OF assms(2), of t m]) (use unguard locks_ok_rest [OF assms(2)] in \<open>auto simp: delete_lock_guard_def holds_def split: option.split if_splits\<close>)
next
  case (create t ul m)
  then have "mutex_lock t (ls_mutex s) = Some (Inr m)" "M_device ul" "M_owns ul"
    by (auto simp: new_unique_lock_def ul_lock_def bindR_Inr_iff)
  with create show ?thesis
    by (intro locks_ok_take [OF assms(2), of t m]) (use locks_ok_rest [OF assms(2)] in \<open>auto simp: holds_def split: option.split if_splits\<close>)
next
  case (relock t ul ul' m)
  then have "mutex_lock t (ls_mutex s) = Some (Inr m)" "M_device ul'" "M_owns ul'" "\<not> M_owns ul"
    by (auto simp: ul_lock_def bindR_Inr_iff split: if_splits)
  with relock show ?thesis
    by (intro locks_ok_take [OF assms(2), of t m]) (use locks_ok_rest [OF assms(2)] in \<open>auto simp: holds_def split: option.split if_splits\<close>)
next
  case (unlock t ul ul' m)
  then have "mutex_unlock t (ls_mutex s) = Inr m" "M_device ul'" "\<not> M_owns ul'" "M_owns ul"
    using locks_ok_rest(1) [OF assms(2), of t ul] by (auto simp: ul_unlock_def bindR_Inr_iff split: if_splits)
  with unlock show ?thesis
    by (intro locks_ok_give [OF assms(2), of t m]) (use locks_ok_rest [OF assms(2)] in \<open>auto simp: holds_def split: option.split if_splits\<close>)
next
  case (destroy t ul m)
  show ?thesis
  proof (cases "M_owns ul")
    case True
    then have "mutex_unlock t (ls_mutex s) = Inr m"
      using destroy locks_ok_rest(1) [OF assms(2), of t ul]
      by (auto simp: delete_unique_lock_def ul_unlock_def bindR_Inr_iff split: if_splits)
    with destroy True show ?thesis
      by (intro locks_ok_give [OF assms(2), of t m]) (use locks_ok_rest [OF assms(2)] in \<open>auto simp: holds_def split: option.split if_splits\<close>)
  next
    case False
    then have "m = ls_mutex s" using destroy by (simp add: delete_unique_lock_def)
    moreover have "holds s' u = holds s u" for u using False destroy by (simp add: holds_def split: option.split)
    ultimately show ?thesis using assms(2) destroy False by (auto simp: locks_ok_def)
  qed
next
  case (wait t ul ul' m)
  then have "holds s t = 1" by (simp add: holds_def)
  moreover have "pm_owner (ls_mutex s) = Some t" using holder_owns [OF assms(2), of t] calculation by simp
  moreover have "mutex_unlock t (ls_mutex s) = Inr m"
    using wait calculation(2) locks_ok_rest(1) [OF assms(2), of t ul]
    by (auto simp: cv_wait_begin_def mutex_unlock_def bindR_def check_call_def pthread_mutex_unlock_def split: if_splits)
  ultimately show ?thesis
    using wait by (intro locks_ok_give [OF assms(2), of t m]) (use locks_ok_rest [OF assms(2)] in \<open>auto simp: holds_def split: option.split if_splits\<close>)
next
  case (wake t ul ul' m)
  then have "mutex_lock t (ls_mutex s) = Some (Inr m)" "M_owns ul"
    using locks_ok_rest(2) [OF assms(2), of t]
    by (auto simp: cv_wait_end_def mutex_lock_def check_call_def pthread_mutex_lock_def split: option.splits if_splits)
  with wake show ?thesis
    by (intro locks_ok_take [OF assms(2), of t m]) (use locks_ok_rest [OF assms(2)] in \<open>auto simp: holds_def split: option.split if_splits\<close>)
qed

lemma lock_start_ok: "locks_ok r (lock_start r)"
  by (simp add: locks_ok_def lock_start_def holds_def pthread_mutex_init_def)

lemma lock_reach_ok: "lock_reach r s \<Longrightarrow> locks_ok r s"
  unfolding lock_reach_def by (induction rule: rtranclp_induct) (auto intro: lock_start_ok lock_step_ok)

text \<open>
  C30. Scopes exclude each other.  Whatever the threads do with guards, lock objects and waits on
  a condition, at most one of them is inside a scope of the mutex, once only unless the mutex is
  recursive; leaving a scope succeeds, whether by a guard or by a lock object; and the
  mutex is free when no thread is inside.
\<close>

theorem scopes_exclude:
  assumes "lock_reach recursive s"
  shows "(0 < holds s t \<and> 0 < holds s u \<longrightarrow> t = u) \<and> (\<not> recursive \<longrightarrow> holds s t \<le> 1) \<and>
    (0 < ls_guards s t \<longrightarrow> (\<exists>m. delete_lock_guard t (ls_mutex s) = Inr m)) \<and>
    (ls_unique s t = Some ul \<and> \<not> ls_waiting s t \<longrightarrow> (\<exists>m. delete_unique_lock t (ul, ls_mutex s) = Inr m)) \<and>
    (pm_owner (ls_mutex s) = None \<longleftrightarrow> (\<forall>t. holds s t = 0))"
proof -
  note ok = lock_reach_ok [OF assms]
  have "t = u" if "0 < holds s t" "0 < holds s u" using holder_owns [OF ok, of t] holder_owns [OF ok, of u] that by simp
  moreover have "holds s t \<le> 1" if "\<not> recursive" using ok that by (simp add: locks_ok_def)
  moreover have "\<exists>m. delete_lock_guard t (ls_mutex s) = Inr m" if "0 < ls_guards s t"
    using lock_given [OF holder_owns [OF ok, of t]] that by (simp add: delete_lock_guard_def holds_def)
  moreover have "\<exists>m. delete_unique_lock t (ul, ls_mutex s) = Inr m" if "ls_unique s t = Some ul" "\<not> ls_waiting s t"
    using lock_given [OF holder_owns [OF ok, of t]] that
    by (cases "M_owns ul") (auto simp: delete_unique_lock_def ul_unlock_def holds_def)
  moreover have "pm_owner (ls_mutex s) = None \<longleftrightarrow> (\<forall>t. holds s t = 0)"
    using ok by (auto simp: locks_ok_def split: if_splits)
  ultimately show ?thesis by blast
qed

text \<open>A thread inside the scope of a guard.\<close>

definition one_inside :: lock_state where
  "one_inside = (lock_start False)\<lparr>ls_mutex := \<lparr>pm_recursive = False, pm_owner = Some 1, pm_count = 1\<rparr>,
     ls_guards := (\<lambda>_. 0)(1 := 1)\<rparr>"

lemma one_inside_reach: "lock_reach False one_inside"
proof -
  let ?s = "lock_start False" and ?m = "\<lparr>pm_recursive = False, pm_owner = Some 1, pm_count = 1\<rparr>"
  have "lock_step ?s (?s\<lparr>ls_mutex := ?m, ls_guards := (ls_guards ?s)(1 := ls_guards ?s 1 + 1)\<rparr>)"
    by (rule lock_step.guard)
      (simp_all add: lock_start_def new_lock_guard_def mutex_lock_def pthread_mutex_lock_def pthread_mutex_init_def check_call_def)
  moreover have "?s\<lparr>ls_mutex := ?m, ls_guards := (ls_guards ?s)(1 := ls_guards ?s 1 + 1)\<rparr> = one_inside"
    by (simp add: one_inside_def lock_start_def)
  ultimately show ?thesis unfolding lock_reach_def by (metis r_into_rtranclp)
qed

theorem scopes_exclude_witness: "(\<exists>m. delete_lock_guard 1 (ls_mutex one_inside) = Inr m) \<and> holds one_inside 2 = 0"
proof -
  have h: "holds one_inside 1 = 1" "ls_guards one_inside 1 = 1" by (simp_all add: one_inside_def holds_def lock_start_def)
  have "0 < holds one_inside 2 \<longrightarrow> (1::tid) = 2"
    using scopes_exclude [OF one_inside_reach, of 1 2] h by simp
  then show ?thesis using scopes_exclude [OF one_inside_reach, of 1] h(2) by simp
qed

section \<open>Values and handles\<close>

text \<open>An access to an atomic boolean whose mutex is free returns, and leaves the mutex free.\<close>

lemma atomic_access:
  assumes "pm_owner (ab_mutex a) = None" "pm_count (ab_mutex a) = 0"
  shows "ab_assign t b a = Some (Inr (a\<lparr>ab_value := b\<rparr>, b))" "ab_read t a = Some (Inr (a, ab_value a))"
  using assms by (simp_all add: ab_assign_def ab_read_def guarded_def lock_defs Let_def)

text \<open>
  A handle can be joined or detached once; a handle with which neither has been done ends the
  process when it is destroyed.
\<close>

lemma handle_once:
  assumes "start_thread e1 e2 create = Inr th"
  shows "delete_thread th = None" "join 0 th = Inr th' \<or> detach 0 th = Inr th' \<Longrightarrow> delete_thread th' = Some ()"
    "join 0 th = Inr th' \<or> detach 0 th = Inr th' \<Longrightarrow> (\<exists>x. join e th' = Inl (RuntimeError x)) \<and> (\<exists>x. detach e th' = Inl (RuntimeError x))"
  using assms by (auto simp: start_thread_def delete_thread_def joinable_def join_def detach_def Let_def check_call_def split: sum.splits if_splits)

end
