(* ===== verification/Sam_Names.thy ===== *)
theory Sam_Names
  imports Sam_Format Sam_Roundtrip
begin

text \<open>
  The small classes of \<^verbatim>\<open>libexio/exio/sam.h\<close> around containers and protocol: qualified names and
  their builder, the message class, the overflow exception, and the unescaped writes of the
  encoder with their counting counterparts.
\<close>

section \<open>Qualified names\<close>

definition qname_builder_create :: "string list" where
  "qname_builder_create = []"

definition qname_builder_add :: "string \<Rightarrow> string list \<Rightarrow> string list" where
  "qname_builder_add s items = items @ [s]"

definition qname_of_builder :: "string list \<Rightarrow> string list" where
  "qname_of_builder items = items"

text \<open>The constructor from an array pushes its elements one after the other.\<close>

definition qname_of_array :: "string list \<Rightarrow> string list" where
  "qname_of_array vec = fold (\<lambda>s v. v @ [s]) vec []"

definition qname_size :: "string list \<Rightarrow> nat" where
  "qname_size qn = length qn"

definition qname_empty :: "string list \<Rightarrow> bool" where
  "qname_empty qn \<longleftrightarrow> qn = []"

definition qname_at :: "string list \<Rightarrow> nat \<Rightarrow> string res" where
  "qname_at qn i =
     (case nth_opt qn i of None \<Rightarrow> Inl (UndefinedAccess ''part outside the name'') | Some p \<Rightarrow> Inr p)"

definition qname_push :: "string \<Rightarrow> string list \<Rightarrow> string list" where
  "qname_push p qn = qn @ [p]"

lemma fold_snoc: "fold (\<lambda>s v. v @ [s]) xs ys = ys @ xs"
  by (induction xs arbitrary: ys) simp_all

text \<open>
  The three ways to write down a name agree: the macro \<^verbatim>\<open>QNAME\<close>, the array, and parsing the
  dotted text, if no part is empty or has a dot.
\<close>

lemma qname_ways:
  assumes "list_all clean_part parts" "parts \<noteq> []"
  shows "qname_of_builder (fold qname_builder_add parts qname_builder_create) = parts"
    "qname_of_array parts = parts" "qname_parse (Some (qname_to_string parts)) = parts"
proof -
  show "qname_of_builder (fold qname_builder_add parts qname_builder_create) = parts"
    using fold_snoc [of parts "[]"]
    by (simp add: qname_of_builder_def qname_builder_create_def qname_builder_add_def [abs_def])
  show "qname_of_array parts = parts" by (simp add: qname_of_array_def fold_snoc)
  show "qname_parse (Some (qname_to_string parts)) = parts"
  proof -
    have "c_str (qname_to_string parts) = qname_to_string parts"
      using qname_string_chars [OF assms(1)] by (auto simp: c_str_def takeWhile_eq_all_conv)
    then show ?thesis
      using qname_string_tokens [OF assms] qname_string_nonempty [OF assms(1)] assms(2)
      by (simp add: qname_parse_def tokenize_def)
  qed
qed

lemma qname_push_at:
  "qname_at (qname_push p qn) (qname_size qn) = Inr p"
  "i < qname_size qn \<Longrightarrow> qname_at (qname_push p qn) i = qname_at qn i"
  "(\<exists>x. qname_at qn i = Inr x) \<longleftrightarrow> i < qname_size qn" "\<not> qname_empty (qname_push p qn)"
  by (auto simp: qname_at_def qname_push_def qname_size_def qname_empty_def nth_opt_def nth_append)

section \<open>Messages\<close>

definition new_txMessage :: "string \<Rightarrow> txContainer" where
  "new_txMessage type = new_container type"

definition msg_type :: "txContainer \<Rightarrow> string" where
  "msg_type msg = cont_name msg"

definition set_msg_type :: "string \<Rightarrow> txContainer \<Rightarrow> txContainer" where
  "set_msg_type name msg = set_cont_name name msg"

definition container_size :: "txContainer \<Rightarrow> nat" where
  "container_size c = length (m_items c)"

definition container_empty :: "txContainer \<Rightarrow> bool" where
  "container_empty c \<longleftrightarrow> m_items c = []"

definition msg_empty :: "txContainer \<Rightarrow> bool" where
  "msg_empty msg \<longleftrightarrow> container_empty msg"

text \<open>A message that is reset is a new one, however it was built.\<close>

lemma reset_is_new: "reset_msg msg = new_txMessage ''''"
  by (simp add: reset_msg_def new_txMessage_def clear_container_def new_container_def)

lemma set_msg_type_only:
  "msg_type (set_msg_type n msg) = n" "m_items (set_msg_type n msg) = m_items msg"
  "msg_empty (set_msg_type n msg) = msg_empty msg" "wf_cont (set_msg_type n msg) = wf_cont msg"
  by (cases msg; simp add: msg_type_def set_msg_type_def msg_empty_def container_empty_def)+

section \<open>Overflow\<close>

datatype ReasonCode = eUnknown | eEncodingBufferTooSmall | eExceedsSamLimit

definition overflow_what :: "ReasonCode \<Rightarrow> string" where
  "overflow_what reason =
     (case reason of
        eEncodingBufferTooSmall \<Rightarrow> ''buffer too small''
      | eExceedsSamLimit \<Rightarrow> ''exceeds max message size''
      | _ \<Rightarrow> ''unknown'')"

text \<open>The check of a fixed buffer between two pointers; its difference becomes unsigned.\<close>

definition check_space_between :: "int \<Rightarrow> int \<Rightarrow> nat \<Rightarrow> ReasonCode + unit" where
  "check_space_between beg fin len =
     (if int len \<ge> (fin - beg) mod 2 ^ 64 then Inl eEncodingBufferTooSmall else Inr ())"

lemma check_space_between_ok:
  "beg \<le> fin \<Longrightarrow> fin - beg < 2 ^ 64 \<Longrightarrow> check_space_between beg fin len = Inr () \<longleftrightarrow> beg + int len < fin"
  by (auto simp: check_space_between_def)

section \<open>Unescaped writes\<close>

definition write_noescape :: "nat \<Rightarrow> string \<Rightarrow> DynamicSamBuffer \<Rightarrow> DynamicSamBuffer res" where
  "write_noescape lim src sb = append_str lim src sb"

definition write_noescape_calc :: "string \<Rightarrow> nat \<Rightarrow> nat" where
  "write_noescape_calc src n = n + length src"

definition write_noescape_char :: "nat \<Rightarrow> char \<Rightarrow> DynamicSamBuffer \<Rightarrow> DynamicSamBuffer res" where
  "write_noescape_char lim c sb = append_char lim c sb"

definition write_noescape_char_calc :: "char \<Rightarrow> nat \<Rightarrow> nat" where
  "write_noescape_char_calc c n = n + 1"

text \<open>
  What the comments of the code ask for: each write changes the size of the message as its
  counterpart counts it.
\<close>

lemma write_noescape_counts:
  assumes "dyn_open b"
  shows "write_noescape lim src b = Inr b' \<Longrightarrow>
      length (msg_bytes b') = write_noescape_calc src (length (msg_bytes b))"
    "write_noescape_char lim c b = Inr b' \<Longrightarrow>
      length (msg_bytes b') = write_noescape_char_calc c (length (msg_bytes b))"
  using dyn.str_ok [OF assms, of lim src b'] dyn.char_ok [OF assms, of lim c b']
  by (simp_all add: write_noescape_def write_noescape_calc_def write_noescape_char_def write_noescape_char_calc_def)

text \<open>The size computed for a whole message is the sum of the counted writes.\<close>

lemma calc_encoded_size_writes:
  "calc_encoded_size msg =
     write_noescape_char_calc MSG_DELIM (write_noescape_char_calc MSG_END (encode_contents_calc msg
       (write_noescape_char_calc META_DELIM (write_noescape_calc (msg_type msg)
         (write_noescape_char_calc META_DELIM (write_noescape_calc ''00000''
           (write_noescape_char_calc META_DELIM (write_noescape_calc SAM0100
             (write_noescape_char_calc MSG_START 0)))))))))"
  by (simp add: calc_encoded_size_def write_noescape_char_calc_def write_noescape_calc_def msg_type_def numeral_eq_Suc)

end
