(* ===== verification/Admin_IO.thy ===== *)
theory Admin_IO
  imports Read_Buffer Framing Thread_Wrappers
begin

text \<open>
  The former I/O component (\<^verbatim>\<open>old/AdminIO.h\<close>, \<^verbatim>\<open>old/AdminIO.cc\<close>): two threads for each
  connection, one that reads and decodes, one that writes the items of a queue, and any number
  of threads that queue items or ask for the end.  Each thread is a program counter with its
  local variables; a turn is the code between two accesses to what the threads share (an atomic,
  the queue under its mutex) or between two system calls, and the component runs by interleaving
  turns.  What the system calls answer is the record \<open>io_env\<close>.  The scopes of the mutexes exclude
  each other (theory \<open>Thread_Theorems\<close>), so that a locked region is a single turn.
\<close>

unbundle bit_operations_syntax

section \<open>Atomic integers\<close>

record AtomicInt =
  ai_value :: int
  ai_mutex :: pthread_mutex

definition new_AtomicInt :: "int \<Rightarrow> AtomicInt" where
  "new_AtomicInt i = \<lparr>ai_value = i, ai_mutex = pthread_mutex_init False\<rparr>"

text \<open>The body of a method, within the scope of its guard.\<close>

definition ai_guarded :: "tid \<Rightarrow> (AtomicInt \<Rightarrow> AtomicInt) \<Rightarrow> AtomicInt \<Rightarrow> (AtomicInt \<times> int) res option" where
  "ai_guarded t f a =
     (case new_lock_guard t (ai_mutex a) of
        None \<Rightarrow> None
      | Some r \<Rightarrow>
          Some (bindR r (\<lambda>m.
            let a' = f (a\<lparr>ai_mutex := m\<rparr>) in
            bindR (delete_lock_guard t (ai_mutex a')) (\<lambda>m'. Inr (a'\<lparr>ai_mutex := m'\<rparr>, ai_value a')))))"

definition ai_read :: "tid \<Rightarrow> AtomicInt \<Rightarrow> (AtomicInt \<times> int) res option" where
  "ai_read t = ai_guarded t (\<lambda>a. a)"

definition ai_write :: "tid \<Rightarrow> int \<Rightarrow> AtomicInt \<Rightarrow> (AtomicInt \<times> int) res option" where
  "ai_write t n = ai_guarded t (\<lambda>a. a\<lparr>ai_value := n\<rparr>)"

definition ai_incr :: "tid \<Rightarrow> AtomicInt \<Rightarrow> (AtomicInt \<times> int) res option" where
  "ai_incr t = ai_guarded t (\<lambda>a. a\<lparr>ai_value := ai_value a + 1\<rparr>)"

text \<open>
  On a free mutex each method succeeds and leaves the mutex free, which is why the counters
  below are plain numbers that a turn reads or changes.
\<close>

lemma ai_guarded_free:
  assumes "pm_owner (ai_mutex a) = None" "\<And>m. ai_mutex (f (a\<lparr>ai_mutex := m\<rparr>)) = m"
  shows "\<exists>a'. ai_guarded t f a = Some (Inr (a', ai_value a')) \<and> pm_owner (ai_mutex a') = None \<and>
    (\<exists>m. ai_value a' = ai_value (f (a\<lparr>ai_mutex := m\<rparr>)))"
  using assms
  by (auto simp: ai_guarded_def new_lock_guard_def mutex_lock_def pthread_mutex_lock_def check_call_def
      Let_def delete_lock_guard_def mutex_unlock_def pthread_mutex_unlock_def)

lemma ai_ops_free:
  assumes "pm_owner (ai_mutex a) = None"
  shows "\<exists>a'. ai_read t a = Some (Inr (a', ai_value a)) \<and> pm_owner (ai_mutex a') = None \<and> ai_value a' = ai_value a"
    "\<exists>a'. ai_write t n a = Some (Inr (a', n)) \<and> pm_owner (ai_mutex a') = None \<and> ai_value a' = n"
    "\<exists>a'. ai_incr t a = Some (Inr (a', ai_value a + 1)) \<and> pm_owner (ai_mutex a') = None \<and>
       ai_value a' = ai_value a + 1"
  using ai_guarded_free [OF assms, of "\<lambda>a. a" t] ai_guarded_free [OF assms, of "\<lambda>a. a\<lparr>ai_value := n\<rparr>" t]
    ai_guarded_free [OF assms, of "\<lambda>a. a\<lparr>ai_value := ai_value a + 1\<rparr>" t]
  by (auto simp: ai_read_def ai_write_def ai_incr_def)

section \<open>Queued items\<close>

record QueuedItem =
  qi_size :: nat
  qi_flags :: "32 word"
  qi_sb :: DynamicSamBuffer

abbreviation eThreadKill :: "32 word" where
  "eThreadKill \<equiv> 2"

definition new_QueuedItem :: QueuedItem where
  "new_QueuedItem = \<lparr>qi_size = 0, qi_flags = 0, qi_sb = new_DynamicSamBuffer 512\<rparr>"

definition qi_buf :: "QueuedItem \<Rightarrow> string" where
  "qi_buf i = msg_start (qi_sb i)"

definition release_item :: "QueuedItem \<Rightarrow> QueuedItem" where
  "release_item i = i\<lparr>qi_size := 0, qi_flags := 0\<rparr>"

definition kills :: "QueuedItem \<Rightarrow> bool" where
  "kills i \<longleftrightarrow> qi_flags i AND eThreadKill \<noteq> 0"

text \<open>The bytes of an item; an item is good when its buffer holds as many as its size says.\<close>

definition qi_bytes :: "QueuedItem \<Rightarrow> string" where
  "qi_bytes i = take (qi_size i) (qi_buf i)"

definition item_ok :: "QueuedItem \<Rightarrow> bool" where
  "item_ok i \<longleftrightarrow> qi_size i \<le> length (qi_buf i) \<and> qi_size i < 2 ^ 64"

section \<open>The component\<close>

record AdminIO =
  io_listener :: bool
  io_fd :: int
  io_is_stopping :: bool
  io_items :: "QueuedItem list"
  io_bytes_pending :: nat
  io_have_data :: bool
  io_threads_complete :: nat
  io_bytesout :: nat
  io_bytesin :: nat
  io_last_write :: nat
  io_log_io_events :: bool
  io_reader_lwp :: nat
  io_writer_lwp :: nat
  io_lwp_count :: nat

text \<open>
  The constructor; it also waits up to a tenth of a second for the threads it started, which
  changes nothing.
\<close>

definition new_AdminIO :: "bool \<Rightarrow> int \<Rightarrow> bool \<Rightarrow> AdminIO" where
  "new_AdminIO want_debug fd listener =
     \<lparr>io_listener = listener, io_fd = fd, io_is_stopping = False, io_items = [], io_bytes_pending = 0,
      io_have_data = False, io_threads_complete = 0, io_bytesout = 0, io_bytesin = 0, io_last_write = 0,
      io_log_io_events = want_debug, io_reader_lwp = 0, io_writer_lwp = 0, io_lwp_count = 0\<rparr>"

definition push_item :: "QueuedItem \<Rightarrow> AdminIO \<Rightarrow> AdminIO" where
  "push_item i io =
     io\<lparr>io_bytes_pending := (io_bytes_pending io + qi_size i) mod 2 ^ 64, io_items := io_items io @ [i],
        io_have_data := True\<rparr>"

definition enqueue_item :: "QueuedItem \<Rightarrow> AdminIO \<Rightarrow> AdminIO" where
  "enqueue_item i io = push_item i io"

definition bytes_pending_io :: "AdminIO \<Rightarrow> nat" where
  "bytes_pending_io io = io_bytes_pending io"

definition stop_item :: QueuedItem where
  "stop_item = new_QueuedItem\<lparr>qi_flags := qi_flags new_QueuedItem OR eThreadKill\<rparr>"

definition request_stop :: "AdminIO \<Rightarrow> AdminIO" where
  "request_stop io = push_item stop_item io"

definition stopping :: "AdminIO \<Rightarrow> bool" where
  "stopping io \<longleftrightarrow> io_is_stopping io"

abbreviation NumberInternalThreads :: nat where
  "NumberInternalThreads \<equiv> 2"

definition io_safe_to_delete :: "AdminIO \<Rightarrow> bool" where
  "io_safe_to_delete io \<longleftrightarrow> io_is_stopping io \<and> io_threads_complete io = NumberInternalThreads"

text \<open>
  The writer waits while there is no data, here \<open>None\<close>; the copy of the item may fail, after which
  the item is still queued.
\<close>

definition wait_and_pop :: "bool \<Rightarrow> AdminIO \<Rightarrow> (AdminIO \<times> QueuedItem) res option" where
  "wait_and_pop alloc io =
     (if \<not> io_have_data io then None
      else
        case io_items io of
          [] \<Rightarrow> Some (Inl (UndefinedAccess ''front of an empty queue''))
        | i # is \<Rightarrow>
            if \<not> alloc then Some (Inl BadAlloc)
            else Some (Inr (io\<lparr>io_items := is, io_bytes_pending := sub64 (io_bytes_pending io) (qi_size i),
                               io_have_data := length is > 0\<rparr>, i)))"

section \<open>Threads and the outside\<close>

datatype writer_pc =
    W_enter | W_loop | W_wait | W_test | W_send | W_kill | W_close | W_release
  | W_tail | W_tail_close | W_listener | W_complete | W_exit

datatype reader_pc =
    R_enter | R_loop | R_select | R_check | R_read | R_got "int" | R_decode | R_stop | R_complete | R_exit

datatype exit_reason = Unknown | QIKILL | FLAG_BEFORE_READ | WRITE_ERR | WHILE

record Writer =
  w_pc :: writer_pc
  w_item :: QueuedItem
  w_done :: nat
  w_reason :: exit_reason
  w_closed :: bool

record Reader =
  r_pc :: reader_pc
  r_buf :: ReactorReadBuffer
  r_msg :: txContainer

text \<open>What a system call, the clock or the allocator answers in a turn.\<close>

datatype io_send = Sent nat | SendFails int

datatype io_read = ReadData string | ReadError int

abbreviation EAGAIN :: int where
  "EAGAIN \<equiv> 11"

record io_env =
  e_tid :: nat
  e_now :: nat
  e_alloc :: bool
  e_send :: io_send
  e_ready :: bool
  e_read :: io_read

text \<open>The calls that the writer makes to the outside, in order.\<close>

datatype io_call = Send string | SetLinger | CloseFd | IoClosed

text \<open>
  The state of a run.  The last four components record what has happened: all items queued and
  those taken from the queue, the bytes read and the messages handed to the listener.
\<close>

record io_state =
  io_obj :: AdminIO
  io_writer :: Writer
  io_reader :: Reader
  io_calls :: "io_call list"
  io_pushed :: "QueuedItem list"
  io_popped :: "QueuedItem list"
  io_received :: string
  io_delivered :: "txContainer list"

definition w_goto :: "writer_pc \<Rightarrow> io_state \<Rightarrow> io_state" where
  "w_goto p s = s\<lparr>io_writer := (io_writer s)\<lparr>w_pc := p\<rparr>\<rparr>"

definition r_goto :: "reader_pc \<Rightarrow> io_state \<Rightarrow> io_state" where
  "r_goto p s = s\<lparr>io_reader := (io_reader s)\<lparr>r_pc := p\<rparr>\<rparr>"

definition io_queue :: "QueuedItem \<Rightarrow> io_state \<Rightarrow> io_state" where
  "io_queue i s = s\<lparr>io_obj := enqueue_item i (io_obj s), io_pushed := io_pushed s @ [i]\<rparr>"

definition io_stop :: "io_state \<Rightarrow> io_state" where
  "io_stop s = s\<lparr>io_obj := request_stop (io_obj s), io_pushed := io_pushed s @ [stop_item]\<rparr>"

definition set_stopping :: "io_state \<Rightarrow> io_state" where
  "set_stopping s = s\<lparr>io_obj := (io_obj s)\<lparr>io_is_stopping := True\<rparr>\<rparr>"

definition io_call :: "io_call \<Rightarrow> io_state \<Rightarrow> io_state" where
  "io_call c s = s\<lparr>io_calls := io_calls s @ [c]\<rparr>"

definition thread_complete :: "io_state \<Rightarrow> io_state" where
  "thread_complete s =
     s\<lparr>io_obj := (io_obj s)\<lparr>io_threads_complete := io_threads_complete (io_obj s) + 1\<rparr>\<rparr>"

section \<open>The writer thread\<close>

text \<open>One call of \<^verbatim>\<open>send\<close> with what remains of the item.\<close>

definition send_some :: "nat \<Rightarrow> io_send \<Rightarrow> io_state \<Rightarrow> io_state res" where
  "send_some now r s =
     (let w = io_writer s; io = io_obj s; len = qi_size (w_item w) - w_done w in
      if qi_size (w_item w) > length (qi_buf (w_item w))
      then Inl (UndefinedAccess ''send outside the buffer of the item'')
      else
        case r of
          SendFails err \<Rightarrow>
            if err = EAGAIN then Inr s
            else Inr (set_stopping (s\<lparr>io_writer := w\<lparr>w_reason := WRITE_ERR\<rparr>\<rparr>))
        | Sent k \<Rightarrow>
            let n = min k len in
            Inr (io_call (Send (take n (drop (w_done w) (qi_buf (w_item w)))))
                  (s\<lparr>io_writer := w\<lparr>w_done := w_done w + n\<rparr>,
                     io_obj := io\<lparr>io_last_write := now,
                                  io_bytesout := (io_bytesout io + n) mod 2 ^ 64\<rparr>\<rparr>)))"

text \<open>
  \<^verbatim>\<open>socket_write_TEP\<close> and \<^verbatim>\<open>socket_write\<close>.  An exception of the loop leads to its end.  The
  listener's \<^verbatim>\<open>io_closed\<close> may throw, which the thread's entry point catches.
\<close>

definition socket_write :: "io_env \<Rightarrow> io_state \<Rightarrow> io_state res option" where
  "socket_write e s =
     (let w = io_writer s; io = io_obj s in
      case w_pc w of
        W_enter \<Rightarrow>
          Some (Inr (w_goto W_loop
            (s\<lparr>io_obj := io\<lparr>io_writer_lwp := e_tid e, io_lwp_count := io_lwp_count io + 1\<rparr>,
               io_writer := w\<lparr>w_reason := Unknown, w_closed := False\<rparr>\<rparr>)))
      | W_loop \<Rightarrow>
          Some (Inr (if io_is_stopping io then w_goto W_tail s
                     else w_goto W_wait (s\<lparr>io_writer := w\<lparr>w_reason := Unknown\<rparr>\<rparr>)))
      | W_wait \<Rightarrow>
          map_option (\<lambda>r. case r of
              Inl x \<Rightarrow> if undefined_access x then Inl x else Inr (w_goto W_tail s)
            | Inr (io', i) \<Rightarrow>
                Inr (w_goto W_test (s\<lparr>io_obj := io', io_writer := w\<lparr>w_item := i, w_done := 0\<rparr>,
                                      io_popped := io_popped s @ [i]\<rparr>)))
            (wait_and_pop (e_alloc e) io)
      | W_test \<Rightarrow>
          Some (Inr (if \<not> io_is_stopping io \<and> w_done w < qi_size (w_item w) then w_goto W_send s
                     else w_goto W_kill s))
      | W_send \<Rightarrow> Some (bindR (send_some (e_now e) (e_send e) s) (\<lambda>s'. Inr (w_goto W_test s')))
      | W_kill \<Rightarrow>
          Some (Inr (if kills (w_item w) then w_goto W_close (set_stopping s) else w_goto W_release s))
      | W_close \<Rightarrow>
          Some (Inr (w_goto W_release (io_call CloseFd (io_call SetLinger
            (s\<lparr>io_writer := w\<lparr>w_closed := True,
                              w_reason := (if w_reason w = Unknown then QIKILL else w_reason w)\<rparr>\<rparr>)))))
      | W_release \<Rightarrow>
          Some (Inr (w_goto W_loop
            (s\<lparr>io_writer := w\<lparr>w_item := release_item (w_item w),
                              w_reason := (if w_reason w = Unknown then WHILE else w_reason w)\<rparr>\<rparr>)))
      | W_tail \<Rightarrow> Some (Inr (w_goto W_tail_close (set_stopping s)))
      | W_tail_close \<Rightarrow> Some (Inr (w_goto W_listener (if w_closed w then s else io_call CloseFd s)))
      | W_listener \<Rightarrow> Some (Inr (w_goto W_complete (if io_listener io then io_call IoClosed s else s)))
      | W_complete \<Rightarrow> Some (Inr (w_goto W_exit (thread_complete s)))
      | W_exit \<Rightarrow> None)"

section \<open>The reader thread\<close>

text \<open>The class \<^verbatim>\<open>ReadBuffer\<close> has the operations of \<^verbatim>\<open>ReactorReadBuffer\<close> and starts larger.\<close>

definition new_ReadBuffer :: ReactorReadBuffer where
  "new_ReadBuffer = new_ReactorReadBuffer 4096"

definition make_room :: "nat \<Rightarrow> ReactorReadBuffer \<Rightarrow> ReactorReadBuffer res" where
  "make_room lim b =
     bindR (if space_remain b = 0 then bindR (grow lim b) (\<lambda>(b', extra). Inr b') else Inr b) (\<lambda>b.
     if space_remain b = 0 then Inl (RuntimeError ''input buffer full'') else Inr b)"

text \<open>The item queued for the peer whose bytes cannot be decoded, if it can be encoded.\<close>

definition badmsg_item :: "nat \<Rightarrow> QueuedItem option" where
  "badmsg_item lim =
     (case encodeMsg lim (new_container ''badmsg'') (qi_sb new_QueuedItem) of
        Inl x \<Rightarrow> None
      | Inr (sb, n) \<Rightarrow> Some (new_QueuedItem\<lparr>qi_size := n, qi_sb := sb\<rparr>))"

definition set_buf :: "ReactorReadBuffer \<Rightarrow> io_state \<Rightarrow> io_state" where
  "set_buf b s = s\<lparr>io_reader := (io_reader s)\<lparr>r_buf := b\<rparr>\<rparr>"

text \<open>
  One call of \<^verbatim>\<open>read\<close>, which fills at most the space of the buffer, and less than \<open>2 ^ 31\<close> bytes, so
  that the count fits the \<^verbatim>\<open>int\<close> of \<^verbatim>\<open>incr_bytesavail\<close>.  With logging on, a failed call makes a string
  of \<open>n = -1\<close> bytes, which throws.
\<close>

definition read_some :: "io_read \<Rightarrow> io_state \<Rightarrow> io_state res" where
  "read_some r s =
     (let io = io_obj s; b = r_buf (io_reader s) in
      case r of
        ReadError err \<Rightarrow>
          if io_log_io_events io then Inr (r_goto R_stop s) else Inr (r_goto (R_got (-1)) s)
      | ReadData bs \<Rightarrow>
          let got = take (space_remain b) bs in
          bindR (write_wp got b) (\<lambda>b'.
          Inr (r_goto (R_got (int (length got)))
            (set_buf b' (s\<lparr>io_obj := io\<lparr>io_bytesin := (io_bytesin io + length got) mod 2 ^ 64\<rparr>,
                           io_received := io_received s @ got\<rparr>)))))"

text \<open>The end of a round of the outer loop.\<close>

definition end_round :: "io_state \<Rightarrow> io_state res" where
  "end_round s = bindR (shift_pending_to_array_start (r_buf (io_reader s))) (\<lambda>b. Inr (r_goto R_loop (set_buf b s)))"

text \<open>A round of the inner loop: one message is decoded and handed to the listener.\<close>

definition decode_one :: "nat \<Rightarrow> io_state \<Rightarrow> io_state res" where
  "decode_one lim s =
     (let b = r_buf (io_reader s) in
      if m_bytesavail b = 0 then end_round s
      else
        bindR (read_rp b) (\<lambda>bs.
        case decodeMsg (r_msg (io_reader s)) bs of
          Inl x \<Rightarrow>
            if undefined_access x then Inl x
            else Inr (r_goto R_stop (case badmsg_item lim of None \<Rightarrow> s | Some i \<Rightarrow> io_queue i s))
        | Inr (msg, consumed) \<Rightarrow>
            let s = s\<lparr>io_reader := (io_reader s)\<lparr>r_msg := msg\<rparr>\<rparr> in
            if consumed > 0
            then Inr (r_goto R_decode (set_buf (consume consumed b)
                   (if io_listener (io_obj s) then s\<lparr>io_delivered := io_delivered s @ [msg]\<rparr> else s)))
            else end_round s))"

text \<open>
  \<^verbatim>\<open>socket_read_TEP\<close> and \<^verbatim>\<open>read_from_socket\<close>.  An exception leads to \<open>R_stop\<close>, where the end is
  requested; a return does not.
\<close>

definition read_from_socket :: "nat \<Rightarrow> io_env \<Rightarrow> io_state \<Rightarrow> io_state res option" where
  "read_from_socket lim e s =
     (let io = io_obj s; r = io_reader s in
      case r_pc r of
        R_enter \<Rightarrow>
          Some (Inr (
            let s = s\<lparr>io_obj := io\<lparr>io_reader_lwp := e_tid e, io_lwp_count := io_lwp_count io + 1\<rparr>\<rparr> in
            if e_alloc e
            then r_goto R_loop (s\<lparr>io_reader := r\<lparr>r_buf := zero_buffer new_ReadBuffer, r_msg := new_container ''''\<rparr>\<rparr>)
            else r_goto R_stop s))
      | R_loop \<Rightarrow> Some (Inr (if io_is_stopping io then r_goto R_check s else r_goto R_select s))
      | R_select \<Rightarrow> Some (Inr (if e_ready e then r_goto R_check s else r_goto R_loop s))
      | R_check \<Rightarrow>
          Some (if io_is_stopping io then Inr (r_goto R_complete s)
                else case make_room lim (r_buf r) of
                  Inl x \<Rightarrow> if undefined_access x then Inl x else Inr (r_goto R_stop s)
                | Inr b \<Rightarrow> Inr (r_goto R_read (set_buf b s)))
      | R_read \<Rightarrow> Some (read_some (e_read e) s)
      | R_got n \<Rightarrow>
          Some (Inr (if io_is_stopping io then r_goto R_complete s
                     else if n \<le> 0 then r_goto R_stop s
                     else r_goto R_decode (set_buf (incr_bytesavail (nat n) (r_buf r)) s)))
      | R_decode \<Rightarrow> Some (decode_one lim s)
      | R_stop \<Rightarrow> Some (Inr (r_goto R_complete (io_stop s)))
      | R_complete \<Rightarrow> Some (Inr (r_goto R_exit (thread_complete s)))
      | R_exit \<Rightarrow> None)"

section \<open>Runs\<close>

text \<open>
  The constructed object with its two threads about to start.  The local variables get their
  values when the threads reach their declarations.
\<close>

definition io_started :: "AdminIO \<Rightarrow> io_state" where
  "io_started io =
     \<lparr>io_obj = io,
      io_writer = \<lparr>w_pc = W_enter, w_item = new_QueuedItem, w_done = 0, w_reason = Unknown, w_closed = False\<rparr>,
      io_reader = \<lparr>r_pc = R_enter, r_buf = new_ReadBuffer, r_msg = new_container ''''\<rparr>,
      io_calls = [], io_pushed = [], io_popped = [], io_received = [], io_delivered = []\<rparr>"

text \<open>
  Whose turn it is.  \<open>Stalled\<close> is a turn of the writer in which \<^verbatim>\<open>send\<close> takes nothing.
\<close>

datatype io_turn = WriterTurn | Stalled | ReaderTurn | ClientTurn

definition stalls :: "io_env \<Rightarrow> io_state \<Rightarrow> bool" where
  "stalls e s \<longleftrightarrow> w_pc (io_writer s) = W_send \<and> (e_send e = SendFails EAGAIN \<or> e_send e = Sent 0)"

inductive io_step :: "nat \<Rightarrow> io_turn \<Rightarrow> io_state \<Rightarrow> io_state \<Rightarrow> bool" for lim where
  writer: "socket_write e s = Some (Inr s') \<Longrightarrow> \<not> stalls e s \<Longrightarrow> io_step lim WriterTurn s s'"
| stalled: "socket_write e s = Some (Inr s') \<Longrightarrow> stalls e s \<Longrightarrow> io_step lim Stalled s s'"
| reader: "read_from_socket lim e s = Some (Inr s') \<Longrightarrow> io_step lim ReaderTurn s s'"
| queued: "item_ok i \<Longrightarrow> io_step lim ClientTurn s (io_queue i s)"
| stop: "io_step lim ClientTurn s (io_stop s)"

inductive turns :: "('t \<Rightarrow> 's \<Rightarrow> 's \<Rightarrow> bool) \<Rightarrow> 's \<Rightarrow> 't list \<Rightarrow> 's \<Rightarrow> bool" for step where
  start: "turns step s [] s"
| more: "turns step s ts s' \<Longrightarrow> step t s' s'' \<Longrightarrow> turns step s (ts @ [t]) s''"

definition io_reach :: "nat \<Rightarrow> bool \<Rightarrow> int \<Rightarrow> bool \<Rightarrow> io_state \<Rightarrow> bool" where
  "io_reach lim want_debug fd listener s \<longleftrightarrow>
     (\<exists>ts. turns (io_step lim) (io_started (new_AdminIO want_debug fd listener)) ts s)"

text \<open>The destructor joins both threads, so it blocks until they have left.\<close>

definition delete_AdminIO :: "io_state \<Rightarrow> unit option" where
  "delete_AdminIO s =
     (if r_pc (io_reader s) = R_exit \<and> w_pc (io_writer s) = W_exit then Some () else None)"

end
