(* ===== verification/Admin_IO_Laws.thy ===== *)
theory Admin_IO_Laws
  imports Admin_IO "HOL-Library.Sublist"
begin

text \<open>
  Invariants of the former I/O component in all interleavings of its threads: the queue and its
  counters, what the writer has sent at each of its program counters, and the buffer of the
  reader.
\<close>

lemmas io_upd = w_goto_def r_goto_def io_queue_def io_stop_def set_stopping_def io_call_def
  thread_complete_def set_buf_def enqueue_item_def push_item_def request_stop_def

section \<open>The queue\<close>

definition io_queue_ok :: "io_state \<Rightarrow> bool" where
  "io_queue_ok s \<longleftrightarrow>
     io_pushed s = io_popped s @ io_items (io_obj s) \<and>
     list_all item_ok (io_popped s) \<and> list_all item_ok (io_items (io_obj s)) \<and>
     (io_have_data (io_obj s) \<longleftrightarrow> io_items (io_obj s) \<noteq> []) \<and>
     io_bytes_pending (io_obj s) = sum_list (map qi_size (io_items (io_obj s))) mod 2 ^ 64"

lemma io_queue_ok_same [simp]:
  "io_queue_ok (w_goto p s) = io_queue_ok s" "io_queue_ok (r_goto q s) = io_queue_ok s" "io_queue_ok (set_buf b s) = io_queue_ok s"
  "io_queue_ok (thread_complete s) = io_queue_ok s" "io_queue_ok (io_call c s) = io_queue_ok s"
  "io_queue_ok (set_stopping s) = io_queue_ok s" "io_queue_ok (io_writer_update f s) = io_queue_ok s"
  "io_queue_ok (io_reader_update g s) = io_queue_ok s" "io_queue_ok (io_received_update h s) = io_queue_ok s"
  "io_queue_ok (io_delivered_update h' s) = io_queue_ok s"
  by (simp_all add: io_queue_ok_def io_upd)

lemma writer_side [simp]:
  "io_reader (w_goto p s) = io_reader s" "io_reader (set_stopping s) = io_reader s"
  "io_reader (io_call c s) = io_reader s" "io_reader (thread_complete s) = io_reader s"
  "io_received (w_goto p s) = io_received s" "io_received (set_stopping s) = io_received s"
  "io_received (io_call c s) = io_received s" "io_received (thread_complete s) = io_received s"
  "io_delivered (w_goto p s) = io_delivered s" "io_delivered (set_stopping s) = io_delivered s"
  "io_delivered (io_call c s) = io_delivered s" "io_delivered (thread_complete s) = io_delivered s"
  "io_pushed (w_goto p s) = io_pushed s" "io_pushed (set_stopping s) = io_pushed s"
  "io_pushed (io_call c s) = io_pushed s" "io_pushed (thread_complete s) = io_pushed s"
  "io_obj (set_stopping s) = (io_obj s)\<lparr>io_is_stopping := True\<rparr>"
  "io_obj (thread_complete s) = (io_obj s)\<lparr>io_threads_complete := io_threads_complete (io_obj s) + 1\<rparr>"
  by (simp_all add: io_upd)

lemma item_ok_new: "item_ok new_QueuedItem" "\<not> kills new_QueuedItem" "qi_bytes new_QueuedItem = []"
  by (simp_all add: item_ok_def kills_def qi_bytes_def new_QueuedItem_def)

lemma stop_item_simps [simp]: "item_ok stop_item" "kills stop_item" "qi_bytes stop_item = []" "qi_size stop_item = 0"
  by (simp_all add: item_ok_def kills_def qi_bytes_def stop_item_def new_QueuedItem_def)

lemma io_queue_ok_push: "io_queue_ok s \<Longrightarrow> item_ok i \<Longrightarrow> io_queue_ok (io_queue i s)"
  by (auto simp: io_queue_ok_def io_upd mod_simps)

lemma io_queue_ok_stop: "io_queue_ok s \<Longrightarrow> io_queue_ok (io_stop s)"
  by (auto simp: io_queue_ok_def io_upd)

lemma sub64_mod:
  assumes "b < 2 ^ 64"
  shows "sub64 ((b + c) mod 2 ^ 64) b = c mod 2 ^ 64"
proof -
  have "(int ((b + c) mod 2 ^ 64) - int b) mod 2 ^ 64 = int (c mod 2 ^ 64)"
    by (simp add: of_nat_mod mod_simps)
  then show ?thesis by (simp only: sub64_def nat_int)
qed

lemma wait_and_pop_cases:
  assumes "io_queue_ok s" "wait_and_pop alloc (io_obj s) = Some r"
  obtains i "is" where "io_items (io_obj s) = i # is"
    "r = (if alloc then Inr ((io_obj s)\<lparr>io_items := is, io_bytes_pending := sum_list (map qi_size is) mod 2 ^ 64,
            io_have_data := is \<noteq> []\<rparr>, i) else Inl BadAlloc)"
proof -
  obtain i "is" where items: "io_items (io_obj s) = i # is" "io_have_data (io_obj s)"
    using assms by (cases "io_items (io_obj s)") (auto simp: io_queue_ok_def wait_and_pop_def split: if_splits)
  have "qi_size i < 2 ^ 64"
    using assms(1) items by (auto simp: io_queue_ok_def item_ok_def)
  then have "sub64 (io_bytes_pending (io_obj s)) (qi_size i) = sum_list (map qi_size is) mod 2 ^ 64"
    using assms(1) items sub64_mod [of "qi_size i" "sum_list (map qi_size is)"] by (simp add: io_queue_ok_def)
  then show ?thesis
    using assms(2) items by (intro that [OF items(1)]) (auto simp: wait_and_pop_def)
qed

section \<open>The writer\<close>

definition queue_bytes :: "QueuedItem list \<Rightarrow> string" where
  "queue_bytes is = concat (map qi_bytes is)"

lemma queue_bytes_simps [simp]:
  "queue_bytes [] = []" "queue_bytes (i # is) = qi_bytes i @ queue_bytes is"
  "queue_bytes (is @ js) = queue_bytes is @ queue_bytes js"
  by (simp_all add: queue_bytes_def)

text \<open>The writer has sent all it took, and takes more.\<close>

definition fresh :: "io_state \<Rightarrow> bool" where
  "fresh s \<longleftrightarrow> \<not> io_is_stopping (io_obj s) \<and> \<not> w_closed (io_writer s) \<and> w_reason (io_writer s) \<noteq> QIKILL \<and>
     list_all (\<lambda>i. \<not> kills i) (io_popped s) \<and>
     (\<exists>xs. io_calls s = map Send xs \<and> concat xs = queue_bytes (io_popped s))"

text \<open>The writer is sending an item.\<close>

definition busy :: "io_state \<Rightarrow> bool" where
  "busy s \<longleftrightarrow> \<not> w_closed (io_writer s) \<and> w_done (io_writer s) \<le> qi_size (w_item (io_writer s)) \<and>
     (\<exists>ws xs. io_popped s = ws @ [w_item (io_writer s)] \<and> list_all (\<lambda>i. \<not> kills i) ws \<and>
        io_calls s = map Send xs \<and>
        concat xs = queue_bytes ws @ take (w_done (io_writer s)) (qi_bytes (w_item (io_writer s))))"

text \<open>The writer leaves; \<open>cs\<close> are the calls it has made since the last bytes.\<close>

definition kill_last :: "QueuedItem list \<Rightarrow> bool" where
  "kill_last is \<longleftrightarrow> (\<exists>ws k. is = ws @ [k] \<and> list_all (\<lambda>i. \<not> kills i) ws \<and> kills k)"

definition leaving :: "io_call list \<Rightarrow> io_state \<Rightarrow> bool" where
  "leaving cs s \<longleftrightarrow> io_is_stopping (io_obj s) \<and>
     (\<exists>xs. io_calls s = map Send xs @ cs \<and> prefix (concat xs) (queue_bytes (io_popped s)) \<and>
        (w_reason (io_writer s) = QIKILL \<longrightarrow> concat xs = queue_bytes (io_popped s))) \<and>
     (if w_closed (io_writer s) then kill_last (io_popped s) else list_all (\<lambda>i. \<not> kills i) (io_popped s)) \<and>
     (w_closed (io_writer s) \<longrightarrow> w_reason (io_writer s) \<in> {QIKILL, WRITE_ERR}) \<and>
     (w_reason (io_writer s) = QIKILL \<longrightarrow> w_closed (io_writer s))"

definition hang_up :: "io_state \<Rightarrow> io_call list" where
  "hang_up s = (if w_closed (io_writer s) then [SetLinger, CloseFd] else [])"

definition hung_up :: "io_state \<Rightarrow> io_call list" where
  "hung_up s = (if w_closed (io_writer s) then [SetLinger, CloseFd] else [CloseFd])"

definition told :: "io_state \<Rightarrow> io_call list" where
  "told s = (if io_listener (io_obj s) then [IoClosed] else [])"

fun writer_at :: "writer_pc \<Rightarrow> io_state \<Rightarrow> bool" where
  "writer_at W_enter s \<longleftrightarrow> fresh s"
| "writer_at W_loop s \<longleftrightarrow> fresh s \<or> leaving (hang_up s) s"
| "writer_at W_wait s \<longleftrightarrow> fresh s \<and> w_reason (io_writer s) = Unknown"
| "writer_at W_test s \<longleftrightarrow> busy s \<and>
     w_reason (io_writer s) = (if io_is_stopping (io_obj s) then WRITE_ERR else Unknown)"
| "writer_at W_send s \<longleftrightarrow> busy s \<and> w_reason (io_writer s) = Unknown \<and> \<not> io_is_stopping (io_obj s) \<and>
     w_done (io_writer s) < qi_size (w_item (io_writer s))"
| "writer_at W_kill s \<longleftrightarrow> busy s \<and>
     w_reason (io_writer s) = (if io_is_stopping (io_obj s) then WRITE_ERR else Unknown) \<and>
     (\<not> io_is_stopping (io_obj s) \<longrightarrow> w_done (io_writer s) = qi_size (w_item (io_writer s)))"
| "writer_at W_close s \<longleftrightarrow> busy s \<and> io_is_stopping (io_obj s) \<and> kills (w_item (io_writer s)) \<and>
     (w_reason (io_writer s) = Unknown \<and> w_done (io_writer s) = qi_size (w_item (io_writer s)) \<or>
      w_reason (io_writer s) = WRITE_ERR)"
| "writer_at W_release s \<longleftrightarrow> fresh s \<or> leaving (hang_up s) s"
| "writer_at W_tail s \<longleftrightarrow> fresh s \<or> leaving (hang_up s) s"
| "writer_at W_tail_close s \<longleftrightarrow> leaving (hang_up s) s"
| "writer_at W_listener s \<longleftrightarrow> leaving (hung_up s) s"
| "writer_at W_complete s \<longleftrightarrow> leaving (hung_up s @ told s) s"
| "writer_at W_exit s \<longleftrightarrow> leaving (hung_up s @ told s) s"

definition writer_ok :: "io_state \<Rightarrow> bool" where
  "writer_ok s \<longleftrightarrow> writer_at (w_pc (io_writer s)) s"

text \<open>The invariant sees of the state only what the writer alone changes.\<close>

definition writer_view :: "io_state \<Rightarrow> bool \<times> bool \<times> Writer \<times> io_call list \<times> QueuedItem list" where
  "writer_view s = (io_listener (io_obj s), io_is_stopping (io_obj s), io_writer s, io_calls s, io_popped s)"

lemma writer_at_view: "writer_view s' = writer_view s \<Longrightarrow> writer_at p s' = writer_at p s"
  by (cases p) (simp_all add: writer_view_def fresh_def busy_def leaving_def hang_up_def hung_up_def told_def)

lemma writer_ok_view: "writer_view s' = writer_view s \<Longrightarrow> writer_ok s' = writer_ok s"
proof -
  assume v: "writer_view s' = writer_view s"
  then have "io_writer s' = io_writer s" by (simp add: writer_view_def)
  then show ?thesis using writer_at_view [OF v] by (simp add: writer_ok_def)
qed

text \<open>Views of the updates, for the frame of each turn.\<close>

lemma writer_view_push [simp]: "writer_view (io_queue i s) = writer_view s" "writer_view (io_stop s) = writer_view s"
  "writer_view (r_goto q s) = writer_view s" "writer_view (set_buf b s) = writer_view s"
  "writer_view (thread_complete s) = writer_view s" "writer_view (io_reader_update g s) = writer_view s"
  "writer_view (io_received_update h s) = writer_view s" "writer_view (io_delivered_update h' s) = writer_view s"
  by (simp_all add: writer_view_def io_upd)

lemma goto_same [simp]:
  "fresh (w_goto p s) = fresh s" "busy (w_goto p s) = busy s" "leaving cs (w_goto p s) = leaving cs s"
  "hang_up (w_goto p s) = hang_up s" "hung_up (w_goto p s) = hung_up s" "told (w_goto p s) = told s"
    "io_obj (w_goto p s) = io_obj s" "w_reason (io_writer (w_goto p s)) = w_reason (io_writer s)"
  "w_item (io_writer (w_goto p s)) = w_item (io_writer s)"
  "w_done (io_writer (w_goto p s)) = w_done (io_writer s)" "w_pc (io_writer (w_goto p s)) = p"
  "w_closed (io_writer (w_goto p s)) = w_closed (io_writer s)"
  "io_calls (w_goto p s) = io_calls s" "io_popped (w_goto p s) = io_popped s"
  by (simp_all add: w_goto_def fresh_def busy_def leaving_def hang_up_def hung_up_def told_def)

lemma fresh_over:
  assumes "fresh s"
  shows "leaving (hang_up s) (set_stopping s)"
proof -
  obtain xs where "io_calls s = map Send xs" "concat xs = queue_bytes (io_popped s)"
    "\<not> w_closed (io_writer s)" "w_reason (io_writer s) \<noteq> QIKILL" "list_all (\<lambda>i. \<not> kills i) (io_popped s)"
    using assms unfolding fresh_def by blast
  then show ?thesis
    unfolding leaving_def by (auto simp: hang_up_def set_stopping_def)
qed

section \<open>A turn of the writer\<close>

text \<open>The four ends of an item: the peer takes all of it or not, and it ends the connection or not.\<close>

lemma busy_done:
  assumes "busy s" "w_done (io_writer s) = qi_size (w_item (io_writer s))"
  shows "\<exists>xs. io_calls s = map Send xs \<and> concat xs = queue_bytes (io_popped s)"
  using assms by (auto simp: busy_def qi_bytes_def)

lemma busy_prefix:
  assumes "busy s"
  shows "\<exists>xs. io_calls s = map Send xs \<and> prefix (concat xs) (queue_bytes (io_popped s))"
proof -
  obtain ws xs where x: "io_popped s = ws @ [w_item (io_writer s)]" "io_calls s = map Send xs"
    "concat xs = queue_bytes ws @ take (w_done (io_writer s)) (qi_bytes (w_item (io_writer s)))"
    using assms by (auto simp: busy_def)
  have "prefix (concat xs) (queue_bytes (io_popped s))"
    using x(1,3) take_is_prefix by simp
  then show ?thesis using x(2) by blast
qed

lemma busy_kills: "busy s \<Longrightarrow> kill_last (io_popped s) \<longleftrightarrow> kills (w_item (io_writer s))"
  by (auto simp: busy_def kill_last_def)

lemma busy_no_kill: "busy s \<Longrightarrow> \<not> kills (w_item (io_writer s)) \<Longrightarrow> list_all (\<lambda>i. \<not> kills i) (io_popped s)"
  by (auto simp: busy_def)

lemma write_kill:
  assumes "writer_at W_kill s"
  shows "\<not> kills (w_item (io_writer s)) \<Longrightarrow> writer_at W_release (w_goto W_release s)"
    "kills (w_item (io_writer s)) \<Longrightarrow> writer_at W_close (w_goto W_close (set_stopping s))"
proof -
  assume k: "\<not> kills (w_item (io_writer s))"
  have b: "busy s" and ncl: "\<not> w_closed (io_writer s)"
    using assms by (simp_all add: busy_def)
  show "writer_at W_release (w_goto W_release s)"
  proof (cases "io_is_stopping (io_obj s)")
    case True
    then have "leaving (hang_up s) s"
      using assms busy_prefix [OF b] busy_no_kill [OF b k] ncl by (auto simp: leaving_def hang_up_def)
    then show ?thesis by simp
  next
    case False
    then have "fresh s"
      using assms busy_done [OF b] busy_no_kill [OF b k] ncl by (auto simp: fresh_def)
    then show ?thesis by simp
  qed
next
  assume "kills (w_item (io_writer s))"
  then show "writer_at W_close (w_goto W_close (set_stopping s))"
    using assms by (auto simp: busy_def w_goto_def set_stopping_def split: if_splits)
qed

lemma write_close:
  assumes "writer_at W_close s"
  defines "w \<equiv> io_writer s"
  shows "writer_at W_release (w_goto W_release (io_call CloseFd (io_call SetLinger
    (s\<lparr>io_writer := w\<lparr>w_closed := True, w_reason := (if w_reason w = Unknown then QIKILL else w_reason w)\<rparr>\<rparr>))))"
proof -
  have b: "busy s" using assms by simp
  obtain xs where xs: "io_calls s = map Send xs" "prefix (concat xs) (queue_bytes (io_popped s))"
    using busy_prefix [OF b] by blast
  have "concat xs = queue_bytes (io_popped s)" if "w_reason w = Unknown"
    using busy_done [OF b] assms that xs(1) by (auto simp: map_injective inj_def)
  then show ?thesis
    using assms xs busy_kills [OF b] by (auto simp: leaving_def hang_up_def io_upd)
qed

lemma write_send:
  assumes "writer_at W_send s" "send_some now r s = Inr s'"
  shows "writer_at W_test (w_goto W_test s')"
proof (cases r)
  case (SendFails err)
  then show ?thesis
    using assms by (auto simp: send_some_def Let_def busy_def io_upd split: if_splits)
next
  case (Sent k)
  let ?w = "io_writer s"
  let ?n = "min k (qi_size (w_item ?w) - w_done ?w)"
  let ?out = "take ?n (drop (w_done ?w) (qi_buf (w_item ?w)))"
  obtain ws xs where x: "io_popped s = ws @ [w_item ?w]" "list_all (\<lambda>i. \<not> kills i) ws" "io_calls s = map Send xs"
    "concat xs = queue_bytes ws @ take (w_done ?w) (qi_bytes (w_item ?w))"
    using assms(1) by (auto simp: busy_def)
  have le: "w_done ?w + ?n \<le> qi_size (w_item ?w)"
    using assms(1) by auto
  then have "take (w_done ?w) (qi_bytes (w_item ?w)) @ ?out = take (w_done ?w + ?n) (qi_bytes (w_item ?w))"
    by (simp add: qi_bytes_def take_add drop_take min_def)
  then have "concat (xs @ [?out]) = queue_bytes ws @ take (w_done ?w + ?n) (qi_bytes (w_item ?w))"
    using x(4) by simp
  moreover have "io_calls s @ [Send ?out] = map Send (xs @ [?out])" using x(3) by simp
  ultimately have "\<exists>ws' xs'. io_popped s = ws' @ [w_item ?w] \<and> list_all (\<lambda>i. \<not> kills i) ws' \<and>
      io_calls s @ [Send ?out] = map Send xs' \<and>
      concat xs' = queue_bytes ws' @ take (w_done ?w + ?n) (qi_bytes (w_item ?w))"
    using x(1,2) by blast
  then show ?thesis
    using assms Sent le
    by (simp add: send_some_def Let_def busy_def io_upd split: if_splits) fastforce
qed

lemma running_iff: "fresh s \<Longrightarrow> \<not> io_is_stopping (io_obj s)" "leaving cs s \<Longrightarrow> io_is_stopping (io_obj s)"
  by (simp_all add: fresh_def leaving_def)

lemma fresh_reason: "fresh s \<Longrightarrow> fresh (s\<lparr>io_writer := (io_writer s)\<lparr>w_reason := Unknown\<rparr>\<rparr>)"
  by (simp add: fresh_def)

lemma fresh_pop:
  assumes "fresh s"
  shows "busy (s\<lparr>io_obj := io, io_writer := (io_writer s)\<lparr>w_item := i, w_done := 0\<rparr>, io_popped := io_popped s @ [i]\<rparr>)"
  using assms by (auto simp: fresh_def busy_def)

lemma leaving_stopping: "leaving cs s \<Longrightarrow> leaving cs (set_stopping s)"
  by (simp add: leaving_def set_stopping_def)

lemma leaving_same [simp]:
  "io_obj (io_call c s) = io_obj s"
  "leaving cs (thread_complete s) = leaving cs s" "leaving (cs @ [c]) (io_call c s) = leaving cs s"
  "hang_up (set_stopping s) = hang_up s" "hang_up (io_call c s) = hang_up s" "hung_up (io_call c s) = hung_up s"
  "hung_up (thread_complete s) = hung_up s" "told (io_call c s) = told s" "told (thread_complete s) = told s"
  by (auto simp: leaving_def hang_up_def hung_up_def told_def io_upd)

lemma leaving_hang_up:
  assumes "leaving (hang_up s) s"
  shows "leaving (hung_up s) (if w_closed (io_writer s) then s else io_call CloseFd s)"
  using assms by (auto simp: leaving_def hang_up_def hung_up_def io_call_def)

text \<open>A turn that only notes something in the writer's local variables.\<close>

lemma keep_local:
  assumes "writer_at W_release s"
  shows "writer_at W_loop (s\<lparr>io_writer := (io_writer s)\<lparr>w_item := i,
    w_reason := (if w_reason (io_writer s) = Unknown then WHILE else w_reason (io_writer s))\<rparr>\<rparr>)"
  using assms by (auto simp: leaving_def fresh_def hang_up_def)

lemma writer_turn_ok:
  assumes "writer_ok s" "io_queue_ok s" "socket_write e s = Some (Inr s')"
  shows "writer_ok s'"
proof -
  let ?p = "w_pc (io_writer s)"
  note d = assms(3) [unfolded socket_write_def Let_def]
  have at: "writer_at ?p s" using assms(1) by (simp add: writer_ok_def)
  have "writer_at (w_pc (io_writer s')) s'"
  proof (cases ?p)
    case W_enter
    then have "s' = w_goto W_loop (s\<lparr>io_obj := (io_obj s)\<lparr>io_writer_lwp := e_tid e,
        io_lwp_count := io_lwp_count (io_obj s) + 1\<rparr>, io_writer := (io_writer s)\<lparr>w_reason := Unknown, w_closed := False\<rparr>\<rparr>)"
      using d by simp
    then show ?thesis using at W_enter by (simp add: fresh_def)
  next
    case W_loop
    then show ?thesis using d at running_iff(1) [of s] running_iff(2) [of _ s] fresh_reason [of s] by (auto split: if_splits)
  next
    case W_wait
    then obtain r where r: "wait_and_pop (e_alloc e) (io_obj s) = Some r" using d by auto
    have f: "fresh s" "w_reason (io_writer s) = Unknown" "\<not> io_is_stopping (io_obj s)"
      using at W_wait running_iff(1) by auto
    from wait_and_pop_cases [OF assms(2) r] show ?thesis
    proof cases
      case (1 i "is")
      show ?thesis
      proof (cases "e_alloc e")
        case True
        then show ?thesis
          using d r W_wait fresh_pop [OF f(1)] f(2,3) 1(2) by auto
      next
        case False
        then have "s' = w_goto W_tail s" using d r W_wait 1(2) by simp
        then show ?thesis using f(1) by simp
      qed
    qed
  next
    case W_test
    have "busy s \<Longrightarrow> w_done (io_writer s) \<le> qi_size (w_item (io_writer s))" by (simp add: busy_def)
    then show ?thesis using W_test d at by auto
  next
    case W_send
    then obtain s1 where "send_some (e_now e) (e_send e) s = Inr s1" "s' = w_goto W_test s1"
      using d by auto
    then show ?thesis using at W_send write_send [of s "e_now e" "e_send e" s1] by (simp only: goto_same)
  next
    case W_kill
    then show ?thesis
      using d at write_kill [of s] by (cases "kills (w_item (io_writer s))") auto
  next
    case W_close
    then show ?thesis using d at write_close [of s] by auto
  next
    case W_release
    then show ?thesis using d at keep_local [of s] by auto
  next
    case W_tail
    then have "s' = w_goto W_tail_close (set_stopping s)" using d by simp
    then show ?thesis using at W_tail fresh_over [of s] leaving_stopping [of "hang_up s" s] by auto
  next
    case W_tail_close
    then have "s' = w_goto W_listener (if w_closed (io_writer s) then s else io_call CloseFd s)" using d by simp
    then show ?thesis using at W_tail_close leaving_hang_up [of s] by auto
  next
    case W_listener
    then have "s' = w_goto W_complete (if io_listener (io_obj s) then io_call IoClosed s else s)" using d by simp
    then show ?thesis using at W_listener by (auto simp: told_def)
  qed (use d at in auto)
  then show ?thesis by (simp add: writer_ok_def)
qed

section \<open>The reader\<close>

definition reading :: "reader_pc \<Rightarrow> bool" where
  "reading p \<longleftrightarrow> p \<notin> {R_enter, R_stop, R_complete, R_exit}"

text \<open>The buffer with the bytes just read.\<close>

definition r_now :: "io_state \<Rightarrow> ReactorReadBuffer" where
  "r_now s = (case r_pc (io_reader s) of
     R_got n \<Rightarrow> incr_bytesavail (nat n) (r_buf (io_reader s)) | _ \<Rightarrow> r_buf (io_reader s))"

definition reader_ok :: "io_state \<Rightarrow> bool" where
  "reader_ok s \<longleftrightarrow>
     (r_pc (io_reader s) = R_enter \<longrightarrow> io_received s = [] \<and> io_delivered s = []) \<and>
     (reading (r_pc (io_reader s)) \<longrightarrow> rbuf_ok (r_now s) \<and>
        (r_pc (io_reader s) \<noteq> R_decode \<longrightarrow> m_rp (r_now s) = 0) \<and>
        (r_pc (io_reader s) = R_read \<longrightarrow> space_remain (r_now s) > 0))"

lemma make_room_ok:
  assumes "rbuf_ok b" "m_rp b = 0" "make_room lim b = Inr b'"
  shows "rbuf_ok b'" "m_rp b' = 0" "contents b' = contents b" "space_remain b' > 0"
    "m_bytesavail b' = m_bytesavail b"
proof -
  consider "b' = b" "space_remain b > 0" | n where "grow lim b = Inr (b', n)" "space_remain b' > 0"
    using assms(3) by (auto simp: make_room_def split: if_splits)
  then have "rbuf_ok b' \<and> m_rp b' = 0 \<and> contents b' = contents b \<and> space_remain b' > 0 \<and>
    m_bytesavail b' = m_bytesavail b"
    using assms(1,2) grow_ok [OF assms(1)] by cases auto
  then show "rbuf_ok b'" "m_rp b' = 0" "contents b' = contents b" "space_remain b' > 0"
    "m_bytesavail b' = m_bytesavail b" by simp_all
qed

text \<open>A turn of the reader that fails leaves the loop for good.\<close>

lemma read_some_cases:
  assumes "rbuf_ok (r_buf (io_reader s))" "m_rp (r_buf (io_reader s)) = 0"
  obtains (failed) p where "read_some r s = Inr (r_goto p s)" "p = R_stop \<or> p = R_got (-1)"
  | (got) got b' where "read_some r s = Inr (r_goto (R_got (int (length got))) (set_buf b'
      (s\<lparr>io_obj := (io_obj s)\<lparr>io_bytesin := (io_bytesin (io_obj s) + length got) mod 2 ^ 64\<rparr>,
         io_received := io_received s @ got\<rparr>)))"
    "rbuf_ok (incr_bytesavail (length got) b')" "m_rp (incr_bytesavail (length got) b') = 0"
    "contents (incr_bytesavail (length got) b') = contents (r_buf (io_reader s)) @ got"
proof (cases r)
  case (ReadData bs)
  let ?b = "r_buf (io_reader s)"
  let ?got = "take (space_remain ?b) bs"
  have "length ?got \<le> space_remain ?b" by simp
  then obtain b' where "write_wp ?got ?b = Inr b'" "rbuf_ok (incr_bytesavail (length ?got) b')"
    "contents (incr_bytesavail (length ?got) b') = contents ?b @ ?got" "m_rp (incr_bytesavail (length ?got) b') = 0"
    using write_ok [OF assms] by blast
  then show ?thesis
    using got [of ?got b'] ReadData by (simp add: read_some_def Let_def)
next
  case (ReadError err)
  then show ?thesis
    using failed [of R_stop] failed [of "R_got (-1)"]
    by (cases "io_log_io_events (io_obj s)") (simp_all add: read_some_def)
qed

lemma decode_bound:
  assumes "decodeMsg old bs = Inr (m, n)"
  shows "n \<le> length bs"
  using decodeMsg_cases [OF assms] by (metis le0)

lemma end_round_ok:
  assumes "rbuf_ok (r_buf (io_reader s))"
  obtains b where "end_round s = Inr (r_goto R_loop (set_buf b s))" "rbuf_ok b" "m_rp b = 0"
    "contents b = contents (r_buf (io_reader s))"
  using shift_ok [OF assms] that by (metis end_round_def bindR_simps(2))

text \<open>What the encoder returns is the number of bytes its buffer holds.\<close>

lemma encoded_wire:
  assumes e: "encodeMsg lim msg (new_DynamicSamBuffer r) = Inr (sb, n)" and small: "length (enc_body msg) + 30 < 2 ^ 32"
  shows "msg_bytes sb = wire msg" "n = length (wire msg)" "n = msg_size sb"
proof -
  obtain sb0 where sb0: "encode_body (append_str lim) (append_char lim) msg (new_DynamicSamBuffer r) = Inr sb0"
    "encode_header sb0 = Inr sb" "n = msg_size sb"
    using e by (auto simp: encodeMsg_def)
  have o: "dyn_open sb0" "msg_bytes sb0 = enc_body msg"
    using dyn.writes_step [OF dyn.writes_body dyn_open_new sb0(1)] by simp_all
  have size: "msg_size sb0 = length (enc_body msg)"
    using length_msg_bytes [of sb0] o by (simp add: dyn_open_def)
  obtain sb' where "encode_header sb0 = Inr sb'" "dyn_inv sb'" "msg_bytes sb' = wire msg"
    using encode_header_ok [OF o(1) _ prod.collapse [symmetric]] small size o(2)
    by (auto simp: wire_def wire_len_def)
  then show "msg_bytes sb = wire msg" "n = length (wire msg)" "n = msg_size sb"
    using sb0(2,3) length_msg_bytes [of sb'] by simp_all
qed

text \<open>An encoded message with its size is a good item, and its bytes are those of the message.\<close>

lemma encoded_item:
  assumes "encodeMsg lim msg (new_DynamicSamBuffer r) = Inr (sb, n)" "length (enc_body msg) + 30 < 2 ^ 32"
  shows "item_ok (i\<lparr>qi_size := n, qi_sb := sb\<rparr>)" "qi_bytes (i\<lparr>qi_size := n, qi_sb := sb\<rparr>) = wire msg"
proof -
  note w = encoded_wire [OF assms]
  show "qi_bytes (i\<lparr>qi_size := n, qi_sb := sb\<rparr>) = wire msg"
    using w(1,3) by (simp add: qi_bytes_def qi_buf_def msg_bytes_def)
  have "n \<le> length (msg_start sb)"
    using w by (metis msg_bytes_def length_take min.cobounded1)
  moreover have "n < 2 ^ 64"
    using w(2) length_wire [OF assms(2)] header_len_ok(1,3) [OF prod.collapse [symmetric] assms(2)] assms(2)
    by (simp add: wire_len_def)
  ultimately show "item_ok (i\<lparr>qi_size := n, qi_sb := sb\<rparr>)"
    by (simp add: item_ok_def qi_buf_def)
qed

lemma badmsg_small: "length (enc_body (new_container ''badmsg'')) + 30 < 2 ^ 32"
  by (simp add: enc_body_def new_container_def)

lemma encode_badmsg:
  assumes "badmsg_item lim = Some i"
  shows "item_ok i" "\<not> kills i" "qi_bytes i = wire (new_container ''badmsg'')"
proof -
  obtain sb n where e: "encodeMsg lim (new_container ''badmsg'') (new_DynamicSamBuffer 512) = Inr (sb, n)"
    and i: "i = new_QueuedItem\<lparr>qi_size := n, qi_sb := sb\<rparr>"
    using assms by (auto simp: badmsg_item_def new_QueuedItem_def split: sum.splits)
  show "\<not> kills i" by (simp add: i kills_def new_QueuedItem_def)
  show "item_ok i" "qi_bytes i = wire (new_container ''badmsg'')"
    using encoded_item [OF e badmsg_small] by (simp_all add: i)
qed

lemma decode_one_cases:
  assumes "rbuf_ok (r_buf (io_reader s))"
  defines "b \<equiv> r_buf (io_reader s)"
  obtains (undefined) x where "decode_one lim s = Inl x" "decodeMsg (r_msg (io_reader s)) (contents b) = Inl x"
      "undefined_access x"
  | (bad) x where "decodeMsg (r_msg (io_reader s)) (contents b) = Inl x" "m_bytesavail b > 0"
      "decode_one lim s = Inr (r_goto R_stop (case badmsg_item lim of None \<Rightarrow> s | Some i \<Rightarrow> io_queue i s))"
  | (message) m n where "decodeMsg (r_msg (io_reader s)) (contents b) = Inr (m, n)" "0 < n" "n \<le> m_bytesavail b"
      "decode_one lim s = Inr (r_goto R_decode (set_buf (consume n b) (s\<lparr>io_reader := (io_reader s)\<lparr>r_msg := m\<rparr>,
         io_delivered := (if io_listener (io_obj s) then io_delivered s @ [m] else io_delivered s)\<rparr>)))"
  | (none) m b' where "m_bytesavail b = 0 \<or> decodeMsg (r_msg (io_reader s)) (contents b) = Inr (m, 0)"
      "decode_one lim s = Inr (r_goto R_loop (set_buf b' (s\<lparr>io_reader := (io_reader s)\<lparr>r_msg := m\<rparr>\<rparr>)))"
      "rbuf_ok b'" "m_rp b' = 0" "contents b' = contents b"
proof (cases "m_bytesavail b = 0")
  case True
  have same: "s\<lparr>io_reader := (io_reader s)\<lparr>r_msg := r_msg (io_reader s)\<rparr>\<rparr> = s" by simp
  have "decode_one lim s = end_round s" using True by (simp add: decode_one_def b_def)
  then show ?thesis
    using True end_round_ok [OF assms(1)] none [of "r_msg (io_reader s)", unfolded same] unfolding b_def
    by metis
next
  case False
  have one: "decode_one lim s = (case decodeMsg (r_msg (io_reader s)) (contents b) of
          Inl x \<Rightarrow>
            if undefined_access x then Inl x
            else Inr (r_goto R_stop (case badmsg_item lim of None \<Rightarrow> s | Some i \<Rightarrow> io_queue i s))
        | Inr (msg, consumed) \<Rightarrow>
            let s = s\<lparr>io_reader := (io_reader s)\<lparr>r_msg := msg\<rparr>\<rparr> in
            if consumed > 0
            then Inr (r_goto R_decode (set_buf (consume consumed b)
                   (if io_listener (io_obj s) then s\<lparr>io_delivered := io_delivered s @ [msg]\<rparr> else s)))
            else end_round s)"
    using False assms(1) unfolding decode_one_def b_def Let_def by simp
  show ?thesis
  proof (cases "decodeMsg (r_msg (io_reader s)) (contents b)")
    case (Inl x)
    then show ?thesis using one undefined bad [of x] False by (cases "undefined_access x") auto
  next
    case (Inr y)
    obtain m n where y: "y = (m, n)" by (cases y)
    let ?s = "s\<lparr>io_reader := (io_reader s)\<lparr>r_msg := m\<rparr>\<rparr>"
    have le: "n \<le> m_bytesavail b"
      using decode_bound Inr y length_contents [OF assms(1)] by (metis b_def)
    show ?thesis
    proof (cases "n = 0")
      case True
      have s: "rbuf_ok (r_buf (io_reader ?s))" "decode_one lim s = end_round ?s"
        using assms one Inr y True by (simp_all add: Let_def)
      from end_round_ok [OF s(1)] obtain b' where "end_round ?s = Inr (r_goto R_loop (set_buf b' ?s))" "rbuf_ok b'"
        "m_rp b' = 0" "contents b' = contents b"
        using b_def by auto
      then show ?thesis
        using s(2) none [of m b'] Inr y True by simp
    next
      case False
      then show ?thesis
        using message [of m n] one Inr y le by (simp add: Let_def)
    qed
  qed
qed

lemma r_goto_simps [simp]:
  "io_reader (r_goto p s) = (io_reader s)\<lparr>r_pc := p\<rparr>" "io_reader (set_buf b s) = (io_reader s)\<lparr>r_buf := b\<rparr>"
  "io_obj (r_goto p s) = io_obj s" "io_obj (set_buf b s) = io_obj s"
  "io_pushed (r_goto p s) = io_pushed s" "io_pushed (set_buf b s) = io_pushed s"
  "io_received (r_goto p s) = io_received s" "io_received (set_buf b s) = io_received s"
  "io_delivered (r_goto p s) = io_delivered s" "io_delivered (set_buf b s) = io_delivered s"
  "io_reader (io_queue i s) = io_reader s" "io_reader (io_stop s) = io_reader s"
  "io_received (io_queue i s) = io_received s" "io_received (io_stop s) = io_received s"
  "io_delivered (io_queue i s) = io_delivered s" "io_delivered (io_stop s) = io_delivered s"
  by (simp_all add: io_upd)

lemma reader_ok_left: "\<not> reading p \<Longrightarrow> p \<noteq> R_enter \<Longrightarrow> reader_ok (r_goto p s)"
  by (simp add: reader_ok_def)

lemmas left_loop = reader_ok_left [of R_stop] reader_ok_left [of R_complete] reader_ok_left [of R_exit]

lemma rbuf_ok_zero [simp]: "rbuf_ok (zero_buffer new_ReadBuffer)" "m_rp (zero_buffer new_ReadBuffer) = 0"
  "contents (zero_buffer new_ReadBuffer) = []"
  by (simp_all add: zero_buffer_def new_ReadBuffer_def new_ReactorReadBuffer_def rbuf_ok_def contents_def)

lemma incr_none: "rbuf_ok b \<Longrightarrow> incr_bytesavail 0 b = b"
  using rbuf_small [of b] by (simp add: incr_bytesavail_def)

lemma reader_turn_ok:
  assumes "reader_ok s" "read_from_socket lim e s = Some (Inr s')"
  shows "reader_ok s'"
proof -
  let ?r = "io_reader s"
  note d = assms(2) [unfolded read_from_socket_def Let_def]
  note left = left_loop [unfolded reading_def, simplified]
  have ok: "rbuf_ok (r_now s)" "r_pc ?r \<noteq> R_decode \<longrightarrow> m_rp (r_now s) = 0" "r_pc ?r = R_read \<longrightarrow> space_remain (r_now s) > 0"
    if "reading (r_pc ?r)"
    using that assms(1) by (simp_all add: reader_ok_def)
  show ?thesis
  proof (cases "r_pc ?r")
    case R_check
    then have b: "rbuf_ok (r_buf ?r)" "m_rp (r_buf ?r) = 0"
      using ok by (simp_all add: r_now_def reading_def)
    show ?thesis
    proof (cases "make_room lim (r_buf ?r)")
      case (Inl x)
      then show ?thesis using d R_check left by (auto split: if_splits)
    next
      case (Inr b')
      then show ?thesis
        using make_room_ok [OF b Inr] d R_check left by (auto simp: reader_ok_def r_now_def split: if_splits)
    qed
  next
    case R_read
    then have b: "rbuf_ok (r_buf ?r)" "m_rp (r_buf ?r) = 0" "read_some (e_read e) s = Inr s'"
      using ok d by (simp_all add: r_now_def reading_def)
    from b(1,2) show ?thesis
    proof (cases rule: read_some_cases [where r = "e_read e"])
      case (failed p)
      then show ?thesis
        using b left by (auto simp: reader_ok_def r_now_def incr_none reading_def)
    next
      case (got bs b')
      then show ?thesis using b(3) by (auto simp: reader_ok_def r_now_def)
    qed
  next
    case (R_got n)
    then show ?thesis
      using ok d left by (auto simp: reader_ok_def r_now_def reading_def split: if_splits)
  next
    case R_decode
    then have b: "rbuf_ok (r_buf ?r)" "decode_one lim s = Inr s'"
      using ok d by (simp_all add: r_now_def reading_def)
    from b(1) show ?thesis
    proof (cases rule: decode_one_cases [where lim = lim])
      case (bad x)
      then show ?thesis using b(2) left by auto
    next
      case (message m n)
      then show ?thesis
        using b consume_ok [OF b(1) message(3)] by (auto simp: reader_ok_def r_now_def)
    qed (use b(2) in \<open>auto simp: reader_ok_def r_now_def\<close>)
  qed (use d left ok in \<open>auto simp: reader_ok_def r_now_def reading_def split: if_splits\<close>)
qed

end
