(* ===== verification/Admin_IO_Theorems.thy ===== *)
theory Admin_IO_Theorems
  imports Admin_IO_Laws
begin

text \<open>
  What the former I/O component guarantees, however its threads interleave: the bytes sent, the
  end of the threads once the end is requested, the messages handed over, and that no access is
  undefined.
\<close>

section \<open>The invariant\<close>

definition exited :: "io_state \<Rightarrow> nat" where
  "exited s = of_bool (w_pc (io_writer s) = W_exit) + of_bool (r_pc (io_reader s) = R_exit)"

definition io_inv :: "io_state \<Rightarrow> bool" where
  "io_inv s \<longleftrightarrow> io_queue_ok s \<and> writer_ok s \<and> reader_ok s \<and> io_threads_complete (io_obj s) = exited s"

text \<open>What a turn of the writer leaves alone.\<close>

lemma send_some_frame:
  assumes "send_some now r s = Inr s'"
  shows "io_reader s' = io_reader s" "io_received s' = io_received s" "io_delivered s' = io_delivered s"
    "io_pushed s' = io_pushed s" "io_popped s' = io_popped s" "w_item (io_writer s') = w_item (io_writer s)"
    "io_items (io_obj s') = io_items (io_obj s)" "io_have_data (io_obj s') = io_have_data (io_obj s)"
    "io_bytes_pending (io_obj s') = io_bytes_pending (io_obj s)" "io_listener (io_obj s') = io_listener (io_obj s)"
    "io_threads_complete (io_obj s') = io_threads_complete (io_obj s)"
    "io_is_stopping (io_obj s) \<Longrightarrow> io_is_stopping (io_obj s')"
  using assms by (auto simp: send_some_def Let_def io_upd split: if_splits io_send.splits)

text \<open>What the turns of one thread keep for the others.\<close>

definition w_kept :: "io_state \<Rightarrow> io_state \<Rightarrow> bool" where
  "w_kept s s' \<longleftrightarrow> io_reader s' = io_reader s \<and> io_received s' = io_received s \<and> io_delivered s' = io_delivered s \<and>
     io_pushed s' = io_pushed s \<and> io_listener (io_obj s') = io_listener (io_obj s) \<and>
     (io_is_stopping (io_obj s) \<longrightarrow> io_is_stopping (io_obj s')) \<and> io_queue_ok s' \<and>
     io_threads_complete (io_obj s') = io_threads_complete (io_obj s) + of_bool (w_pc (io_writer s') = W_exit) \<and>
     w_pc (io_writer s) \<noteq> W_exit"

lemma pop_kept:
  assumes "io_queue_ok s" "wait_and_pop alloc (io_obj s) = Some (Inr (io', i))" "w_pc (io_writer s) = W_wait"
  shows "w_kept s (w_goto W_test (s\<lparr>io_obj := io', io_writer := w, io_popped := io_popped s @ [i]\<rparr>))"
proof (rule wait_and_pop_cases [OF assms(1,2)])
  fix j "is"
  assume "io_items (io_obj s) = j # is"
    "Inr (io', i) = (if alloc then Inr ((io_obj s)\<lparr>io_items := is, io_bytes_pending := sum_list (map qi_size is) mod 2 ^ 64,
            io_have_data := is \<noteq> []\<rparr>, j) else Inl BadAlloc)"
  then have "io_items (io_obj s) = i # is" "io' = (io_obj s)\<lparr>io_items := is,
      io_bytes_pending := sum_list (map qi_size is) mod 2 ^ 64, io_have_data := is \<noteq> []\<rparr>"
    by (auto split: if_splits)
  then show ?thesis
    using assms(1,3) by (simp add: w_kept_def io_queue_ok_def w_goto_def)
qed

lemma send_kept:
  assumes "io_queue_ok s" "send_some now r s = Inr s1" "w_pc (io_writer s) = W_send"
  shows "w_kept s (w_goto W_test s1)"
  using send_some_frame [OF assms(2)] assms(1,3) by (simp add: w_kept_def io_queue_ok_def w_goto_def)

lemma writer_kept:
  assumes "io_queue_ok s" "socket_write e s = Some (Inr s')"
  shows "w_kept s s'"
proof -
  note d = assms(2) [unfolded socket_write_def Let_def]
  show ?thesis
  proof (cases "w_pc (io_writer s)")
    case W_wait
    then obtain r where r: "wait_and_pop (e_alloc e) (io_obj s) = Some r" using d by auto
    show ?thesis
    proof (cases r)
      case (Inl x)
      then have "s' = w_goto W_tail s" using d r W_wait by (auto split: if_splits)
      then show ?thesis using assms(1) W_wait by (simp add: w_kept_def io_queue_ok_def w_goto_def)
    next
      case (Inr y)
      then show ?thesis using d r W_wait pop_kept [OF assms(1), of "e_alloc e" "fst y" "snd y"] by (auto split: prod.splits)
    qed
  next
    case W_send
    then show ?thesis using d send_kept [OF assms(1)] by auto
  next
    case W_enter
    then show ?thesis using d assms(1) by (auto simp: w_kept_def io_queue_ok_def)
  qed (use d assms(1) in \<open>(auto simp: w_kept_def split: if_split_asm)+\<close>)
qed

text \<open>What a turn of the reader keeps for the writer.\<close>

definition r_kept :: "io_state \<Rightarrow> io_state \<Rightarrow> bool" where
  "r_kept s s' \<longleftrightarrow> writer_view s' = writer_view s \<and> io_queue_ok s' \<and> r_pc (io_reader s) \<noteq> R_exit \<and>
     (\<exists>is. io_pushed s' = io_pushed s @ is \<and> io_items (io_obj s') = io_items (io_obj s) @ is) \<and>
     io_threads_complete (io_obj s') = io_threads_complete (io_obj s) + of_bool (r_pc (io_reader s') = R_exit)"

lemma reader_kept:
  assumes "reader_ok s" "io_queue_ok s" "read_from_socket lim e s = Some (Inr s')"
  shows "r_kept s s'"
proof -
  note d = assms(3) [unfolded read_from_socket_def Let_def]
  show ?thesis
  proof (cases "r_pc (io_reader s)")
    case R_check
    then show ?thesis
      using d assms(2) by (auto simp: r_kept_def split: if_splits sum.splits)
  next
    case R_read
    then show ?thesis
      using d assms(2)
      by (auto simp: read_some_def Let_def r_kept_def writer_view_def io_queue_ok_def io_upd split: io_read.splits if_splits)
  next
    case R_decode
    then have b: "rbuf_ok (r_buf (io_reader s))" "decode_one lim s = Inr s'"
      using assms(1) d by (simp_all add: reader_ok_def r_now_def reading_def)
    from b(1) show ?thesis
    proof (cases rule: decode_one_cases [where lim = lim])
      case (bad x)
      then show ?thesis
        using b(2) R_decode assms(2) encode_badmsg(1) [of lim] io_queue_ok_push [OF assms(2)]
        by (auto simp: r_kept_def split: option.splits) (auto simp: io_upd)
    qed (use b(2) R_decode assms(2) in \<open>auto simp: r_kept_def\<close>)
  next
    case R_enter
    then show ?thesis
      using d assms(2)
      by (cases "e_alloc e") (auto simp: r_kept_def writer_view_def io_queue_ok_def io_upd)
  next
    case R_stop
    then show ?thesis
      using d io_queue_ok_stop [OF assms(2)] by (auto simp: r_kept_def) (auto simp: io_upd)
  qed (use d assms(2) in \<open>auto simp: r_kept_def split: if_splits\<close>)
qed
lemma reader_ok_view:
  "io_reader s' = io_reader s \<Longrightarrow> io_received s' = io_received s \<Longrightarrow> io_delivered s' = io_delivered s \<Longrightarrow>
   reader_ok s' = reader_ok s"
  unfolding reader_ok_def r_now_def by (simp cong: reader_pc.case_cong)

lemma client_ok:
  assumes "writer_ok s" "reader_ok s" "io_queue_ok s" "item_ok i" "s' \<in> {io_queue i s, io_stop s}"
  shows "writer_ok s'" "reader_ok s'" "io_queue_ok s'" "exited s' = exited s"
    "io_threads_complete (io_obj s') = io_threads_complete (io_obj s)"
proof -
  have v: "writer_view s' = writer_view s" using assms(5) by auto
  then show "writer_ok s'" using writer_ok_view assms(1) by blast
  show "reader_ok s'" using assms(2,5) reader_ok_view [of s' s] by auto
  show "io_queue_ok s'" using assms(3,4,5) io_queue_ok_push io_queue_ok_stop by auto
  show "exited s' = exited s" "io_threads_complete (io_obj s') = io_threads_complete (io_obj s)"
    using assms(5) by (auto simp: exited_def io_upd)
qed

lemma writer_inv:
  assumes "socket_write e s = Some (Inr s')" "io_inv s"
  shows "io_inv s'"
proof -
  have k: "w_kept s s'" "writer_ok s'"
    using assms writer_kept writer_turn_ok by (auto simp: io_inv_def)
  then have "reader_ok s'" using assms(2) reader_ok_view [of s' s] by (simp add: io_inv_def w_kept_def)
  then show ?thesis using k assms(2) by (simp add: io_inv_def w_kept_def exited_def)
qed

lemma io_step_inv:
  assumes "io_step lim t s s'" "io_inv s"
  shows "io_inv s'"
  using assms(1)
proof cases
  case (queued i)
  then show ?thesis
    using assms(2) client_ok [of s i s'] by (simp add: io_inv_def)
next
  case stop
  then show ?thesis
    using assms(2) client_ok [of s new_QueuedItem s'] item_ok_new by (simp add: io_inv_def)
next
  case (reader e)
  have k: "r_kept s s'" "reader_ok s'"
    using assms(2) reader reader_kept reader_turn_ok by (auto simp: io_inv_def)
  then have v: "writer_view s' = writer_view s" by (simp add: r_kept_def)
  then have "io_writer s' = io_writer s" "writer_ok s'"
    using assms(2) writer_ok_view [OF v] by (simp_all add: io_inv_def writer_view_def)
  then show ?thesis
    using assms(2) k by (simp add: io_inv_def r_kept_def exited_def)
next
  case (writer e)
  then show ?thesis
    using assms(2) writer_inv by blast
next
  case (stalled e)
  then show ?thesis
    using assms(2) writer_inv by blast
qed

lemma turns_inv:
  assumes "turns step s ts s'" "P s" "\<And>t s s'. step t s s' \<Longrightarrow> P s \<Longrightarrow> P s'"
  shows "P s'"
  using assms by induction blast+

lemma io_inv_init: "io_inv (io_started (new_AdminIO dbg fd l))"
  by (simp add: io_inv_def io_started_def new_AdminIO_def io_queue_ok_def writer_ok_def fresh_def reader_ok_def
      reading_def exited_def)

lemma io_reach_inv: "io_reach lim dbg fd l s \<Longrightarrow> io_inv s"
  unfolding io_reach_def using turns_inv [of "io_step lim" _ _ s io_inv] io_inv_init io_step_inv by blast

section \<open>Bounded numbers of turns\<close>




















section \<open>What is sent\<close>

text \<open>The items that are sent: those up to the first that ends the connection.\<close>

fun upto_kill :: "QueuedItem list \<Rightarrow> QueuedItem list" where
  "upto_kill [] = []"
| "upto_kill (i # is) = i # (if kills i then [] else upto_kill is)"

lemma upto_kill_append: "list_all (\<lambda>i. \<not> kills i) is \<Longrightarrow> upto_kill (is @ js) = is @ upto_kill js"
  by (induction "is") auto

lemma upto_kill_last: "kill_last is \<Longrightarrow> upto_kill (is @ js) = is"
  by (auto simp: kill_last_def upto_kill_append)

text \<open>What the writer has sent at any of its program counters.\<close>

definition ends_with :: "io_call list set" where
  "ends_with = {[], [CloseFd], [CloseFd, IoClosed], [SetLinger, CloseFd], [SetLinger, CloseFd, IoClosed]}"

definition sent_ok :: "io_state \<Rightarrow> bool" where
  "sent_ok s \<longleftrightarrow> (\<exists>xs cs. io_calls s = map Send xs @ cs \<and> cs \<in> ends_with \<and>
     prefix (concat xs) (queue_bytes (upto_kill (io_pushed s))) \<and>
     (w_reason (io_writer s) = QIKILL \<longrightarrow> concat xs = queue_bytes (upto_kill (io_pushed s))))"

lemma leaving_sent:
  assumes "io_queue_ok s" "leaving cs s" "cs \<in> ends_with"
  shows "sent_ok s"
proof -
  obtain xs where xs: "io_calls s = map Send xs @ cs" "prefix (concat xs) (queue_bytes (io_popped s))"
    "w_reason (io_writer s) = QIKILL \<longrightarrow> concat xs = queue_bytes (io_popped s)"
    using assms(2) by (auto simp: leaving_def)
  have pushed: "io_pushed s = io_popped s @ io_items (io_obj s)"
    using assms(1) by (simp add: io_queue_ok_def)
  show ?thesis
  proof (cases "w_closed (io_writer s)")
    case True
    then have "upto_kill (io_pushed s) = io_popped s"
      using assms(2) pushed by (simp add: leaving_def upto_kill_last)
    then show ?thesis using xs assms(3) unfolding sent_ok_def by metis
  next
    case False
    then have "upto_kill (io_pushed s) = io_popped s @ upto_kill (io_items (io_obj s))" "w_reason (io_writer s) \<noteq> QIKILL"
      using assms(2) pushed by (auto simp: leaving_def upto_kill_append)
    then have "prefix (concat xs) (queue_bytes (upto_kill (io_pushed s)))" using xs(2) by simp
    then show ?thesis using xs(1) assms(3) \<open>w_reason (io_writer s) \<noteq> QIKILL\<close> unfolding sent_ok_def by blast
  qed
qed

lemma fresh_sent:
  assumes "io_queue_ok s" "fresh s"
  shows "sent_ok s"
proof -
  obtain xs where xs: "io_calls s = map Send xs" "concat xs = queue_bytes (io_popped s)"
    using assms(2) by (auto simp: fresh_def)
  have "upto_kill (io_pushed s) = io_popped s @ upto_kill (io_items (io_obj s))" "w_reason (io_writer s) \<noteq> QIKILL"
    using assms by (auto simp: fresh_def io_queue_ok_def upto_kill_append)
  then show ?thesis
    using xs unfolding sent_ok_def by (intro exI [of _ xs] exI [of _ "[]"]) (simp add: ends_with_def)
qed

lemma busy_sent:
  assumes "io_queue_ok s" "busy s" "w_reason (io_writer s) \<noteq> QIKILL"
  shows "sent_ok s"
proof -
  obtain xs where xs: "io_calls s = map Send xs" "prefix (concat xs) (queue_bytes (io_popped s))"
    using busy_prefix [OF assms(2)] by blast
  have "prefix (io_popped s) (upto_kill (io_pushed s))"
    using assms(1,2) busy_no_kill [OF assms(2)] busy_kills [OF assms(2)]
    by (cases "kills (w_item (io_writer s))") (auto simp: io_queue_ok_def upto_kill_append upto_kill_last)
  then have "prefix (concat xs) (queue_bytes (upto_kill (io_pushed s)))"
    using xs(2) by (auto simp: prefix_def)
  then show ?thesis
    using xs(1) assms(3) unfolding sent_ok_def by (intro exI [of _ xs] exI [of _ "[]"]) (simp add: ends_with_def)
qed

lemma inv_sent:
  assumes "io_inv s"
  shows "sent_ok s"
proof -
  have q: "io_queue_ok s" and at: "writer_at (w_pc (io_writer s)) s"
    using assms by (simp_all add: io_inv_def writer_ok_def)
  have "hang_up s \<in> ends_with" "hung_up s \<in> ends_with" "hung_up s @ told s \<in> ends_with"
    by (simp_all add: hang_up_def hung_up_def told_def ends_with_def)
  then show ?thesis
    using at leaving_sent [OF q] fresh_sent [OF q] busy_sent [OF q] by (cases "w_pc (io_writer s)") (auto split: if_splits)
qed

section \<open>No undefined access\<close>

lemma writer_defined:
  assumes "io_inv s"
  shows "socket_write e s \<noteq> Some (Inl x)"
proof -
  have q: "io_queue_ok s" and at: "writer_at (w_pc (io_writer s)) s"
    using assms by (simp_all add: io_inv_def writer_ok_def)
  have send: "\<exists>s'. send_some now r s = Inr s'" if "busy s" for now r
  proof -
    have "item_ok (w_item (io_writer s))" using q that by (auto simp: io_queue_ok_def busy_def)
    then show ?thesis by (auto simp: send_some_def Let_def item_ok_def split: io_send.splits)
  qed
  show ?thesis
  proof (cases "w_pc (io_writer s)")
    case W_wait
    show ?thesis
    proof (cases "wait_and_pop (e_alloc e) (io_obj s)")
      case None
      then show ?thesis using W_wait by (simp add: socket_write_def)
    next
      case (Some r)
      from q Some show ?thesis
        by (rule wait_and_pop_cases) (use Some W_wait in \<open>auto simp: socket_write_def\<close>)
    qed
  next
    case W_send
    then show ?thesis using at send [of "e_now e" "e_send e"] by (auto simp: socket_write_def Let_def)
  qed (simp_all add: socket_write_def Let_def)
qed


lemma reader_defined:
  assumes "io_inv s" "read_from_socket lim e s = Some (Inl x)"
  shows "r_pc (io_reader s) = R_decode \<and> decodeMsg (r_msg (io_reader s)) (contents (r_buf (io_reader s))) = Inl x \<or>
    r_pc (io_reader s) = R_check \<and> 2 ^ 62 \<le> m_buf_cap (r_buf (io_reader s))"
proof -
  note d = assms(2) [unfolded read_from_socket_def Let_def]
  have ok: "reader_ok s" using assms(1) by (simp add: io_inv_def)
  show ?thesis
  proof (cases "r_pc (io_reader s)")
    case R_check
    have "2 ^ 62 \<le> m_buf_cap b" if "make_room lim b = Inl x" "undefined_access x" for b
      using that by (auto simp: make_room_def bindR_def grow_def Let_def split: if_splits sum.splits)
    then show ?thesis using d R_check by (auto split: if_splits sum.splits)
  next
    case R_read
    then have b: "rbuf_ok (r_buf (io_reader s))" "m_rp (r_buf (io_reader s)) = 0" "read_some (e_read e) s = Inl x"
      using ok d by (simp_all add: reader_ok_def r_now_def reading_def)
    from b(1,2) show ?thesis
      by (cases rule: read_some_cases [where r = "e_read e"]) (use b(3) in simp_all)
  next
    case R_decode
    then have b: "rbuf_ok (r_buf (io_reader s))" "decode_one lim s = Inl x"
      using ok d by (simp_all add: reader_ok_def r_now_def reading_def)
    from b(1) show ?thesis
      by (cases rule: decode_one_cases [where lim = lim]) (use b(2) R_decode in simp_all)
  qed (use d in \<open>auto split: if_splits\<close>)
qed

section \<open>What is received\<close>

text \<open>The reader decodes into the message it decoded before, which the decoder empties.\<close>

interpretation any: framing "decodeMsg old" wire sam_sendable for old
proof
  fix m rest k
  assume m: "sam_sendable m"
  then have w: "wf_cont m" "clean_cont m" "clean_type (cont_name m)" "wire_len m \<le> max_msglen"
    by (simp_all add: sam_sendable_def)
  have l: "length (wire m) = wire_len m"
    using length_wire [of m] w(4) wire_len_ge [of m] by simp
  show "decodeMsg old (wire m @ rest) = Inr (m, length (wire m))"
    using decodeMsg_wire [OF w l refl] l by simp
  show "wire m \<noteq> []" using l wire_len_ge [of m] by auto
  show "\<exists>x. decodeMsg old (take k (wire m)) = Inr (x, 0)" if "k < length (wire m)"
    using decodeMsg_prefix [OF w(4) l that] by blast
qed

definition all_decoded :: "reader_pc \<Rightarrow> bool" where
  "all_decoded p \<longleftrightarrow> p \<in> {R_loop, R_select, R_check, R_read}"

definition got_part :: "txContainer list \<Rightarrow> nat \<Rightarrow> io_state \<Rightarrow> bool" where
  "got_part ms i s \<longleftrightarrow> i \<le> length ms \<and> io_delivered s = take i ms \<and>
     (reading (r_pc (io_reader s)) \<longrightarrow> io_received s = any.stream (take i ms) @ contents (r_now s)) \<and>
     (all_decoded (r_pc (io_reader s)) \<and> i < length ms \<longrightarrow> length (contents (r_now s)) < length (wire (ms ! i)))"

lemma got_part_view:
  "io_reader s' = io_reader s \<Longrightarrow> io_received s' = io_received s \<Longrightarrow> io_delivered s' = io_delivered s \<Longrightarrow>
   got_part ms i s' = got_part ms i s"
  unfolding got_part_def r_now_def by (simp cong: reader_pc.case_cong)

lemma got_left: "got_part ms i s \<Longrightarrow> \<not> reading p \<Longrightarrow> got_part ms i (r_goto p s)"
  by (auto simp: got_part_def all_decoded_def reading_def)

lemma decode_got:
  assumes ok: "rbuf_ok (r_buf (io_reader s))" and l: "io_listener (io_obj s)" and p: "r_pc (io_reader s) = R_decode"
    and g: "got_part ms i s" and str: "io_received s @ later = any.stream ms" "list_all sam_sendable ms"
    and d: "decode_one lim s = Inr s'"
  shows "\<exists>i. got_part ms i s'"
proof -
  let ?c = "contents (r_buf (io_reader s))"
  have rec: "io_received s = any.stream (take i ms) @ ?c" "i \<le> length ms" "io_delivered s = take i ms"
    using g p by (simp_all add: got_part_def reading_def r_now_def)
  have "any.stream ms = any.stream (take i ms) @ any.stream (drop i ms)"
    by (metis append_take_drop_id any.stream_simps(3))
  then have rest: "?c @ later = any.stream (drop i ms)" using rec(1) str(1) by simp
  show ?thesis
  proof (cases "i = length ms")
    case True
    then have "?c = []" using rest by simp
    then have "m_bytesavail (r_buf (io_reader s)) = 0" using length_contents [OF ok] by simp
    with ok show ?thesis
      by (cases rule: decode_one_cases [where lim = lim])
        (use d True rec \<open>?c = []\<close> in \<open>auto simp: decode_one_def Let_def got_part_def r_now_def\<close>)
  next
    case False
    then have i: "i < length ms" "drop i ms = ms ! i # drop (Suc i) ms" "sam_sendable (ms ! i)"
      using rec(2) str(2) by (simp_all add: Cons_nth_drop_Suc list_all_length)
    have front: "?c @ later = wire (ms ! i) @ any.stream (drop (Suc i) ms)" using rest i(2) by simp
    from i(3) front show ?thesis
    proof (cases rule: any.front_cases [where old = "r_msg (io_reader s)"])
      case (complete bs')
      with ok show ?thesis
      proof (cases rule: decode_one_cases [where lim = lim])
        case (message m n)
        have c: "contents (consume n (r_buf (io_reader s))) = bs'" "m = ms ! i"
          using complete(1,2) message(1,3) consume_ok(2) [OF ok message(3)] by auto
        have "got_part ms (Suc i) s'"
          using message(4) d l rec complete(1) c i(1)
          by (auto simp: got_part_def r_now_def all_decoded_def take_Suc_conv_app_nth)
        then show ?thesis by blast
      next
        case (none m b')
        then show ?thesis
          using complete(1,2) any.enc_nonempty [OF i(3)] length_contents [OF ok] by auto
      qed auto
    next
      case (incomplete x)
      with ok show ?thesis
      proof (cases rule: decode_one_cases [where lim = lim])
        case (none m b')
        then have "got_part ms i s'"
          using d rec incomplete(1) by (auto simp: got_part_def r_now_def)
        then show ?thesis by blast
      qed auto
    qed
  qed
qed

lemma reader_got:
  assumes inv: "io_inv s" and l: "io_listener (io_obj s)" and g: "got_part ms i s"
    and str: "io_received s @ later = any.stream ms" "list_all sam_sendable ms"
    and d: "read_from_socket lim e s = Some (Inr s')"
  shows "\<exists>i. got_part ms i s'"
proof -
  note t = d [unfolded read_from_socket_def Let_def]
  note left = got_left [OF g, unfolded reading_def, simplified]
  have ok: "reader_ok s" using inv by (simp add: io_inv_def)
  show ?thesis
  proof (cases "r_pc (io_reader s)")
    case R_enter
    then have "io_received s = []" "io_delivered s = []" using ok by (simp_all add: reader_ok_def)
    then have "got_part ms 0 s'"
      using t R_enter any.enc_nonempty str(2)
      by (cases "e_alloc e") (auto simp: got_part_def r_now_def reading_def all_decoded_def list_all_length)
    then show ?thesis by blast
  next
    case R_check
    then have b: "rbuf_ok (r_buf (io_reader s))" "m_rp (r_buf (io_reader s)) = 0"
      using ok by (simp_all add: reader_ok_def r_now_def reading_def)
    show ?thesis
    proof (cases "make_room lim (r_buf (io_reader s))")
      case (Inl x)
      then show ?thesis using t R_check left by (auto split: if_splits)
    next
      case (Inr b')
      have "s' = r_goto R_complete s \<or> s' = r_goto R_read (set_buf b' s)"
        using t R_check Inr by (auto split: if_splits)
      moreover have "got_part ms i (r_goto R_read (set_buf b' s))"
        using R_check g make_room_ok(3) [OF b Inr] by (simp add: got_part_def r_now_def reading_def all_decoded_def)
      ultimately show ?thesis using left by blast
    qed
  next
    case R_read
    then have b: "rbuf_ok (r_buf (io_reader s))" "m_rp (r_buf (io_reader s)) = 0" "read_some (e_read e) s = Inr s'"
      using ok t by (simp_all add: reader_ok_def r_now_def reading_def)
    from b(1,2) have "got_part ms i s'"
    proof (cases rule: read_some_cases [where r = "e_read e"])
      case (failed p)
      moreover have "got_part ms i (r_goto (R_got (-1)) s)"
        using b(1) R_read g by (simp add: got_part_def r_now_def incr_none reading_def all_decoded_def)
      ultimately show ?thesis using b(3) left by auto
    next
      case (got bs b')
      then show ?thesis
        using b(3) R_read g by (auto simp: got_part_def r_now_def reading_def all_decoded_def)
    qed
    then show ?thesis by blast
  next
    case (R_got n)
    then have "s' \<in> {r_goto R_complete s, r_goto R_stop s,
        r_goto R_decode (set_buf (incr_bytesavail (nat n) (r_buf (io_reader s))) s)}"
      using t by (auto split: if_splits)
    moreover have "got_part ms i (r_goto R_decode (set_buf (incr_bytesavail (nat n) (r_buf (io_reader s))) s))"
      using R_got g by (simp add: got_part_def r_now_def reading_def all_decoded_def)
    ultimately show ?thesis using left by blast
  next
    case R_decode
    then have b: "rbuf_ok (r_buf (io_reader s))" "decode_one lim s = Inr s'"
      using ok t by (simp_all add: reader_ok_def r_now_def reading_def)
    show ?thesis by (rule decode_got [OF b(1) l R_decode g str b(2)])
  next
    case R_stop
    then have "got_part ms i s'"
      using t g by (auto simp: got_part_def reading_def all_decoded_def)
    then show ?thesis by blast
  next
    case R_complete
    then have "got_part ms i s'"
      using t g by (auto simp: got_part_def reading_def all_decoded_def)
    then show ?thesis by blast
  next
    case R_loop
    then have "got_part ms i s'"
      using t g by (auto simp: got_part_def r_now_def reading_def all_decoded_def)
    then show ?thesis by blast
  next
    case R_select
    then have "got_part ms i s'"
      using t g by (auto simp: got_part_def r_now_def reading_def all_decoded_def)
    then show ?thesis by blast
  qed (use t in simp)
qed

text \<open>Once the bytes are known to begin a stream of messages, so are those received before.\<close>

definition got_inv :: "txContainer list \<Rightarrow> io_state \<Rightarrow> bool" where
  "got_inv ms s \<longleftrightarrow> io_inv s \<and> io_listener (io_obj s) \<and>
     (prefix (io_received s) (any.stream ms) \<longrightarrow> (\<exists>i. got_part ms i s))"

lemma received_grows:
  assumes "io_inv s" "io_step lim t s s'"
  shows "prefix (io_received s) (io_received s')"
  using assms(2)
proof cases
  case (reader e)
  have ok: "reader_ok s" using assms(1) by (simp add: io_inv_def)
  note t = reader(2) [unfolded read_from_socket_def Let_def]
  show ?thesis
  proof (cases "r_pc (io_reader s)")
    case R_read
    then show ?thesis
      using t by (auto simp: read_some_def Let_def split: io_read.splits if_splits)
  next
    case R_decode
    then have b: "rbuf_ok (r_buf (io_reader s))" "decode_one lim s = Inr s'"
      using ok t by (simp_all add: reader_ok_def r_now_def reading_def)
    from b(1) show ?thesis
      by (cases rule: decode_one_cases [where lim = lim]) (use b(2) in \<open>auto split: option.splits\<close>)
  next
    case R_enter
    then show ?thesis using t by (cases "e_alloc e") auto
  qed (use t in \<open>auto split: if_splits sum.splits\<close>)
qed (use assms(1) writer_kept [of s _ s'] in \<open>auto simp: io_inv_def w_kept_def\<close>)

lemma got_step:
  assumes "io_step lim t s s'" "got_inv ms s" "list_all sam_sendable ms"
  shows "got_inv ms s'"
proof -
  have inv: "io_inv s" "io_inv s'" "io_listener (io_obj s)"
    using assms(1,2) io_step_inv by (auto simp: got_inv_def)
  have "\<exists>i. got_part ms i s'" if "prefix (io_received s') (any.stream ms)"
  proof -
    have pre: "prefix (io_received s) (any.stream ms)"
      using received_grows [OF inv(1) assms(1)] that by (rule prefix_order.order_trans)
    then obtain i where g: "got_part ms i s" using assms(2) by (auto simp: got_inv_def)
    obtain later where later: "io_received s @ later = any.stream ms" using pre by (auto simp: prefix_def)
    from assms(1) show ?thesis
    proof cases
      case (reader e)
      then show ?thesis using reader_got [OF inv(1,3) g later assms(3)] by blast
    qed (use g inv(1) writer_kept [of s _ s'] got_part_view [of s' s] in \<open>auto simp: io_inv_def w_kept_def\<close>)
  qed
  moreover have "io_listener (io_obj s')"
    using assms(1)
  proof cases
    case (reader e)
    then show ?thesis using inv reader_kept [of s lim e s'] by (auto simp: io_inv_def r_kept_def writer_view_def)
  qed (use inv writer_kept [of s _ s'] in \<open>auto simp: io_inv_def w_kept_def io_upd\<close>)
  ultimately show ?thesis using inv(2) by (simp add: got_inv_def)
qed

lemma got_init: "got_inv ms (io_started (new_AdminIO dbg fd True))"
proof -
  have "got_part ms 0 (io_started (new_AdminIO dbg fd True))"
    by (simp add: got_part_def io_started_def reading_def all_decoded_def)
  then show ?thesis
    using io_inv_init [of dbg fd True] unfolding got_inv_def by (auto simp: io_started_def new_AdminIO_def)
qed

lemma reach_got:
  assumes "io_reach lim dbg fd True s" "list_all sam_sendable ms"
  shows "got_inv ms s"
  using assms turns_inv [of "io_step lim" _ _ s "got_inv ms"] got_init got_step
  unfolding io_reach_def by blast

section \<open>Properties\<close>

text \<open>Runs of given turns, for the evaluation of examples; a client's turn asks for the end.\<close>

fun io_exec :: "nat \<Rightarrow> (io_turn \<times> io_env) list \<Rightarrow> io_state \<Rightarrow> io_state option" where
  "io_exec lim [] s = Some s"
| "io_exec lim ((ClientTurn, e) # es) s = io_exec lim es (io_stop s)"
| "io_exec lim ((ReaderTurn, e) # es) s =
     (case read_from_socket lim e s of Some (Inr s') \<Rightarrow> io_exec lim es s' | _ \<Rightarrow> None)"
| "io_exec lim ((WriterTurn, e) # es) s =
     (if stalls e s then None
      else case socket_write e s of Some (Inr s') \<Rightarrow> io_exec lim es s' | _ \<Rightarrow> None)"
| "io_exec lim ((Stalled, e) # es) s =
     (if \<not> stalls e s then None
      else case socket_write e s of Some (Inr s') \<Rightarrow> io_exec lim es s' | _ \<Rightarrow> None)"

lemma io_more: "io_step lim t s s' \<Longrightarrow> turns (io_step lim) s0 ts s \<Longrightarrow> turns (io_step lim) s0 (ts @ [t]) s'"
  by (rule turns.more)

lemma io_exec_turns:
  "io_exec lim es s = Some s' \<Longrightarrow> turns (io_step lim) s0 ts s \<Longrightarrow> turns (io_step lim) s0 (ts @ map fst es) s'"
proof (induction lim es s arbitrary: ts rule: io_exec.induct)
  case (2 lim e es s)
  then show ?case using "2.IH" [of "ts @ [ClientTurn]"] io_more [OF io_step.stop] by force
next
  case (3 lim e es s)
  then obtain s1 where s1: "read_from_socket lim e s = Some (Inr s1)" "io_exec lim es s1 = Some s'"
    by (auto split: option.splits sum.splits)
  then show ?case
    using "3.IH" [OF s1(1) refl s1(2)] io_more [OF io_step.reader [OF s1(1)] "3.prems"(2)] by force
next
  case (4 lim e es s)
  then obtain s1 where s1: "socket_write e s = Some (Inr s1)" "io_exec lim es s1 = Some s'" "\<not> stalls e s"
    by (auto split: option.splits sum.splits if_splits)
  then show ?case
    using "4.IH" [OF _ s1(1) refl s1(2)] io_more [OF io_step.writer [OF s1(1,3)] "4.prems"(2)] by force
next
  case (5 lim e es s)
  then obtain s1 where s1: "socket_write e s = Some (Inr s1)" "io_exec lim es s1 = Some s'" "stalls e s"
    by (auto split: option.splits sum.splits if_splits)
  then show ?case
    using "5.IH" [OF _ s1(1) refl s1(2)] io_more [OF io_step.stalled [OF s1(1,3)] "5.prems"(2)] by force
qed simp

definition hi_item :: QueuedItem where
  "hi_item = \<lparr>qi_size = 2, qi_flags = 0, qi_sb = \<lparr>m_buf = ''hi'', m_msg_start = 0, m_wptr = 2\<rparr>\<rparr>"

definition plain_env :: io_env where
  "plain_env = \<lparr>e_tid = 7, e_now = 0, e_alloc = True, e_send = Sent 1, e_ready = True, e_read = ReadData ''''\<rparr>"

definition hi_queued :: io_state where
  "hi_queued = io_stop (io_queue hi_item (io_started (new_AdminIO False 3 True)))"

lemma hi_reach: "turns (io_step 1000) (io_started (new_AdminIO False 3 True)) [ClientTurn, ClientTurn] hi_queued"
proof -
  have "item_ok hi_item" by (simp add: item_ok_def hi_item_def qi_buf_def msg_start_def)
  then show ?thesis
    unfolding hi_queued_def
    using io_more [OF io_step.stop io_more [OF io_step.queued turns.start]] by fastforce
qed

definition hi_turns :: "(io_turn \<times> io_env) list" where
  "hi_turns = map (\<lambda>t. (t, plain_env))
     [WriterTurn, WriterTurn, WriterTurn, WriterTurn, WriterTurn, WriterTurn, WriterTurn,
      WriterTurn, WriterTurn, WriterTurn, WriterTurn, WriterTurn, WriterTurn, WriterTurn,
      WriterTurn, WriterTurn, WriterTurn, WriterTurn, WriterTurn, WriterTurn, WriterTurn]"

definition reader_turns :: "(io_turn \<times> io_env) list" where
  "reader_turns = map (\<lambda>t. (t, plain_env)) [ReaderTurn, ReaderTurn, ReaderTurn, ReaderTurn]"

lemmas hi_eval = delete_AdminIO_def read_from_socket_def io_upd socket_write_def send_some_def wait_and_pop_def stalls_def plain_env_def hi_item_def
  stop_item_def new_QueuedItem_def kills_def qi_buf_def msg_start_def release_item_def sub64_def Let_def

lemma hi_run: "map_option (\<lambda>s. (w_reason (io_writer s), io_calls s, delete_AdminIO s))
    (io_exec 1000 (hi_turns @ reader_turns) hi_queued) =
  Some (QIKILL, [Send ''h'', Send ''i'', SetLinger, CloseFd, IoClosed], Some ())"
  unfolding hi_turns_def reader_turns_def hi_queued_def io_started_def new_AdminIO_def by (simp add: hi_eval del: map_option_eq_Some)

lemma hi_end:
  obtains s where "turns (io_step 1000) hi_queued (map fst (hi_turns @ reader_turns)) s"
    "io_reach 1000 False 3 True s" "w_reason (io_writer s) = QIKILL"
    "io_calls s = [Send ''h'', Send ''i'', SetLinger, CloseFd, IoClosed]" "delete_AdminIO s = Some ()"
proof -
  obtain s where s: "io_exec 1000 (hi_turns @ reader_turns) hi_queued = Some s" "w_reason (io_writer s) = QIKILL"
    "io_calls s = [Send ''h'', Send ''i'', SetLinger, CloseFd, IoClosed]" "delete_AdminIO s = Some ()"
    using hi_run by auto
  show ?thesis
    using that [of s] s io_exec_turns [OF s(1) turns.start] io_exec_turns [OF s(1) hi_reach] unfolding io_reach_def
    by auto
qed

text \<open>
  C38. However the threads interleave, what the writer thread does to the connection is a
  sequence of sends followed by at most one hang-up: the socket is closed at most once, after
  the last send, and the listener is told at most once, after that.  The bytes sent are a
  beginning of those queued up to the first item that ends the connection, in the order of
  queueing, and exactly those when the writer left because of that item: what was queued before
  the end was requested is not lost.  The counter of pending bytes is that of the items in the
  queue.
\<close>

theorem io_stream:
  assumes "io_reach lim want_debug fd listener s"
  shows "(\<exists>xs cs. io_calls s = map Send xs @ cs \<and>
      cs \<in> {[], [CloseFd], [CloseFd, IoClosed], [SetLinger, CloseFd], [SetLinger, CloseFd, IoClosed]} \<and>
      prefix (concat xs) (queue_bytes (upto_kill (io_pushed s))) \<and>
      (w_reason (io_writer s) = QIKILL \<longrightarrow> concat xs = queue_bytes (upto_kill (io_pushed s)))) \<and>
    bytes_pending_io (io_obj s) = sum_list (map qi_size (io_items (io_obj s))) mod 2 ^ 64"
proof -
  have "io_inv s" by (rule io_reach_inv [OF assms])
  then show ?thesis
    using inv_sent [of s] by (simp add: sent_ok_def ends_with_def io_inv_def io_queue_ok_def bytes_pending_io_def)
qed

lemma io_stream_witness:
  "\<exists>s. io_reach 1000 False 3 True s \<and> w_reason (io_writer s) = QIKILL \<and>
     queue_bytes (upto_kill (io_pushed s)) = ''hi''"
proof -
  obtain s where s: "io_reach 1000 False 3 True s" "w_reason (io_writer s) = QIKILL"
    "io_calls s = [Send ''h'', Send ''i'', SetLinger, CloseFd, IoClosed]"
    using hi_end by blast
  obtain xs cs where x: "io_calls s = map Send xs @ cs"
    "cs \<in> {[], [CloseFd], [CloseFd, IoClosed], [SetLinger, CloseFd], [SetLinger, CloseFd, IoClosed]}"
    "concat xs = queue_bytes (upto_kill (io_pushed s))"
    using io_stream [OF s(1)] s(2) by blast
  have "concat xs = ''hi''"
    using x(1,2) s(3) by (auto simp: append_eq_Cons_conv Cons_eq_append_conv Cons_eq_map_conv map_eq_Cons_conv)
  then show ?thesis using x(3) s(1,2) by metis
qed



section \<open>Further guarantees\<close>

text \<open>
  The messages handed to the listener are a beginning of those the peer sent, and all of them
  when all bytes have been read and the reader waits for more.
\<close>

theorem io_messages:
  assumes "io_reach lim want_debug fd True s" "list_all sam_sendable ms" "io_received s @ later = any.stream ms"
  shows "\<exists>i \<le> length ms. io_delivered s = take i ms \<and>
    (all_decoded (r_pc (io_reader s)) \<and> later = [] \<longrightarrow> i = length ms)"
proof -
  have "prefix (io_received s) (any.stream ms)" using assms(3) by (metis prefixI)
  then obtain i where i: "got_part ms i s"
    using reach_got [OF assms(1,2)] by (auto simp: got_inv_def)
  have "i = length ms" if a: "all_decoded (r_pc (io_reader s))" "later = []"
  proof (rule ccontr)
    assume "i \<noteq> length ms"
    then have n: "i < length ms" using i by (simp add: got_part_def)
    have "reading (r_pc (io_reader s))" using a(1) by (auto simp: all_decoded_def reading_def)
    then have "any.stream ms = any.stream (take i ms) @ contents (r_now s)"
      using i assms(3) a(2) by (simp add: got_part_def)
    moreover have "any.stream ms = any.stream (take i ms) @ wire (ms ! i) @ any.stream (drop (Suc i) ms)"
      using n by (metis any.stream_simps(2,3) Cons_nth_drop_Suc append_take_drop_id)
    ultimately have "contents (r_now s) = wire (ms ! i) @ any.stream (drop (Suc i) ms)" by simp
    then show False using i a(1) n by (simp add: got_part_def)
  qed
  then show ?thesis using i by (auto simp: got_part_def)
qed

text \<open>
  No turn of a thread makes an undefined access, except where the decoder reads past its input
  or the buffer has grown beyond \<open>2 ^ 62\<close> bytes.
\<close>

theorem io_defined:
  assumes "io_reach lim want_debug fd listener s"
  shows "socket_write e s \<noteq> Some (Inl x)"
    "read_from_socket lim e s = Some (Inl x) \<Longrightarrow>
       r_pc (io_reader s) = R_decode \<and> decodeMsg (r_msg (io_reader s)) (contents (r_buf (io_reader s))) = Inl x \<or>
       r_pc (io_reader s) = R_check \<and> 2 ^ 62 \<le> m_buf_cap (r_buf (io_reader s))"
  using writer_defined reader_defined io_reach_inv [OF assms] by blast+

end
