(* ===== verification/Spec2Isabelle.thy ===== *)
theory Spec2Isabelle
  imports Sam_Theorems Table_Theorems Client_Theorems Service_Theorems Reactor_Theorems Server_Theorems
    Tool_Runs Service_Queries Thread_Theorems Sam_Names Admin_IO_Theorems
begin

text \<open>
  \<^bold>\<open>A verification development of exio\<close>, a C++ library that gives an application an administration
  port: remote clients log on, run administrative commands and subscribe to monitored tables.

  \<^bold>\<open>The program and its parts.\<close>  A message is a tree of named fields and containers
  (\<^verbatim>\<open>libexio/sam.cc\<close>) with a textual wire form, SAM.  A connection (\<^verbatim>\<open>Client.cc\<close>) queues bytes for
  output and collects input; a reactor thread (\<^verbatim>\<open>Reactor.cc\<close>) polls all connections and hands those
  with input to worker threads, which cut the input into messages and give them to the session
  (\<^verbatim>\<open>AdminSession.cc\<close>) that owns the connection.  Sessions live in the registry of the service
  (\<^verbatim>\<open>AdminInterfaceImpl.cc\<close>), which answers requests with built-in commands or those of the
  application, and whose monitor (\<^verbatim>\<open>Monitor.cc\<close>, \<^verbatim>\<open>Table.cc\<close>) publishes every change of a table to
  the sessions subscribed to it.  The server socket (\<^verbatim>\<open>AdminServerSocket.cc\<close>) accepts connections,
  creates their sessions and drives the housekeeping.  The command line client (\<^verbatim>\<open>src/admin.cc\<close>) is
  the other end of the protocol.

  \<^bold>\<open>Theories and sources.\<close>
  \<^item> \<open>Exio_Prelude\<close>: exceptions and results (\<open>exn\<close>, \<open>'a res\<close>, \<open>bindR\<close>), checked access to lists,
    \<^verbatim>\<open>std::map\<close> as an ordered association list with its laws as the locale \<open>ordered_map\<close>, decimal
    numbers.
  \<^item> \<open>Msg_IDs\<close>: the names of \<^verbatim>\<open>MsgIDs.h\<close>.
  \<^item> \<open>Sam_Container\<close> (\<^verbatim>\<open>sam.h\<close>, \<^verbatim>\<open>sam.cc\<close>: \<^verbatim>\<open>txContainer\<close>, \<^verbatim>\<open>qname\<close>), \<open>Sam_Buffer\<close> (\<^verbatim>\<open>SamBuffer.cc\<close>),
    \<open>Sam_Protocol\<close> (\<^verbatim>\<open>SAMProtocol\<close>), \<open>Sam_Format\<close> (\<^verbatim>\<open>utils.cc\<close>, \<^verbatim>\<open>MessageFormatter\<close>); \<open>Sam_Laws\<close> and
    \<open>Sam_Roundtrip\<close> hold their lemmas and \<open>Sam_Theorems\<close> the properties; \<open>Sam_Names\<close> the small
    classes of \<^verbatim>\<open>sam.h\<close> (\<^verbatim>\<open>qname_builder\<close>, \<^verbatim>\<open>txMessage\<close>, \<^verbatim>\<open>OverFlow\<close>).
  \<^item> \<open>Table_Events\<close> (\<^verbatim>\<open>TableEvents.cc\<close>, \<^verbatim>\<open>TableSerialiser.cc\<close>), \<open>Data_Table\<close> (\<^verbatim>\<open>Table.cc\<close>), \<open>Monitor_Model\<close>
    (\<^verbatim>\<open>Monitor.cc\<close>); \<open>Table_Laws\<close>, \<open>Table_Replay\<close>, \<open>Table_Snapshot\<close>, \<open>Monitor_Laws\<close>, \<open>Table_Theorems\<close>.
  \<^item> \<open>Read_Buffer\<close> (\<^verbatim>\<open>ReactorReadBuffer.cc\<close>), \<open>Client_Model\<close> (\<^verbatim>\<open>Client.cc\<close>); \<open>Client_Laws\<close> (output),
    \<open>Framing\<close> and \<open>Client_Inbound\<close> (input), \<open>Client_Hosting\<close> (what a reactor may rely on),
    \<open>Client_Theorems\<close>.
  \<^item> \<open>Admin_Command\<close> (\<^verbatim>\<open>AdminCommand.cc\<close>), \<open>Admin_Session\<close> (\<^verbatim>\<open>AdminSession.cc\<close>), \<open>Session_Registry\<close> and
    \<open>Admin_Interface\<close> (\<^verbatim>\<open>AdminInterfaceImpl.cc\<close>, \<^verbatim>\<open>AdminInterface.cc\<close>); \<open>Service_Laws\<close>,
    \<open>Service_Methods\<close>, \<open>Service_Requests\<close>, \<open>Service_Listener\<close>, \<open>Service_Registry\<close>, \<open>Service_Runs\<close>,
    \<open>Service_Answers\<close>, \<open>Service_Theorems\<close>, \<open>Service_Queries\<close> (the queries of the public interface).
  \<^item> \<open>Reactor_Model\<close> (\<^verbatim>\<open>Reactor.cc\<close>); \<open>Reactor_Laws\<close>, \<open>Reactor_Steps\<close>, \<open>Reactor_Cycle\<close>,
    \<open>Reactor_Theorems\<close>.
  \<^item> \<open>Server_Socket\<close> (\<^verbatim>\<open>AdminServerSocket.cc\<close>), \<open>Server_Theorems\<close>.
  \<^item> \<open>Console_Logger\<close> (\<^verbatim>\<open>AppSvc.cc\<close>, \<^verbatim>\<open>Logger.h\<close>), \<open>Admin_Tool\<close> (\<^verbatim>\<open>src/admin.cc\<close>), \<open>Tool_Theorems\<close>,
    \<open>Tool_Runs\<close>.
  \<^item> \<open>Thread_Wrappers\<close> (\<^verbatim>\<open>libcpp11\<close>), \<open>Thread_Theorems\<close>.
  \<^item> \<open>Admin_IO\<close> (\<^verbatim>\<open>old/AdminIO.h\<close>, \<^verbatim>\<open>old/AdminIO.cc\<close>: the component with two threads for each connection
    that the reactor replaced, kept in the repository and no longer built), \<open>Admin_IO_Laws\<close>,
    \<open>Admin_IO_Theorems\<close>.

  \<^bold>\<open>How the code is modelled.\<close>  A class is a record whose fields keep the names of the members, an
  operation a function from the old state to the new one, and an exception a value of \<open>exn\<close>.  An
  access that C++ leaves undefined, outside an array or to a deleted object, is the special value
  \<open>UndefinedAccess\<close>, so that a theorem that an operation ends otherwise is a theorem of memory
  safety.  \<^verbatim>\<open>size_t\<close> arithmetic that can wrap is written modulo \<open>2 ^ 64\<close>, \<^verbatim>\<open>int\<close> that can overflow is
  checked, flags are words.  Methods of the service are actions on its state (\<open>'a act\<close>), with the
  sessions in an explicit store of objects; the reactor has a heap of connections.  What code
  outside the repository gives (the results of \<^verbatim>\<open>poll\<close>, \<^verbatim>\<open>read\<close>, \<^verbatim>\<open>send\<close>, the clock, the memory
  allocator, the commands of an application, \<^verbatim>\<open>getopt_long\<close>) is an argument of the definitions, and
  every theorem holds for all its values, or names what it assumes of them.

  \<^bold>\<open>Interleaving.\<close>  A method that holds a lock throughout is one step, which is what the theorem on
  scoped locks of \<open>Thread_Theorems\<close> justifies.  The reactor thread moves in
  steps of one iteration of one of its loops (\<open>m_io\<close> is its position), a worker in the steps of
  taking, working and returning a connection, and \<open>moves\<close> interleaves them with the application,
  which may queue output, release connections and add new ones at any point.  The two threads of the
  former component move from one shared access or system call to the next (\<open>io_step\<close>).

  \<^bold>\<open>Interfaces.\<close>  \<open>ordered_map\<close> is interpreted by \<open>stdmap\<close>; \<open>sam_buffer\<close>, the abstract encoding
  buffer, by \<open>DynamicSamBuffer\<close>; \<open>framing\<close>, a prefix-free message encoding, by the SAM protocol;
  \<open>receiver\<close>, the contract between a connection and its callback, by every \<open>session_listener\<close>
  (a sublocale), which in turn is interpreted by the service and by the client; \<open>handler\<close> and
  \<open>reactor_host\<close>, the contracts of the reactor, by the sessions of the service;
  \<open>callbacks_keep\<close> by the client; \<open>bounded_turns\<close>, a thread that works something off among others, by
  the writer and by the reader of the former component.

  \<^bold>\<open>What is shown.\<close>
  \<^item> Messages: encoding and decoding are inverse; a part of a message is never taken for a message;
    the decoder stays within its input, with one exception that is stated exactly; containers keep
    their indexes; the size estimate is sound.
  \<^item> Tables: the messages that a subscriber gets, applied to a copy, keep the copy equal to the
    table (a refinement for updates, and for the snapshot of a new subscription); the invariant of
    all tables; the deletion message, which does not name its row.
  \<^item> Connections: the bytes sent and the bytes queued are those accepted, within the limit; the
    socket is shut down and closed once; output drains.
  \<^item> The service: its registry stays sound whatever peers, application and threads do, the only
    message that breaks it is stated exactly; messages arrive in order, once and completely;
    requests are answered once; sessions get free slots and give them back.
  \<^item> The reactor: no thread touches a deleted connection; a connection has one worker at most; no
    output, notification or released connection is forgotten when it polls; released connections
    are deleted; what a peer sent before it hung up is read.
  \<^item> The server socket: a turn loses no descriptor and does not postpone housekeeping; a failing
    \<^verbatim>\<open>poll\<close> is never reported.
  \<^item> The client: what is typed is what the service is asked; errors reach the user; the exit status
    is a function of the messages the service sends.
  \<^item> The interface of the application: what an update writes is what the queries read.
  \<^item> Locks: the scopes of a mutex exclude each other, and leaving one succeeds.
  \<^item> The former component: what is queued before the end is requested is sent before the socket is
    closed, both threads end within bounded numbers of turns, messages arrive in order, no access
    is undefined but that of the decoder.

  \<^bold>\<open>Bounds.\<close>  No definition has fuel: every loop of the model is structural or has a termination
  proof, and a loop over successive system calls takes the list of their results.  The hypotheses
  on sizes are those of the code: a message of less than \<open>2 ^ 31\<close> bytes, input that fits the
  allocator's limit \<open>lim\<close>, at most 100 MB of pending output, fewer than \<open>2 ^ 31\<close> arguments.  The
  growth of a buffer by half is exact below \<open>2 ^ 53\<close>, where the code computes it in floating
  point.

  \<^bold>\<open>Not modelled.\<close>  The texts of log messages inside the library; socket
  options, sleeping and time-outs; the clauses \<^verbatim>\<open>catch(...)\<close> as far as they catch what is no
  \<^verbatim>\<open>std::exception\<close>; a failing allocation inside a container of the standard library, except where
  the code handles it; test programs and build files.
\<close>

end
